(* ===== verification/Prelude.thy ===== *)
theory Prelude
  imports Main "HOL-Library.Word" "HOL-Library.Multiset"
begin

text \<open>
  What every component shares: the machine types, results and panics, time
  (\<open>std::time\<close>), type-erased values (\<open>std::any\<close>), the transition-system interface
  that carries every invariant proof, and the contract of an atomic counter that
  hands out identifiers (\<open>AtomicU64::fetch_add\<close>).
\<close>

section \<open>Machine types, results, panics\<close>

type_synonym u32 = "32 word"
type_synonym u64 = "64 word"
type_synonym usize = "64 word"

text \<open>
  \<open>Result<A, E>\<close> is the sum with the error on the left. A panic is not an error
  value: it unwinds the calling thread, so operations that can panic return \<open>rust\<close>.
\<close>

type_synonym ('a, 'e) result = "'e + 'a"

datatype 'a rust = Ret 'a | Panicked

section \<open>Time\<close>

text \<open>
  A \<open>std::time::Duration\<close> is whole seconds in a \<open>u64\<close> and nanoseconds in a
  \<open>u32\<close> below \<open>10^9\<close>; it is modelled as its number of nanoseconds, with the width
  written out as \<open>duration_max\<close>. An \<open>Instant\<close> is a reading of the monotonic clock,
  in nanoseconds, whose seconds are an \<open>i64\<close> on the 64-bit Unix targets. The
  operators \<open>Duration * u32\<close> and \<open>Instant + Duration\<close> panic when the result is not
  representable.
\<close>

type_synonym duration = nat
type_synonym instant = nat

definition nanos_per_sec :: nat where
  "nanos_per_sec = 1000000000"

definition duration_max :: duration where
  "duration_max = 2 ^ 64 * nanos_per_sec - 1"

definition instant_max :: instant where
  "instant_max = 2 ^ 63 * nanos_per_sec - 1"

definition from_secs :: "nat \<Rightarrow> duration" where
  "from_secs s = s * nanos_per_sec"

definition from_millis :: "nat \<Rightarrow> duration" where
  "from_millis m = m * 1000000"

definition duration_mul :: "duration \<Rightarrow> u32 \<Rightarrow> duration rust" where
  "duration_mul d k =
     (if d * unat k \<le> duration_max then Ret (d * unat k) else Panicked)"

definition instant_add :: "instant \<Rightarrow> duration \<Rightarrow> instant rust" where
  "instant_add t d = (if t + d \<le> instant_max then Ret (t + d) else Panicked)"

text \<open>\<open>Instant::elapsed\<close> at clock reading \<open>now\<close>: it saturates at zero.\<close>

definition elapsed :: "instant \<Rightarrow> instant \<Rightarrow> duration" where
  "elapsed now t = now - t"

lemmas time_defs = nanos_per_sec_def duration_max_def instant_max_def
  from_secs_def from_millis_def duration_mul_def instant_add_def elapsed_def

lemma instant_add_Ret_iff [simp]:
  "instant_add t d = Ret u \<longleftrightarrow> t + d \<le> instant_max \<and> u = t + d"
  by (auto simp: instant_add_def)

lemma instant_add_Panicked_iff [simp]:
  "instant_add t d = Panicked \<longleftrightarrow> instant_max < t + d"
  by (auto simp: instant_add_def)

lemma instant_add_fits: "t + d \<le> instant_max \<Longrightarrow> instant_add t d = Ret (t + d)"
  by simp

section \<open>Type-erased values\<close>

text \<open>
  \<open>Box<dyn Any>\<close>: a value together with the \<open>TypeId\<close> of its concrete type.
  \<open>downcast\<close> hands the value out when the requested type is the concrete one and
  gives the box back otherwise.
\<close>

type_synonym type_id = nat

datatype 'v any = Any (any_type: type_id) (any_val: 'v)

definition downcast :: "type_id \<Rightarrow> 'v any \<Rightarrow> ('v, 'v any) result" where
  "downcast t a = (if any_type a = t then Inr (any_val a) else Inl a)"

lemma downcast_Inr_iff [simp]:
  "downcast t a = Inr v \<longleftrightarrow> a = Any t v"
  by (cases a) (auto simp: downcast_def)

lemma downcast_Any [simp]:
  "downcast t (Any u v) = (if u = t then Inr v else Inl (Any u v))"
  by (simp add: downcast_def)

section \<open>Lists of queues\<close>

lemma concat_update:
  "i < length xss \<Longrightarrow>
   mset (concat (xss[i := ys])) + mset (xss ! i) = mset (concat xss) + mset ys"
proof (induction xss arbitrary: i)
  case Nil
  then show ?case by simp
next
  case (Cons xs xss)
  show ?case
  proof (cases i)
    case 0
    then show ?thesis by (simp add: ac_simps)
  next
    case (Suc k)
    with Cons have "mset (concat (xss[k := ys])) + mset (xss ! k) = mset (concat xss) + mset ys"
      by simp
    with Suc show ?thesis by (simp add: ac_simps)
  qed
qed

lemma sum_list_update_nat:
  "i < length xs \<Longrightarrow> sum_list (xs[i := (y::nat)]) + xs ! i = sum_list xs + y"
  by (induction xs arbitrary: i) (auto split: nat.splits)

lemma submset_set: "mset ys \<subseteq># mset xs \<Longrightarrow> set ys \<subseteq> set xs"
  using set_mset_mono [of "mset ys" "mset xs"] by simp

lemma submset_distinct:
  "mset ys \<subseteq># mset xs \<Longrightarrow> distinct xs \<Longrightarrow> distinct ys"
proof -
  assume "mset ys \<subseteq># mset xs" and d: "distinct xs"
  then obtain zs where "mset xs = mset (ys @ zs)"
    by (metis ex_mset mset_append subset_mset.le_iff_add)
  then have "distinct (ys @ zs)" using d by (metis mset_eq_imp_distinct_iff)
  then show "distinct ys" by simp
qed

lemma submset_distinct_map:
  assumes "mset ys \<subseteq># mset xs" and "distinct (map f xs)"
  shows "distinct (map f ys)"
proof -
  obtain zs where "mset xs = mset ys + mset zs"
    using assms(1) by (metis ex_mset subset_mset.le_iff_add)
  then have "mset (map f xs) = mset (map f (ys @ zs))" by simp
  then have "distinct (map f (ys @ zs))" using assms(2) by (metis mset_eq_imp_distinct_iff)
  then show ?thesis by simp
qed

section \<open>Transition systems\<close>

text \<open>
  The components that several threads share are step relations over a state. The
  reachable states and the rule that lifts a one-step invariant to all of them are
  stated once.
\<close>

inductive reachable :: "('s \<Rightarrow> bool) \<Rightarrow> ('s \<Rightarrow> 's \<Rightarrow> bool) \<Rightarrow> 's \<Rightarrow> bool"
  for init step where
  reach_init: "init s \<Longrightarrow> reachable init step s"
| reach_step: "reachable init step s \<Longrightarrow> step s t \<Longrightarrow> reachable init step t"

locale invariant_of =
  fixes init :: "'s \<Rightarrow> bool"
    and step :: "'s \<Rightarrow> 's \<Rightarrow> bool"
    and inv :: "'s \<Rightarrow> bool"
  assumes holds_init: "init s \<Longrightarrow> inv s"
    and kept_by_step: "inv s \<Longrightarrow> step s t \<Longrightarrow> inv t"
begin

lemma always: "reachable init step s \<Longrightarrow> inv s"
  by (induction rule: reachable.induct) (auto intro: holds_init kept_by_step)

lemma kept_by_run: "step\<^sup>*\<^sup>* s t \<Longrightarrow> inv s \<Longrightarrow> inv t"
  by (induction rule: rtranclp_induct) (auto intro: kept_by_step)

end

lemma reachable_run: "step\<^sup>*\<^sup>* s t \<Longrightarrow> reachable init step s \<Longrightarrow> reachable init step t"
  by (induction rule: rtranclp_induct) (auto intro: reach_step)

section \<open>Identifier sources\<close>

text \<open>
  \<open>TimerId::new\<close>, \<open>TaskId::new\<close> and the request counter all hand out the old
  value of an \<open>AtomicU64\<close> and add one to it, wrapping at \<open>2^64\<close>. \<open>take_ids\<close> makes
  \<open>n\<close> consecutive calls of such an operation.
\<close>

definition fetch_add1 :: "u64 \<Rightarrow> u64 \<times> u64" where
  "fetch_add1 c = (c, c + 1)"

fun take_ids :: "('s \<Rightarrow> 'i \<times> 's) \<Rightarrow> nat \<Rightarrow> 's \<Rightarrow> 'i list \<times> 's" where
  "take_ids fresh 0 s = ([], s)"
| "take_ids fresh (Suc n) s =
     (let r = fresh s; q = take_ids fresh n (snd r) in (fst r # fst q, snd q))"

lemma of_nat_u64_inj:
  assumes "i < 2 ^ 64" and "j < 2 ^ 64" and "of_nat i = (of_nat j :: u64)"
  shows "i = j"
proof -
  have "unat (of_nat i :: u64) = unat (of_nat j :: u64)" using assms(3) by simp
  then show ?thesis using assms(1,2) by (simp add: unat_of_nat)
qed

lemma unat_of_nat_u64: "n < 2 ^ 64 \<Longrightarrow> unat (of_nat n :: u64) = n"
  by (simp add: unat_of_nat)

lemma unat_of_nat_u32: "n < 2 ^ 32 \<Longrightarrow> unat (of_nat n :: u32) = n"
  by (simp add: unat_of_nat)

locale id_source =
  fixes fresh :: "'s \<Rightarrow> 'i \<times> 's"
    and counter :: "'s \<Rightarrow> u64"
    and raw :: "'i \<Rightarrow> u64"
  assumes fresh_raw: "raw (fst (fresh s)) = counter s"
    and fresh_counter: "counter (snd (fresh s)) = counter s + 1"
begin

lemma take_ids_length: "length (fst (take_ids fresh n s)) = n"
  by (induction n arbitrary: s) (auto simp: Let_def)

lemma take_ids_counter: "counter (snd (take_ids fresh n s)) = counter s + of_nat n"
proof (induction n arbitrary: s)
  case 0
  then show ?case by simp
next
  case (Suc n)
  show ?case using Suc [of "snd (fresh s)"]
    by (simp add: Let_def fresh_counter add.assoc)
qed

lemma take_ids_raw:
  "map raw (fst (take_ids fresh n s)) = map (\<lambda>i. counter s + of_nat i) [0..<n]"
proof (induction n arbitrary: s)
  case 0
  then show ?case by simp
next
  case (Suc n)
  have "map raw (fst (take_ids fresh (Suc n) s))
      = raw (fst (fresh s)) # map raw (fst (take_ids fresh n (snd (fresh s))))"
    by (simp add: Let_def)
  also have "\<dots> = counter s # map (\<lambda>i. counter s + of_nat (Suc i)) [0..<n]"
    by (simp add: Suc.IH fresh_raw fresh_counter add.assoc)
  also have "\<dots> = map (\<lambda>i. counter s + of_nat i) [0..<Suc n]"
    by (simp only: map_upt_Suc) simp
  finally show ?case .
qed

lemma take_ids_distinct:
  assumes "n \<le> 2 ^ 64"
  shows "distinct (fst (take_ids fresh n s))"
proof -
  have "inj_on (\<lambda>i. counter s + (of_nat i :: u64)) {0..<n}"
    using assms by (auto simp: inj_on_def intro!: of_nat_u64_inj)
  then have "distinct (map raw (fst (take_ids fresh n s)))"
    by (simp add: take_ids_raw distinct_map)
  then show ?thesis by (simp add: distinct_map)
qed

end

end
