(* ===== verification/Fifo.thy ===== *)
theory Fifo
  imports Prelude
begin

text \<open>
  The queue contracts the runtime is built on. Every queue of the program (the
  mailbox's \<open>VecDeque\<close>, a worker's run queue, a crossbeam channel) gives its items
  out in the order they went in; they differ in how an item goes in. \<open>fifo\<close> is the
  taking side, \<open>push_fifo\<close> adds a push that always succeeds, \<open>stealing\<close> a batch
  removal from the front, and \<open>bounded_fifo\<close> an offer that a full queue refuses.
\<close>

text \<open>\<open>n\<close> consecutive pops, the offers of a list, and what was accepted.\<close>

fun pop_n :: "('c \<Rightarrow> 'm option \<times> 'c) \<Rightarrow> nat \<Rightarrow> 'c \<Rightarrow> 'm list \<times> 'c" where
  "pop_n pop 0 c = ([], c)"
| "pop_n pop (Suc n) c =
     (case pop c of
        (None, c') \<Rightarrow> ([], c')
      | (Some m, c') \<Rightarrow> (let r = pop_n pop n c' in (m # fst r, snd r)))"

fun offer_all :: "('m \<Rightarrow> 'c \<Rightarrow> bool \<times> 'c) \<Rightarrow> 'm list \<Rightarrow> 'c \<Rightarrow> 'm list \<times> 'c" where
  "offer_all offer [] c = ([], c)"
| "offer_all offer (m # ms) c =
     (let r = offer m c; q = offer_all offer ms (snd r)
      in (if fst r then m # fst q else fst q, snd q))"

text \<open>
  \<open>ok\<close> is the representation invariant of the provider: what its state has to satisfy
  for the laws to apply, and what its operations keep.
\<close>

locale fifo =
  fixes ok :: "'c \<Rightarrow> bool"
    and items :: "'c \<Rightarrow> 'm list"
    and pop :: "'c \<Rightarrow> 'm option \<times> 'c"
  assumes pop_empty: "ok c \<Longrightarrow> items c = [] \<Longrightarrow> pop c = (None, c)"
    and pop_head: "ok c \<Longrightarrow> items c = m # ms \<Longrightarrow>
      fst (pop c) = Some m \<and> items (snd (pop c)) = ms \<and> ok (snd (pop c))"
begin

lemma pop_n_take:
  "ok c \<Longrightarrow> fst (pop_n pop n c) = take n (items c)
    \<and> items (snd (pop_n pop n c)) = drop n (items c) \<and> ok (snd (pop_n pop n c))"
proof (induction n arbitrary: c)
  case 0
  then show ?case by simp
next
  case (Suc n)
  show ?case
  proof (cases "items c")
    case Nil
    with Suc.prems show ?thesis by (simp add: pop_empty)
  next
    case (Cons m ms)
    then obtain c' where "pop c = (Some m, c')" and "items c' = ms" and "ok c'"
      using pop_head [OF Suc.prems Cons] by (cases "pop c") auto
    then show ?thesis using Suc.IH [of c'] Cons by (simp add: Let_def)
  qed
qed

lemma pop_None_iff: "ok c \<Longrightarrow> fst (pop c) = None \<longleftrightarrow> items c = []"
  by (cases "items c") (auto simp: pop_empty dest: pop_head)

end

locale push_fifo = fifo +
  fixes push :: "'m \<Rightarrow> 'c \<Rightarrow> 'c"
  assumes push_back: "ok c \<Longrightarrow> items (push m c) = items c @ [m] \<and> ok (push m c)"
begin

lemma push_all:
  "ok c \<Longrightarrow> items (fold push ms c) = items c @ ms \<and> ok (fold push ms c)"
  by (induction ms arbitrary: c) (simp_all add: push_back)

lemma pushed_then_popped:
  "ok c \<Longrightarrow> items c = [] \<Longrightarrow> fst (pop_n pop (length ms) (fold push ms c)) = ms"
  by (simp add: pop_n_take push_all)

end

locale stealing = push_fifo +
  fixes steal :: "'c \<Rightarrow> 'm list \<times> 'c"
  assumes steal_split: "ok c \<Longrightarrow> fst (steal c) @ items (snd (steal c)) = items c \<and> ok (snd (steal c))"
begin

text \<open>A batch moved from a victim to a thief: what each holds afterwards.\<close>

lemma items_moved:
  assumes "ok c" and "ok v"
  shows "mset (items (fold push (fst (steal v)) c)) + mset (items (snd (steal v)))
     = mset (items c) + mset (items v)"
proof -
  have "mset (items v) = mset (fst (steal v)) + mset (items (snd (steal v)))"
    by (metis assms(2) mset_append steal_split)
  then show ?thesis by (simp add: push_all assms(1))
qed

lemma moved_keeps_order:
  "ok c \<Longrightarrow> items (fold push (fst (steal v)) c) = items c @ fst (steal v)"
  by (simp add: push_all)

end

locale bounded_fifo = fifo +
  fixes offer :: "'m \<Rightarrow> 'c \<Rightarrow> bool \<times> 'c"
    and bound :: "'c \<Rightarrow> nat option"
    and accepting :: "'c \<Rightarrow> bool"
  assumes offer_room:
      "ok c \<Longrightarrow> accepting c \<Longrightarrow>
       (case bound c of None \<Rightarrow> True | Some k \<Rightarrow> length (items c) < k) \<Longrightarrow>
       fst (offer m c) \<and> items (snd (offer m c)) = items c @ [m]
         \<and> bound (snd (offer m c)) = bound c \<and> accepting (snd (offer m c))
         \<and> ok (snd (offer m c))"
    and offer_full:
      "ok c \<Longrightarrow> accepting c \<Longrightarrow> bound c = Some k \<Longrightarrow> k \<le> length (items c) \<Longrightarrow>
       offer m c = (False, c)"
begin

lemma offer_all_bounded:
  assumes "ok c" and "accepting c" and "bound c = Some k" and "length (items c) \<le> k"
  shows "fst (offer_all offer ms c) = take (k - length (items c)) ms
    \<and> items (snd (offer_all offer ms c)) = items c @ take (k - length (items c)) ms
    \<and> bound (snd (offer_all offer ms c)) = Some k
    \<and> accepting (snd (offer_all offer ms c)) \<and> ok (snd (offer_all offer ms c))"
  using assms
proof (induction ms arbitrary: c)
  case Nil
  then show ?case by simp
next
  case (Cons m ms)
  show ?case
  proof (cases "length (items c) < k")
    case True
    then have room: "fst (offer m c) \<and> items (snd (offer m c)) = items c @ [m]
        \<and> bound (snd (offer m c)) = bound c \<and> accepting (snd (offer m c))
        \<and> ok (snd (offer m c))"
      using Cons.prems by (intro offer_room) simp_all
    moreover from True have "k - length (items c) = Suc (k - Suc (length (items c)))"
      by simp
    ultimately show ?thesis
      using Cons.IH [of "snd (offer m c)"] Cons.prems True by (simp add: Let_def)
  next
    case False
    then have "offer m c = (False, c)"
      using Cons.prems by (intro offer_full) auto
    then show ?thesis using Cons.IH [of c] Cons.prems False by (simp add: Let_def)
  qed
qed

lemma offered_then_popped:
  assumes "ok c" and "accepting c" and "bound c = Some k" and "items c = []"
  shows "fst (pop_n pop n (snd (offer_all offer ms c))) = take n (take k ms)"
  using offer_all_bounded [OF assms(1-3), of ms] assms(4) by (simp add: pop_n_take)

end

end
