(* ===== verification/ActorTypes.thy ===== *)
theory ActorTypes
  imports Prelude
begin

text \<open>
  Identifiers and errors: \<open>src/actor/id.rs\<close>, \<open>src/actor/error.rs\<close> and
  \<open>src/error.rs\<close>, with the texts their \<open>Display\<close> implementations print.
\<close>

section \<open>ActorId\<close>

datatype actor_id = ActorId u64

definition actor_id_new :: "u64 \<Rightarrow> actor_id" where
  "actor_id_new n = ActorId n"

primrec as_u64 :: "actor_id \<Rightarrow> u64" where
  "as_u64 (ActorId n) = n"

lemma as_u64_inj: "as_u64 a = as_u64 b \<Longrightarrow> a = b"
  by (cases a; cases b) simp

text \<open>The derived \<open>PartialOrd\<close> and \<open>Ord\<close> compare the wrapped number.\<close>

instantiation actor_id :: linorder
begin

definition less_eq_actor_id :: "actor_id \<Rightarrow> actor_id \<Rightarrow> bool" where
  "less_eq_actor_id a b \<longleftrightarrow> as_u64 a \<le> as_u64 b"

definition less_actor_id :: "actor_id \<Rightarrow> actor_id \<Rightarrow> bool" where
  "less_actor_id a b \<longleftrightarrow> as_u64 a < as_u64 b"

instance
  by standard (auto simp: less_eq_actor_id_def less_actor_id_def intro: as_u64_inj)

end

section \<open>Errors\<close>

datatype actor_error =
    Handler string
  | Cancelled
  | Timeout
  | HandlerPanic string

datatype runtime_error =
    ActorNotFound actor_id
  | MailboxFull actor_id
  | ActorExists actor_id
  | ShutdownTimeout
  | RuntimeStopped

section \<open>Display\<close>

text \<open>Decimal printing of a number, as \<open>{}\<close> formats a \<open>u64\<close>.\<close>

fun show_nat :: "nat \<Rightarrow> string" where
  "show_nat n =
     (if n < 10 then [char_of (48 + n)]
      else show_nat (n div 10) @ [char_of (48 + n mod 10)])"

declare show_nat.simps [simp del]

definition show_actor_id :: "actor_id \<Rightarrow> string" where
  "show_actor_id a = ''Actor('' @ show_nat (unat (as_u64 a)) @ '')''"

fun show_runtime_error :: "runtime_error \<Rightarrow> string" where
  "show_runtime_error (ActorNotFound a) = ''actor not found: '' @ show_actor_id a"
| "show_runtime_error (MailboxFull a) = ''mailbox full for actor: '' @ show_actor_id a"
| "show_runtime_error (ActorExists a) = ''actor already exists: '' @ show_actor_id a"
| "show_runtime_error ShutdownTimeout = ''shutdown timeout''"
| "show_runtime_error RuntimeStopped = ''runtime stopped''"

fun show_actor_error :: "actor_error \<Rightarrow> string" where
  "show_actor_error (Handler m) = ''handler error: '' @ m"
| "show_actor_error Cancelled = ''cancelled''"
| "show_actor_error Timeout = ''timeout''"
| "show_actor_error (HandlerPanic m) = ''panic: '' @ m"

text \<open>Reading the digits back gives the number, so printing is injective.\<close>

definition read_nat :: "string \<Rightarrow> nat" where
  "read_nat s = foldl (\<lambda>n c. 10 * n + (of_char c - 48)) 0 s"

lemma read_nat_snoc: "read_nat (s @ [c]) = 10 * read_nat s + (of_char c - 48)"
  by (simp add: read_nat_def)

lemma of_char_digit: "d < 10 \<Longrightarrow> (of_char (char_of (48 + d)) :: nat) - 48 = d"
  by (simp add: of_char_of)

lemma read_show_nat: "read_nat (show_nat n) = n"
proof (induction n rule: show_nat.induct)
  case (1 n)
  show ?case
  proof (cases "n < 10")
    case True
    then show ?thesis
      by (subst show_nat.simps) (simp add: read_nat_def of_char_digit)
  next
    case False
    with 1 have "read_nat (show_nat (n div 10)) = n div 10" by simp
    with False show ?thesis
      by (subst show_nat.simps) (simp add: read_nat_snoc of_char_digit)
  qed
qed

lemma show_nat_inj: "show_nat m = show_nat n \<Longrightarrow> m = n"
  by (metis read_show_nat)

lemma show_actor_id_inj: "show_actor_id a = show_actor_id b \<Longrightarrow> a = b"
  by (auto simp: show_actor_id_def dest!: show_nat_inj intro!: as_u64_inj
    simp: word_unat_eq_iff)

text \<open>
  The text a runtime error prints determines the error: two errors that print the
  same line are the same error for the same actor.
\<close>

theorem show_runtime_error_inj:
  "show_runtime_error e = show_runtime_error f \<longleftrightarrow> e = f"
  by (cases e; cases f) (auto simp: dest!: show_actor_id_inj)

end
