(* ===== verification/Mailbox.thy ===== *)
theory Mailbox
  imports Fifo ActorTypes
begin

text \<open>
  \<open>src/mailbox/queue.rs\<close>: the bounded message queue with its three backpressure
  policies. First the operations as one thread runs them inside the lock, then the
  queue shared by several threads that wait on its condition variable.
\<close>

section \<open>State and operations\<close>

datatype backpressure_policy = Reject | Block | DropLowPriority

record mailbox_config =
  capacity :: nat
  backpressure :: backpressure_policy

definition mailbox_config_default :: mailbox_config where
  "mailbox_config_default = \<lparr>capacity = 1000, backpressure = Reject\<rparr>"

record 'm mailbox =
  mb_queue :: "'m list"
  mb_config :: mailbox_config
  mb_poisoned :: bool

definition mailbox_new :: "mailbox_config \<Rightarrow> 'm mailbox" where
  "mailbox_new cfg = \<lparr>mb_queue = [], mb_config = cfg, mb_poisoned = False\<rparr>"

text \<open>
  One pass under the lock either finishes with a result or releases the lock and
  sleeps on the condition variable.
\<close>

datatype 'r attempt = Done 'r | Waits

definition mailbox_send ::
  "'m \<Rightarrow> 'm mailbox \<Rightarrow> (unit, runtime_error) result attempt \<times> 'm mailbox" where
  "mailbox_send m mb =
     (if mb_poisoned mb then (Done (Inl RuntimeStopped), mb)
      else if length (mb_queue mb) \<ge> capacity (mb_config mb) then
        (case backpressure (mb_config mb) of
           Reject \<Rightarrow> (Done (Inl (MailboxFull (ActorId 0))), mb)
         | Block \<Rightarrow> (Waits, mb)
         | DropLowPriority \<Rightarrow> (Done (Inr ()), mb\<lparr>mb_queue := tl (mb_queue mb) @ [m]\<rparr>))
      else (Done (Inr ()), mb\<lparr>mb_queue := mb_queue mb @ [m]\<rparr>))"

definition mailbox_receive :: "'m mailbox \<Rightarrow> 'm option attempt \<times> 'm mailbox" where
  "mailbox_receive mb =
     (if mb_poisoned mb then (Done None, mb)
      else case mb_queue mb of
        [] \<Rightarrow> (Waits, mb)
      | m # q \<Rightarrow> (Done (Some m), mb\<lparr>mb_queue := q\<rparr>))"

definition mailbox_try_receive :: "'m mailbox \<Rightarrow> 'm option \<times> 'm mailbox" where
  "mailbox_try_receive mb =
     (if mb_poisoned mb then (None, mb)
      else case mb_queue mb of
        [] \<Rightarrow> (None, mb)
      | m # q \<Rightarrow> (Some m, mb\<lparr>mb_queue := q\<rparr>))"

definition mailbox_len :: "'m mailbox \<Rightarrow> nat" where
  "mailbox_len mb = (if mb_poisoned mb then 0 else length (mb_queue mb))"

definition mailbox_is_empty :: "'m mailbox \<Rightarrow> bool" where
  "mailbox_is_empty mb = (mb_poisoned mb \<or> mb_queue mb = [])"

lemmas mailbox_defs = mailbox_new_def mailbox_send_def mailbox_receive_def
  mailbox_try_receive_def mailbox_len_def mailbox_is_empty_def

section \<open>The mailbox as a queue\<close>

text \<open>
  With the rejecting policy the mailbox is a bounded first-in first-out queue: a send
  that returns is an offer that was accepted exactly when it returned \<open>Ok\<close>.
\<close>

definition reject_offer :: "'m \<Rightarrow> 'm mailbox \<Rightarrow> bool \<times> 'm mailbox" where
  "reject_offer m mb =
     (case mailbox_send m mb of (r, mb') \<Rightarrow> (r = Done (Inr ()), mb'))"

definition rejecting :: "'m mailbox \<Rightarrow> bool" where
  "rejecting mb \<longleftrightarrow> \<not> mb_poisoned mb \<and> backpressure (mb_config mb) = Reject"

definition unpoisoned :: "'m mailbox \<Rightarrow> bool" where
  "unpoisoned mb \<longleftrightarrow> \<not> mb_poisoned mb"

interpretation mailbox_queue: bounded_fifo unpoisoned mb_queue mailbox_try_receive
  reject_offer "\<lambda>mb. Some (capacity (mb_config mb))" rejecting
  by unfold_locales
     (auto simp: unpoisoned_def mailbox_try_receive_def reject_offer_def rejecting_def
        mailbox_send_def)

text \<open>
  With the rejecting policy, whatever is sent to a new mailbox and however often
  it is read afterwards, the receiver gets the first \<open>capacity\<close> messages in the order
  they were sent; the rest were refused.
\<close>

theorem reject_mailbox_fifo:
  assumes "backpressure cfg = Reject"
  shows "fst (pop_n mailbox_try_receive n (snd (offer_all reject_offer ms (mailbox_new cfg))))
    = take n (take (capacity cfg) ms)"
  using assms
  by (intro mailbox_queue.offered_then_popped)
     (simp_all add: rejecting_def unpoisoned_def mailbox_new_def)

theorem reject_mailbox_fifo_witness:
  "fst (pop_n mailbox_try_receive 5
      (snd (offer_all reject_offer [10, 20, 30 :: int]
        (mailbox_new \<lparr>capacity = 2, backpressure = Reject\<rparr>)))) = [10, 20]"
  by (subst reject_mailbox_fifo) simp_all

text \<open>
  A send never leaves more than \<open>capacity\<close> messages behind, whatever the policy,
  and never changes the configuration, as long as the capacity is at least one.
\<close>

theorem mailbox_send_bounded:
  assumes "mailbox_send m mb = (r, mb')"
    and "length (mb_queue mb) \<le> capacity (mb_config mb)"
    and "0 < capacity (mb_config mb)"
  shows "length (mb_queue mb') \<le> capacity (mb_config mb) \<and> mb_config mb' = mb_config mb"
  using assms
  by (auto simp: mailbox_send_def split: if_splits backpressure_policy.splits)

theorem mailbox_send_bounded_witness:
  "length (mb_queue (snd (mailbox_send (7::int)
      \<lparr>mb_queue = [5], mb_config = \<lparr>capacity = 1, backpressure = DropLowPriority\<rparr>,
       mb_poisoned = False\<rparr>))) \<le> 1"
proof -
  let ?mb = "\<lparr>mb_queue = [5::int],
    mb_config = \<lparr>capacity = 1, backpressure = DropLowPriority\<rparr>, mb_poisoned = False\<rparr>"
  obtain r mb' where "mailbox_send 7 ?mb = (r, mb')" by fastforce
  with mailbox_send_bounded [OF this] show ?thesis by simp
qed

end
