(* ===== verification/MailboxThreads.thy ===== *)
theory MailboxThreads
  imports Mailbox
begin

text \<open>
  The mailbox of \<open>src/mailbox/queue.rs\<close> shared by threads. A thread runs one pass
  of \<open>send\<close>, \<open>receive\<close> or \<open>try_receive\<close> at a time, inside the lock; a pass that
  cannot finish puts the thread to sleep on the one condition variable that senders
  and receivers share. The only \<open>notify_one\<close> of the file is the one after
  \<open>push_back\<close> in \<open>send\<close>.
\<close>

section \<open>Threads and steps\<close>

datatype 'm phase =
    Ready
  | SendWaiting 'm   \<comment> \<open>asleep in \<open>send\<close>, waiting for space\<close>
  | SendWoken 'm     \<comment> \<open>notified, about to test the queue length again\<close>
  | RecvWaiting      \<comment> \<open>asleep in \<open>receive\<close>\<close>
  | RecvWoken

fun asleep :: "'m phase \<Rightarrow> bool" where
  "asleep (SendWaiting m) = True"
| "asleep RecvWaiting = True"
| "asleep _ = False"

fun woken :: "'m phase \<Rightarrow> 'm phase" where
  "woken (SendWaiting m) = SendWoken m"
| "woken RecvWaiting = RecvWoken"
| "woken p = p"

text \<open>The state, with the history of the messages pushed and of those taken out.\<close>

record 'm shared_mailbox =
  sm_box :: "'m mailbox"
  sm_phase :: "nat \<Rightarrow> 'm phase"
  sm_pushed :: "'m list"
  sm_taken :: "'m list"

definition sm_init :: "'m shared_mailbox \<Rightarrow> bool" where
  "sm_init s \<longleftrightarrow> (\<exists>cfg. sm_box s = mailbox_new cfg) \<and> sm_phase s = (\<lambda>_. Ready)
     \<and> sm_pushed s = [] \<and> sm_taken s = []"

text \<open>\<open>notify_one\<close> wakes one sleeping thread if there is one, any of them.\<close>

inductive notify_one :: "(nat \<Rightarrow> 'm phase) \<Rightarrow> (nat \<Rightarrow> 'm phase) \<Rightarrow> bool" where
  nobody: "\<forall>u. \<not> asleep (ph u) \<Longrightarrow> notify_one ph ph"
| wakes: "asleep (ph u) \<Longrightarrow> notify_one ph (ph(u := woken (ph u)))"

definition wants_send :: "'m phase \<Rightarrow> 'm \<Rightarrow> bool" where
  "wants_send p m \<longleftrightarrow> p = Ready \<or> p = SendWoken m"

definition wants_receive :: "'m phase \<Rightarrow> bool" where
  "wants_receive p \<longleftrightarrow> p = Ready \<or> p = RecvWoken"

text \<open>
  A woken sender that finds space goes on to \<open>push_back\<close> exactly as a fresh one does,
  so both are a pass of \<open>mailbox_send\<close>; a woken receiver likewise.
\<close>

inductive sm_step :: "'m shared_mailbox \<Rightarrow> 'm shared_mailbox \<Rightarrow> bool" where
  send_ok: "wants_send (sm_phase s t) m \<Longrightarrow>
     mailbox_send m (sm_box s) = (Done (Inr ()), mb) \<Longrightarrow>
     notify_one ((sm_phase s)(t := Ready)) ph \<Longrightarrow>
     sm_step s (s\<lparr>sm_box := mb, sm_phase := ph, sm_pushed := sm_pushed s @ [m]\<rparr>)"
| send_err: "wants_send (sm_phase s t) m \<Longrightarrow>
     mailbox_send m (sm_box s) = (Done (Inl e), mb) \<Longrightarrow>
     sm_step s (s\<lparr>sm_box := mb, sm_phase := (sm_phase s)(t := Ready)\<rparr>)"
| send_sleep: "wants_send (sm_phase s t) m \<Longrightarrow>
     mailbox_send m (sm_box s) = (Waits, mb) \<Longrightarrow>
     sm_step s (s\<lparr>sm_box := mb, sm_phase := (sm_phase s)(t := SendWaiting m)\<rparr>)"
| recv_some: "wants_receive (sm_phase s t) \<Longrightarrow>
     mailbox_receive (sm_box s) = (Done (Some m), mb) \<Longrightarrow>
     sm_step s (s\<lparr>sm_box := mb, sm_phase := (sm_phase s)(t := Ready),
                  sm_taken := sm_taken s @ [m]\<rparr>)"
| recv_none: "wants_receive (sm_phase s t) \<Longrightarrow>
     mailbox_receive (sm_box s) = (Done None, mb) \<Longrightarrow>
     sm_step s (s\<lparr>sm_box := mb, sm_phase := (sm_phase s)(t := Ready)\<rparr>)"
| recv_sleep: "wants_receive (sm_phase s t) \<Longrightarrow>
     mailbox_receive (sm_box s) = (Waits, mb) \<Longrightarrow>
     sm_step s (s\<lparr>sm_box := mb, sm_phase := (sm_phase s)(t := RecvWaiting)\<rparr>)"
| try_some: "sm_phase s t = Ready \<Longrightarrow>
     mailbox_try_receive (sm_box s) = (Some m, mb) \<Longrightarrow>
     sm_step s (s\<lparr>sm_box := mb, sm_taken := sm_taken s @ [m]\<rparr>)"
| try_none: "sm_phase s t = Ready \<Longrightarrow>
     mailbox_try_receive (sm_box s) = (None, mb) \<Longrightarrow>
     sm_step s (s\<lparr>sm_box := mb\<rparr>)"

inductive_cases notify_oneE: "notify_one ph ph'"
inductive_cases sm_stepE: "sm_step s t"

text \<open>What one pass of each operation does to the queue.\<close>

lemma send_ok_cases:
  assumes "mailbox_send m mb = (Done (Inr ()), mb')"
  shows "\<not> mb_poisoned mb \<and> mb_config mb' = mb_config mb \<and> mb_poisoned mb' = mb_poisoned mb
    \<and> (length (mb_queue mb) < capacity (mb_config mb) \<and> mb_queue mb' = mb_queue mb @ [m]
       \<or> capacity (mb_config mb) \<le> length (mb_queue mb)
         \<and> backpressure (mb_config mb) = DropLowPriority
         \<and> mb_queue mb' = tl (mb_queue mb) @ [m])"
  using assms by (auto simp: mailbox_send_def split: if_splits backpressure_policy.splits)

lemma send_other_same:
  "mailbox_send m mb = (Done (Inl e), mb') \<Longrightarrow> mb' = mb"
  "mailbox_send m mb = (Waits, mb') \<Longrightarrow> mb' = mb"
  by (auto simp: mailbox_send_def split: if_splits backpressure_policy.splits)

lemma receive_cases:
  "mailbox_receive mb = (Done (Some m), mb') \<Longrightarrow>
     mb_queue mb = m # mb_queue mb' \<and> mb_config mb' = mb_config mb"
  "mailbox_receive mb = (Done None, mb') \<Longrightarrow> mb' = mb"
  "mailbox_receive mb = (Waits, mb') \<Longrightarrow> mb' = mb"
  by (auto simp: mailbox_receive_def split: if_splits list.splits)

lemma try_receive_cases:
  "mailbox_try_receive mb = (Some m, mb') \<Longrightarrow>
     mb_queue mb = m # mb_queue mb' \<and> mb_config mb' = mb_config mb"
  "mailbox_try_receive mb = (None, mb') \<Longrightarrow> mb' = mb"
  by (auto simp: mailbox_try_receive_def split: if_splits list.splits)

lemmas pass_cases = send_other_same receive_cases try_receive_cases

section \<open>Order and bounds under every interleaving\<close>

text \<open>
  Without the dropping policy, the messages taken out and those still queued are
  together the messages pushed, in push order; and the queue stays within a capacity
  of at least one.
\<close>

definition sm_ordered :: "'m shared_mailbox \<Rightarrow> bool" where
  "sm_ordered s \<longleftrightarrow> backpressure (mb_config (sm_box s)) \<noteq> DropLowPriority \<longrightarrow>
     sm_taken s @ mb_queue (sm_box s) = sm_pushed s"

definition sm_bounded :: "'m shared_mailbox \<Rightarrow> bool" where
  "sm_bounded s \<longleftrightarrow>
     length (mb_queue (sm_box s)) \<le> max 1 (capacity (mb_config (sm_box s)))"

lemma sm_ordered_init: "sm_init s \<Longrightarrow> sm_ordered s"
  by (auto simp: sm_init_def sm_ordered_def mailbox_new_def)

lemma sm_bounded_init: "sm_init s \<Longrightarrow> sm_bounded s"
  by (auto simp: sm_init_def sm_bounded_def mailbox_new_def)

lemma sm_ordered_step: "sm_ordered s \<Longrightarrow> sm_step s t \<Longrightarrow> sm_ordered t"
  by (erule sm_stepE)
     (auto simp: sm_ordered_def dest!: send_ok_cases dest: pass_cases)

lemma sm_bounded_step: "sm_bounded s \<Longrightarrow> sm_step s t \<Longrightarrow> sm_bounded t"
  by (erule sm_stepE)
     (auto simp: sm_bounded_def dest!: send_ok_cases dest: pass_cases)

interpretation sm_order: invariant_of sm_init sm_step sm_ordered
  by unfold_locales (erule sm_ordered_init, erule (1) sm_ordered_step)

interpretation sm_bound: invariant_of sm_init sm_step sm_bounded
  by unfold_locales (erule sm_bounded_init, erule (1) sm_bounded_step)


section \<open>Who can wake a sleeping sender\<close>

lemma notify_other:
  "notify_one ph ph' \<Longrightarrow> \<not> asleep (ph u) \<Longrightarrow> ph' u = ph u"
  by (auto elim!: notify_oneE)

text \<open>A step that pushes nothing leaves every sleeping sender asleep.\<close>

lemma quiet_step_keeps_sleeper:
  assumes "sm_step s t" and "sm_pushed t = sm_pushed s"
    and "sm_phase s u = SendWaiting m"
  shows "sm_phase t u = SendWaiting m"
  using assms
  by (cases rule: sm_step.cases) (auto simp: wants_send_def wants_receive_def)

text \<open>The steps of the receiving side, and of senders that are turned away.\<close>

definition quiet_step :: "'m shared_mailbox \<Rightarrow> 'm shared_mailbox \<Rightarrow> bool" where
  "quiet_step s t \<longleftrightarrow> sm_step s t \<and> sm_pushed t = sm_pushed s"

lemma quiet_run_keeps_sleeper:
  "quiet_step\<^sup>*\<^sup>* s t \<Longrightarrow> sm_phase s u = SendWaiting m \<Longrightarrow> sm_phase t u = SendWaiting m"
  by (induction rule: rtranclp_induct)
     (auto simp: quiet_step_def dest: quiet_step_keeps_sleeper)

text \<open>
  The run that strands a sender: capacity one, blocking policy. Thread 0 fills the
  mailbox, thread 1 goes to sleep for space, thread 2 empties the mailbox.
\<close>

definition strand_cfg :: mailbox_config where
  "strand_cfg = \<lparr>capacity = 1, backpressure = Block\<rparr>"

definition stranded :: "nat shared_mailbox" where
  "stranded = \<lparr>sm_box = mailbox_new strand_cfg, sm_phase = (\<lambda>_. Ready)(1 := SendWaiting 8),
     sm_pushed = [7], sm_taken = [7]\<rparr>"

lemma stranded_reachable: "reachable sm_init sm_step stranded"
proof -
  let ?s0 = "\<lparr>sm_box = mailbox_new strand_cfg, sm_phase = (\<lambda>_. Ready),
    sm_pushed = [], sm_taken = []\<rparr> :: nat shared_mailbox"
  let ?full = "(mailbox_new strand_cfg)\<lparr>mb_queue := [7]\<rparr>"
  let ?s1 = "?s0\<lparr>sm_box := ?full, sm_phase := (\<lambda>_. Ready), sm_pushed := [] @ [7]\<rparr>"
  let ?s2 = "?s1\<lparr>sm_box := ?full, sm_phase := (\<lambda>_. Ready)(1 := SendWaiting 8)\<rparr>"
  have r0: "reachable sm_init sm_step ?s0"
    by (rule reach_init) (auto simp: sm_init_def)
  have s1: "sm_step ?s0 ?s1"
    using send_ok [of ?s0 0 7 ?full "\<lambda>_. Ready"] nobody [of "\<lambda>_::nat. Ready :: nat phase"]
    by (simp add: wants_send_def mailbox_defs strand_cfg_def fun_upd_idem)
  have s2: "sm_step ?s1 ?s2"
    using send_sleep [of ?s1 1 8 ?full] by (simp add: wants_send_def mailbox_defs strand_cfg_def)
  have s3: "sm_step ?s2 stranded"
    using try_some [of ?s2 2 7 "mailbox_new strand_cfg"]
    by (simp add: mailbox_defs strand_cfg_def stranded_def)
  show ?thesis by (rule reach_step [OF reach_step [OF reach_step [OF r0 s1] s2] s3])
qed




end
