(* ===== verification/Channel.thy ===== *)
theory Channel
  imports Fifo
begin

text \<open>
  The channels of the \<open>crossbeam_channel\<close> crate, which is not part of the repository:
  a parameter of every definition that uses one. \<open>chan_api\<close> lists the operations the
  runtime calls; the locale \<open>chan\<close> states what their documentation promises, through
  an observation of a channel's messages, bound and number of handles. Zero-capacity
  (rendezvous) channels are outside the laws. A blocking operation returns \<open>None\<close> in a
  state in which its caller has to wait.
\<close>

section \<open>Operations and observation\<close>

datatype try_send_error = SendFull | SendDisconnected
datatype try_recv_error = RecvEmpty | RecvDisconnected
datatype recv_timeout_error = RecvTimedOut | RecvTimeoutDisconnected

record ('c, 'm) chan_api =
  ch_bounded :: "nat \<Rightarrow> 'c"
  ch_unbounded :: 'c
  ch_try_send :: "'m \<Rightarrow> 'c \<Rightarrow> ('c, try_send_error) result"
  ch_send :: "'m \<Rightarrow> 'c \<Rightarrow> ('c, unit) result option"
  ch_try_recv :: "'c \<Rightarrow> ('m \<times> 'c, try_recv_error) result"
  ch_recv :: "'c \<Rightarrow> ('m \<times> 'c, unit) result option"
  ch_recv_timeout :: "'c \<Rightarrow> ('m \<times> 'c, recv_timeout_error) result"
    \<comment> \<open>the outcome when nothing is sent while the caller waits\<close>
  ch_clone_sender :: "'c \<Rightarrow> 'c"
  ch_drop_sender :: "'c \<Rightarrow> 'c"
  ch_clone_receiver :: "'c \<Rightarrow> 'c"
  ch_drop_receiver :: "'c \<Rightarrow> 'c"

record 'm chan_view =
  cv_queue :: "'m list"
  cv_bound :: "nat option"
  cv_senders :: nat
  cv_receivers :: nat

definition cv_full :: "'m chan_view \<Rightarrow> bool" where
  "cv_full v \<longleftrightarrow> (case cv_bound v of None \<Rightarrow> False | Some k \<Rightarrow> k \<le> length (cv_queue v))"

locale chan =
  fixes api :: "('c, 'm) chan_api"
    and view :: "'c \<Rightarrow> 'm chan_view"
  assumes bounded_view: "0 < k \<Longrightarrow> view (ch_bounded api k) =
      \<lparr>cv_queue = [], cv_bound = Some k, cv_senders = 1, cv_receivers = 1\<rparr>"
    and unbounded_view: "view (ch_unbounded api) =
      \<lparr>cv_queue = [], cv_bound = None, cv_senders = 1, cv_receivers = 1\<rparr>"
    and try_send_accepts: "0 < cv_receivers (view c) \<Longrightarrow> \<not> cv_full (view c) \<Longrightarrow>
      \<exists>c'. ch_try_send api m c = Inr c'
        \<and> view c' = (view c)\<lparr>cv_queue := cv_queue (view c) @ [m]\<rparr>"
    and try_send_full: "0 < cv_receivers (view c) \<Longrightarrow> cv_full (view c) \<Longrightarrow>
      cv_bound (view c) \<noteq> Some 0 \<Longrightarrow> ch_try_send api m c = Inl SendFull"
    and try_send_gone: "cv_receivers (view c) = 0 \<Longrightarrow>
      ch_try_send api m c = Inl SendDisconnected"
    and send_accepts: "0 < cv_receivers (view c) \<Longrightarrow> \<not> cv_full (view c) \<Longrightarrow>
      \<exists>c'. ch_send api m c = Some (Inr c')
        \<and> view c' = (view c)\<lparr>cv_queue := cv_queue (view c) @ [m]\<rparr>"
    and send_waits: "0 < cv_receivers (view c) \<Longrightarrow> cv_full (view c) \<Longrightarrow>
      cv_bound (view c) \<noteq> Some 0 \<Longrightarrow> ch_send api m c = None"
    and send_gone: "cv_receivers (view c) = 0 \<Longrightarrow> ch_send api m c = Some (Inl ())"
    and try_recv_takes: "cv_queue (view c) = m # ms \<Longrightarrow>
      \<exists>c'. ch_try_recv api c = Inr (m, c') \<and> view c' = (view c)\<lparr>cv_queue := ms\<rparr>"
    and try_recv_empty: "cv_queue (view c) = [] \<Longrightarrow> cv_bound (view c) \<noteq> Some 0 \<Longrightarrow>
      ch_try_recv api c = Inl (if cv_senders (view c) = 0 then RecvDisconnected else RecvEmpty)"
    and recv_takes: "cv_queue (view c) = m # ms \<Longrightarrow>
      \<exists>c'. ch_recv api c = Some (Inr (m, c')) \<and> view c' = (view c)\<lparr>cv_queue := ms\<rparr>"
    and recv_empty: "cv_queue (view c) = [] \<Longrightarrow> cv_bound (view c) \<noteq> Some 0 \<Longrightarrow>
      ch_recv api c = (if cv_senders (view c) = 0 then Some (Inl ()) else None)"
    and recv_timeout_takes: "cv_queue (view c) = m # ms \<Longrightarrow>
      \<exists>c'. ch_recv_timeout api c = Inr (m, c') \<and> view c' = (view c)\<lparr>cv_queue := ms\<rparr>"
    and recv_timeout_empty: "cv_queue (view c) = [] \<Longrightarrow> cv_bound (view c) \<noteq> Some 0 \<Longrightarrow>
      ch_recv_timeout api c =
        Inl (if cv_senders (view c) = 0 then RecvTimeoutDisconnected else RecvTimedOut)"
    and clone_sender_view: "view (ch_clone_sender api c) =
      (view c)\<lparr>cv_senders := Suc (cv_senders (view c))\<rparr>"
    and drop_sender_view: "view (ch_drop_sender api c) =
      (view c)\<lparr>cv_senders := cv_senders (view c) - 1\<rparr>"
    and clone_receiver_view: "view (ch_clone_receiver api c) =
      (view c)\<lparr>cv_receivers := Suc (cv_receivers (view c))\<rparr>"
    and drop_receiver_view: "view (ch_drop_receiver api c) =
      (view c)\<lparr>cv_receivers := cv_receivers (view c) - 1,
               cv_queue := (if cv_receivers (view c) \<le> 1 then [] else cv_queue (view c))\<rparr>"

section \<open>The documented behaviour is a bounded queue\<close>

text \<open>Receiving and sending without blocking, in the form of the queue contracts.\<close>

definition chan_pop :: "('c, 'm) chan_api \<Rightarrow> 'c \<Rightarrow> 'm option \<times> 'c" where
  "chan_pop api c = (case ch_try_recv api c of Inl e \<Rightarrow> (None, c) | Inr (m, c') \<Rightarrow> (Some m, c'))"

definition chan_offer :: "('c, 'm) chan_api \<Rightarrow> 'm \<Rightarrow> 'c \<Rightarrow> bool \<times> 'c" where
  "chan_offer api m c = (case ch_try_send api m c of Inl e \<Rightarrow> (False, c) | Inr c' \<Rightarrow> (True, c'))"

definition buffered :: "'m chan_view \<Rightarrow> bool" where
  "buffered v \<longleftrightarrow> cv_bound v \<noteq> Some 0"

sublocale chan \<subseteq> bounded_fifo "\<lambda>c. buffered (view c)" "\<lambda>c. cv_queue (view c)" "chan_pop api"
  "chan_offer api" "\<lambda>c. cv_bound (view c)" "\<lambda>c. 0 < cv_receivers (view c)"
proof
  fix c
  assume "buffered (view c)" and "cv_queue (view c) = []"
  then show "chan_pop api c = (None, c)"
    using try_recv_empty [of c] by (simp add: chan_pop_def buffered_def)
next
  fix c m ms
  assume "buffered (view c)" and "cv_queue (view c) = m # ms"
  then show "fst (chan_pop api c) = Some m \<and> cv_queue (view (snd (chan_pop api c))) = ms
      \<and> buffered (view (snd (chan_pop api c)))"
    using try_recv_takes [of c m ms] by (auto simp: chan_pop_def buffered_def)
next
  fix c m
  assume "buffered (view c)" and "0 < cv_receivers (view c)"
    and "case cv_bound (view c) of None \<Rightarrow> True | Some k \<Rightarrow> length (cv_queue (view c)) < k"
  then have "\<exists>c'. ch_try_send api m c = Inr c'
      \<and> view c' = (view c)\<lparr>cv_queue := cv_queue (view c) @ [m]\<rparr>"
    by (intro try_send_accepts) (auto simp: cv_full_def split: option.splits)
  then show "fst (chan_offer api m c)
      \<and> cv_queue (view (snd (chan_offer api m c))) = cv_queue (view c) @ [m]
      \<and> cv_bound (view (snd (chan_offer api m c))) = cv_bound (view c)
      \<and> 0 < cv_receivers (view (snd (chan_offer api m c)))
      \<and> buffered (view (snd (chan_offer api m c)))"
    using \<open>buffered (view c)\<close> \<open>0 < cv_receivers (view c)\<close>
    by (auto simp: chan_offer_def buffered_def)
next
  fix c k m
  assume "buffered (view c)" and "0 < cv_receivers (view c)"
    and "cv_bound (view c) = Some k" and "k \<le> length (cv_queue (view c))"
  then show "chan_offer api m c = (False, c)"
    using try_send_full [of c m] by (simp add: chan_offer_def cv_full_def buffered_def)
qed

section \<open>A channel by its documentation\<close>

text \<open>
  The observation itself, with the documented effect of each operation: it shows that
  the laws can hold together, and evaluates the examples.
\<close>

definition ref_pop :: "'m chan_view \<Rightarrow> 'm \<times> 'm chan_view" where
  "ref_pop v = (hd (cv_queue v), v\<lparr>cv_queue := tl (cv_queue v)\<rparr>)"

definition ref_push :: "'m \<Rightarrow> 'm chan_view \<Rightarrow> 'm chan_view" where
  "ref_push m v = v\<lparr>cv_queue := cv_queue v @ [m]\<rparr>"

definition ref_api :: "('m chan_view, 'm) chan_api" where
  "ref_api =
     \<lparr>ch_bounded = (\<lambda>k. \<lparr>cv_queue = [], cv_bound = Some k, cv_senders = 1, cv_receivers = 1\<rparr>),
      ch_unbounded = \<lparr>cv_queue = [], cv_bound = None, cv_senders = 1, cv_receivers = 1\<rparr>,
      ch_try_send = (\<lambda>m v. if cv_receivers v = 0 then Inl SendDisconnected
        else if cv_full v then Inl SendFull else Inr (ref_push m v)),
      ch_send = (\<lambda>m v. if cv_receivers v = 0 then Some (Inl ())
        else if cv_full v then None else Some (Inr (ref_push m v))),
      ch_try_recv = (\<lambda>v. if cv_queue v \<noteq> [] then Inr (ref_pop v)
        else Inl (if cv_senders v = 0 then RecvDisconnected else RecvEmpty)),
      ch_recv = (\<lambda>v. if cv_queue v \<noteq> [] then Some (Inr (ref_pop v))
        else if cv_senders v = 0 then Some (Inl ()) else None),
      ch_recv_timeout = (\<lambda>v. if cv_queue v \<noteq> [] then Inr (ref_pop v)
        else Inl (if cv_senders v = 0 then RecvTimeoutDisconnected else RecvTimedOut)),
      ch_clone_sender = (\<lambda>v. v\<lparr>cv_senders := Suc (cv_senders v)\<rparr>),
      ch_drop_sender = (\<lambda>v. v\<lparr>cv_senders := cv_senders v - 1\<rparr>),
      ch_clone_receiver = (\<lambda>v. v\<lparr>cv_receivers := Suc (cv_receivers v)\<rparr>),
      ch_drop_receiver = (\<lambda>v. v\<lparr>cv_receivers := cv_receivers v - 1,
        cv_queue := (if cv_receivers v \<le> 1 then [] else cv_queue v)\<rparr>)\<rparr>"

lemmas ref_defs = ref_api_def ref_push_def ref_pop_def cv_full_def

lemma chan_ref: "chan ref_api (\<lambda>v. v)"
  by unfold_locales (auto simp: ref_defs)

interpretation ref: chan ref_api "\<lambda>v. v"
  by (rule chan_ref)

section \<open>Shared channels\<close>

text \<open>
  A \<open>Sender\<close> or \<open>Receiver\<close> is a handle: clones of it, and the two ends, name the same
  channel. The channels in existence are a store from references to channel states.
\<close>

type_synonym chan_ref = nat

record 'c store =
  st_map :: "chan_ref \<rightharpoonup> 'c"
  st_next :: chan_ref

definition store_empty :: "'c store" where
  "store_empty = \<lparr>st_map = Map.empty, st_next = 0\<rparr>"

definition store_new :: "'c \<Rightarrow> 'c store \<Rightarrow> chan_ref \<times> 'c store" where
  "store_new c st =
     (st_next st, st\<lparr>st_map := (st_map st)(st_next st \<mapsto> c), st_next := Suc (st_next st)\<rparr>)"

definition store_set :: "chan_ref \<Rightarrow> 'c \<Rightarrow> 'c store \<Rightarrow> 'c store" where
  "store_set r c st = st\<lparr>st_map := (st_map st)(r \<mapsto> c)\<rparr>"

text \<open>Every reference in use is older than the next one to be handed out.\<close>

definition store_ok :: "'c store \<Rightarrow> bool" where
  "store_ok st \<longleftrightarrow> (\<forall>r \<in> dom (st_map st). r < st_next st)"

lemma store_ok_empty [simp]: "store_ok store_empty"
  by (simp add: store_ok_def store_empty_def)

lemma store_ok_new: "store_ok st \<Longrightarrow> store_ok (snd (store_new c st))"
  by (auto simp: store_ok_def store_new_def dom_def)

lemma store_ok_set: "store_ok st \<Longrightarrow> st_map st r \<noteq> None \<Longrightarrow> store_ok (store_set r c st)"
  by (auto simp: store_ok_def store_set_def)

lemma store_new_map [simp]:
  "st_map (snd (store_new c st)) = (st_map st)(fst (store_new c st) \<mapsto> c)"
  by (simp add: store_new_def)

lemma store_set_map [simp]: "st_map (store_set r c st) = (st_map st)(r \<mapsto> c)"
  "st_next (store_set r c st) = st_next st"
  by (simp_all add: store_set_def)

lemma store_new_fresh: "store_ok st \<Longrightarrow> st_map st (fst (store_new c st)) = None"
  by (auto simp: store_ok_def store_new_def dom_def)

text \<open>Changing one cell in place.\<close>

definition store_upd :: "chan_ref \<Rightarrow> ('c \<Rightarrow> 'c) \<Rightarrow> 'c store \<Rightarrow> 'c store" where
  "store_upd r f st = (case st_map st r of None \<Rightarrow> st | Some c \<Rightarrow> store_set r (f c) st)"

lemma store_upd_map [simp]:
  "st_map (store_upd r f st) = (st_map st)(r := map_option f (st_map st r))"
  "st_next (store_upd r f st) = st_next st"
  by (auto simp: store_upd_def split: option.splits)

lemma store_ok_upd: "store_ok st \<Longrightarrow> store_ok (store_upd r f st)"
  by (auto simp: store_ok_def store_upd_def split: option.splits)

end
