(* ===== verification/Resource.thy ===== *)
theory Resource
  imports ActorTypes Channel
begin

text \<open>
  \<open>src/resource/capability.rs\<close> and \<open>src/resource/registry.rs\<close>: capabilities, which share
  a resource handle through an \<open>Arc\<close>, and the registry that keeps one capability per
  handle type. The handle types are user code (\<open>src/resource/handle.rs\<close> is the trait);
  \<open>TypeId::of::<H>()\<close> is a \<open>type_id\<close>, and \<open>cap_type\<close> gives the \<open>TypeId\<close> of
  \<open>Capability<H>\<close> for the one of \<open>H\<close>.
\<close>

section \<open>Capabilities\<close>

text \<open>
  The handles live in a store; a cell is the handle with the number of \<open>Arc\<close>s that point
  to it. Dropping the last one drops the handle.
\<close>

type_synonym arc_ref = chan_ref
type_synonym 'h heap = "('h \<times> nat) store"

record capability =
  cap_owner :: actor_id
  cap_handle :: arc_ref

definition arc_clone :: "arc_ref \<Rightarrow> 'h heap \<Rightarrow> 'h heap" where
  "arc_clone r h = store_upd r (\<lambda>(v, n). (v, Suc n)) h"

definition arc_drop :: "arc_ref \<Rightarrow> 'h heap \<Rightarrow> 'h heap" where
  "arc_drop r h =
     (case st_map h r of
        None \<Rightarrow> h
      | Some (v, n) \<Rightarrow>
          if n \<le> 1 then h\<lparr>st_map := (st_map h)(r := None)\<rparr> else store_set r (v, n - 1) h)"

definition capability_new :: "actor_id \<Rightarrow> 'h \<Rightarrow> 'h heap \<Rightarrow> capability \<times> 'h heap" where
  "capability_new owner v h =
     (let (r, h') = store_new (v, 1) h in (\<lparr>cap_owner = owner, cap_handle = r\<rparr>, h'))"

definition capability_owner :: "capability \<Rightarrow> actor_id" where
  "capability_owner c = cap_owner c"

definition capability_handle :: "capability \<Rightarrow> 'h heap \<Rightarrow> 'h option" where
  "capability_handle c h = map_option fst (st_map h (cap_handle c))"

definition capability_into_handle :: "capability \<Rightarrow> arc_ref" where
  "capability_into_handle c = cap_handle c"

definition capability_clone :: "capability \<Rightarrow> 'h heap \<Rightarrow> capability \<times> 'h heap" where
  "capability_clone c h = (c, arc_clone (cap_handle c) h)"

section \<open>The registry\<close>

record registry =
  rg_resources :: "type_id \<rightharpoonup> capability any"
  rg_poisoned :: bool

definition registry_new :: registry where
  "registry_new = \<lparr>rg_resources = Map.empty, rg_poisoned = False\<rparr>"

text \<open>
  The operations take the lock first and panic when it is poisoned. \<open>register\<close> drops the
  capability it replaces; \<open>get\<close> clones; \<open>remove\<close> moves the capability out.
\<close>

definition drop_replaced :: "capability any option \<Rightarrow> 'h heap \<Rightarrow> 'h heap" where
  "drop_replaced old h = (case old of None \<Rightarrow> h | Some a \<Rightarrow> arc_drop (cap_handle (any_val a)) h)"

definition register ::
  "(type_id \<Rightarrow> type_id) \<Rightarrow> type_id \<Rightarrow> capability \<Rightarrow> registry \<Rightarrow> 'h heap
    \<Rightarrow> unit rust \<times> registry \<times> 'h heap" where
  "register cap_type t c g h =
     (if rg_poisoned g then (Panicked, g, arc_drop (cap_handle c) h)
      else (Ret (), g\<lparr>rg_resources := (rg_resources g)(t \<mapsto> Any (cap_type t) c)\<rparr>,
            drop_replaced (rg_resources g t) h))"

definition get ::
  "(type_id \<Rightarrow> type_id) \<Rightarrow> type_id \<Rightarrow> registry \<Rightarrow> 'h heap \<Rightarrow> capability option rust \<times> 'h heap" where
  "get cap_type t g h =
     (if rg_poisoned g then (Panicked, h)
      else case rg_resources g t of
        None \<Rightarrow> (Ret None, h)
      | Some a \<Rightarrow>
          (case downcast (cap_type t) a of
             Inl _ \<Rightarrow> (Ret None, h)
           | Inr c \<Rightarrow> (let (c', h') = capability_clone c h in (Ret (Some c'), h'))))"

definition remove_res ::
  "(type_id \<Rightarrow> type_id) \<Rightarrow> type_id \<Rightarrow> registry \<Rightarrow> 'h heap
    \<Rightarrow> capability option rust \<times> registry \<times> 'h heap" where
  "remove_res cap_type t g h =
     (if rg_poisoned g then (Panicked, g, h)
      else (let g' = g\<lparr>rg_resources := (rg_resources g)(t := None)\<rparr> in
        case rg_resources g t of
          None \<Rightarrow> (Ret None, g', h)
        | Some a \<Rightarrow>
            (case downcast (cap_type t) a of
               Inl b \<Rightarrow> (Ret None, g', arc_drop (cap_handle (any_val b)) h)
             | Inr c \<Rightarrow> (Ret (Some c), g', h))))"

definition has :: "type_id \<Rightarrow> registry \<Rightarrow> bool rust" where
  "has t g = (if rg_poisoned g then Panicked else Ret (rg_resources g t \<noteq> None))"

section \<open>A store of one value per key\<close>

text \<open>
  What a client of such a registry relies on: a lookup answers with the value of the
  last insertion under that key, unless it was taken out since.
\<close>

datatype ('k, 'a) store_op = Put (op_key: 'k) 'a | Take (op_key: 'k)

definition latest :: "'k \<Rightarrow> ('k, 'a) store_op list \<Rightarrow> 'a option" where
  "latest k ops = (case find (\<lambda>x. op_key x = k) (rev ops) of Some (Put _ v) \<Rightarrow> Some v | _ \<Rightarrow> None)"

lemma latest_nil [simp]: "latest k [] = None"
  by (simp add: latest_def)

lemma latest_snoc: "latest k (ops @ [x]) =
    (if op_key x = k then (case x of Put _ v \<Rightarrow> Some v | Take _ \<Rightarrow> None) else latest k ops)"
  by (simp add: latest_def split: store_op.splits)

definition perform ::
  "('k \<Rightarrow> 'a \<Rightarrow> 's \<Rightarrow> 's) \<Rightarrow> ('k \<Rightarrow> 's \<Rightarrow> 's) \<Rightarrow> ('k, 'a) store_op \<Rightarrow> 's \<Rightarrow> 's" where
  "perform put_in take_out x s = (case x of Put k v \<Rightarrow> put_in k v s | Take k \<Rightarrow> take_out k s)"

lemma perform_simps [simp]:
  "perform put_in take_out (Put k v) s = put_in k v s"
  "perform put_in take_out (Take k) s = take_out k s"
  by (simp_all add: perform_def)

locale keyed_store =
  fixes ok :: "'s \<Rightarrow> bool"
    and look :: "'k \<Rightarrow> 's \<Rightarrow> 'a option"
    and put_in :: "'k \<Rightarrow> 'a \<Rightarrow> 's \<Rightarrow> 's"
    and take_out :: "'k \<Rightarrow> 's \<Rightarrow> 's"
  assumes put_ok: "ok s \<Longrightarrow> ok (put_in k v s)"
    and take_ok: "ok s \<Longrightarrow> ok (take_out k s)"
    and look_put: "ok s \<Longrightarrow> look j (put_in k v s) = (if j = k then Some v else look j s)"
    and look_take: "ok s \<Longrightarrow> look j (take_out k s) = (if j = k then None else look j s)"
begin

lemma performs_ok: "ok s \<Longrightarrow> ok (fold (perform put_in take_out) ops s)"
proof (induction ops arbitrary: s)
  case (Cons x ops)
  then show ?case by (cases x) (simp_all add: put_ok take_ok)
qed simp

lemma look_performs:
  assumes "ok s" and "look k s = None"
  shows "look k (fold (perform put_in take_out) ops s) = latest k ops"
proof (induction ops rule: rev_induct)
  case Nil
  then show ?case using assms(2) by simp
next
  case (snoc x ops)
  have "ok (fold (perform put_in take_out) ops s)" using assms(1) by (rule performs_ok)
  then show ?case
    using snoc look_put look_take
    by (cases x) (simp_all add: latest_snoc perform_def [of put take "Put _ _"]
        perform_def [of put take "Take _"])
qed

end

text \<open>The registry is such a store: every entry sits under the key its type belongs to.\<close>

definition registry_ok :: "(type_id \<Rightarrow> type_id) \<Rightarrow> registry \<Rightarrow> bool" where
  "registry_ok cap_type g \<longleftrightarrow> \<not> rg_poisoned g
     \<and> (\<forall>t a. rg_resources g t = Some a \<longrightarrow> any_type a = cap_type t)"

definition reg_look :: "(type_id \<Rightarrow> type_id) \<Rightarrow> type_id \<Rightarrow> registry \<Rightarrow> capability option" where
  "reg_look cap_type t g =
     (case fst (get cap_type t g (store_empty :: unit heap)) of Ret r \<Rightarrow> r | Panicked \<Rightarrow> None)"

definition reg_put :: "(type_id \<Rightarrow> type_id) \<Rightarrow> type_id \<Rightarrow> capability \<Rightarrow> registry \<Rightarrow> registry" where
  "reg_put cap_type t c g = fst (snd (register cap_type t c g (store_empty :: unit heap)))"

definition reg_take :: "(type_id \<Rightarrow> type_id) \<Rightarrow> type_id \<Rightarrow> registry \<Rightarrow> registry" where
  "reg_take cap_type t g = fst (snd (remove_res cap_type t g (store_empty :: unit heap)))"

lemma registry_lookup:
  assumes "registry_ok cap_type g"
  shows "fst (get cap_type t g h) = Ret (map_option any_val (rg_resources g t))"
    and "fst (remove_res cap_type t g h) = Ret (map_option any_val (rg_resources g t))"
    and "has t g = Ret (rg_resources g t \<noteq> None)"
proof -
  have p: "\<not> rg_poisoned g" using assms by (simp add: registry_ok_def)
  have "fst (get cap_type t g h) = Ret (map_option any_val (rg_resources g t))
    \<and> fst (remove_res cap_type t g h) = Ret (map_option any_val (rg_resources g t))"
  proof (cases "rg_resources g t")
    case None
    then show ?thesis using p by (simp add: get_def remove_res_def)
  next
    case (Some a)
    moreover have "any_type a = cap_type t" using assms Some by (simp add: registry_ok_def)
    moreover obtain c where "a = Any (any_type a) c" by (cases a) simp
    ultimately obtain c where "a = Any (cap_type t) c" by simp
    with Some show ?thesis using p by (simp add: get_def remove_res_def capability_clone_def Let_def)
  qed
  then show "fst (get cap_type t g h) = Ret (map_option any_val (rg_resources g t))"
    and "fst (remove_res cap_type t g h) = Ret (map_option any_val (rg_resources g t))"
    and "has t g = Ret (rg_resources g t \<noteq> None)"
    using p by (simp_all add: has_def)
qed

lemma registry_updates:
  assumes "registry_ok cap_type g"
  shows "rg_resources (reg_put cap_type t c g) = (rg_resources g)(t \<mapsto> Any (cap_type t) c)"
    and "rg_resources (reg_take cap_type t g) = (rg_resources g)(t := None)"
    and "rg_poisoned (reg_put cap_type t c g) = False" "rg_poisoned (reg_take cap_type t g) = False"
  using assms
  by (simp_all add: registry_ok_def reg_put_def reg_take_def register_def remove_res_def Let_def
      split: option.splits sum.splits)

interpretation store_laws: keyed_store "registry_ok cap_type" "reg_look cap_type" "reg_put cap_type"
  "reg_take cap_type"
proof unfold_locales
  fix s t v
  assume ok: "registry_ok cap_type s"
  then show put: "registry_ok cap_type (reg_put cap_type t v s)"
    and took: "registry_ok cap_type (reg_take cap_type t s)"
    by (auto simp: registry_ok_def [of _ "reg_put cap_type t v s"]
        registry_ok_def [of _ "reg_take cap_type t s"] registry_updates)
       (auto simp: registry_ok_def)
  fix j
  show "reg_look cap_type j (reg_put cap_type t v s) = (if j = t then Some v else reg_look cap_type j s)"
    using ok put by (simp add: reg_look_def registry_lookup registry_updates)
  show "reg_look cap_type j (reg_take cap_type t s) = (if j = t then None else reg_look cap_type j s)"
    using ok took by (simp add: reg_look_def registry_lookup registry_updates)
qed

definition run_registry ::
  "(type_id \<Rightarrow> type_id) \<Rightarrow> (type_id, capability) store_op list \<Rightarrow> registry" where
  "run_registry cap_type ops = 
     fold (perform (reg_put cap_type) (reg_take cap_type)) ops registry_new"

text \<open>
  C31: the registry keeps one capability per handle type, the last one registered: after
  any sequence of registrations and removals, \<open>get\<close> and \<open>remove\<close> of a type yield exactly
  the capability of the last registration under it, or nothing if it was removed since or
  never registered; \<open>has\<close> agrees, and the downcasts inside never fail.
\<close>

theorem registry_returns_latest:
  "fst (get cap_type t (run_registry cap_type ops) h) = Ret (latest t ops)
   \<and> fst (remove_res cap_type t (run_registry cap_type ops) h) = Ret (latest t ops)
   \<and> has t (run_registry cap_type ops) = Ret (latest t ops \<noteq> None)"
proof -
  have new: "registry_ok cap_type registry_new" "reg_look cap_type t registry_new = None"
    by (simp_all add: registry_ok_def registry_new_def reg_look_def get_def)
  have ok: "registry_ok cap_type (run_registry cap_type ops)"
    unfolding run_registry_def by (rule store_laws.performs_ok [OF new(1)])
  have "reg_look cap_type t (run_registry cap_type ops) = latest t ops"
    unfolding run_registry_def by (rule store_laws.look_performs [OF new])
  then have l: "map_option any_val (rg_resources (run_registry cap_type ops) t) = latest t ops"
    by (simp add: reg_look_def registry_lookup [OF ok])
  then have "(rg_resources (run_registry cap_type ops) t \<noteq> None) = (latest t ops \<noteq> None)"
    by (metis option.map_disc_iff)
  with l show ?thesis by (simp only: registry_lookup [OF ok])
qed

section \<open>Sharing\<close>

text \<open>
  The capabilities in existence: those in the registry and those in the hands of actors.
  Each operation moves, clones or drops some.
\<close>

record 'h rsys =
  rs_reg :: registry
  rs_heap :: "'h heap"
  rs_out :: "capability list"

definition rs_init :: "'h rsys \<Rightarrow> bool" where
  "rs_init s \<longleftrightarrow> s = \<lparr>rs_reg = registry_new, rs_heap = store_empty, rs_out = []\<rparr>"

inductive rs_step :: "(type_id \<Rightarrow> type_id) \<Rightarrow> 'h rsys \<Rightarrow> 'h rsys \<Rightarrow> bool" for cap_type where
  create: "capability_new owner v (rs_heap s) = (c, h) \<Longrightarrow>
     rs_step cap_type s (s\<lparr>rs_heap := h, rs_out := c # rs_out s\<rparr>)"
| clone: "c \<in> set (rs_out s) \<Longrightarrow> capability_clone c (rs_heap s) = (c', h) \<Longrightarrow>
     rs_step cap_type s (s\<lparr>rs_heap := h, rs_out := c' # rs_out s\<rparr>)"
| discard: "c \<in> set (rs_out s) \<Longrightarrow>
     rs_step cap_type s (s\<lparr>rs_heap := arc_drop (cap_handle c) (rs_heap s),
       rs_out := remove1 c (rs_out s)\<rparr>)"
| registered: "c \<in> set (rs_out s) \<Longrightarrow> register cap_type t c (rs_reg s) (rs_heap s) = (r, g, h) \<Longrightarrow>
     rs_step cap_type s (s\<lparr>rs_reg := g, rs_heap := h, rs_out := remove1 c (rs_out s)\<rparr>)"
| found: "get cap_type t (rs_reg s) (rs_heap s) = (Ret (Some c), h) \<Longrightarrow>
     rs_step cap_type s (s\<lparr>rs_heap := h, rs_out := c # rs_out s\<rparr>)"
| removed: "remove_res cap_type t (rs_reg s) (rs_heap s) = (Ret (Some c), g, h) \<Longrightarrow>
     rs_step cap_type s (s\<lparr>rs_reg := g, rs_heap := h, rs_out := c # rs_out s\<rparr>)"

inductive_cases rs_stepE: "rs_step cap_type s t"

definition reg_refs :: "(type_id \<rightharpoonup> capability any) \<Rightarrow> arc_ref multiset" where
  "reg_refs m = image_mset (\<lambda>t. cap_handle (any_val (the (m t)))) (mset_set (dom m))"

definition handle_refs :: "'h rsys \<Rightarrow> arc_ref multiset" where
  "handle_refs s = reg_refs (rg_resources (rs_reg s)) + image_mset cap_handle (mset (rs_out s))"

text \<open>Every cell's count is the number of references to it, and it has at least one.\<close>

definition counts_ok :: "arc_ref multiset \<Rightarrow> 'h heap \<Rightarrow> bool" where
  "counts_ok refs h \<longleftrightarrow> store_ok h \<and> (\<forall>r. st_map h r = None \<longleftrightarrow> count refs r = 0)
     \<and> (\<forall>r v n. st_map h r = Some (v, n) \<longrightarrow> n = count refs r)"

definition rs_ok :: "(type_id \<Rightarrow> type_id) \<Rightarrow> 'h rsys \<Rightarrow> bool" where
  "rs_ok cap_type s \<longleftrightarrow> registry_ok cap_type (rs_reg s) \<and> finite (dom (rg_resources (rs_reg s)))
     \<and> counts_ok (handle_refs s) (rs_heap s)"

definition old_ref :: "capability any option \<Rightarrow> arc_ref multiset" where
  "old_ref old = (case old of None \<Rightarrow> {#} | Some a \<Rightarrow> {#cap_handle (any_val a)#})"

lemma reg_refs_remove:
  assumes "finite (dom m)"
  shows "reg_refs (m(t := None)) + old_ref (m t) = reg_refs m"
proof (cases "m t")
  case None
  then show ?thesis by (simp add: old_ref_def fun_upd_idem)
next
  case (Some a)
  then have d: "mset_set (dom m) = add_mset t (mset_set (dom m - {t}))"
    using assms by (metis domI mset_set.remove)
  have "image_mset (\<lambda>u. cap_handle (any_val (the ((m(t := None)) u)))) (mset_set (dom m - {t}))
      = image_mset (\<lambda>u. cap_handle (any_val (the (m u)))) (mset_set (dom m - {t}))"
    using assms by (intro image_mset_cong) (auto split: if_splits)
  then show ?thesis using Some by (simp add: reg_refs_def old_ref_def d)
qed

lemma reg_refs_insert:
  assumes "finite (dom m)"
  shows "reg_refs (m(t \<mapsto> a)) + old_ref (m t) = add_mset (cap_handle (any_val a)) (reg_refs m)"
proof -
  have "reg_refs ((m(t \<mapsto> a))(t := None)) + old_ref ((m(t \<mapsto> a)) t) = reg_refs (m(t \<mapsto> a))"
    using assms by (intro reg_refs_remove) simp
  then have "reg_refs (m(t \<mapsto> a)) = add_mset (cap_handle (any_val a)) (reg_refs (m(t := None)))"
    by (simp add: old_ref_def)
  then show ?thesis using reg_refs_remove [OF assms, of t] by simp
qed

lemma counts_okI:
  assumes "counts_ok refs h" and "store_ok h'"
    and "\<And>k. k \<noteq> r \<Longrightarrow> st_map h' k = st_map h k \<and> count refs' k = count refs k"
    and "case st_map h' r of None \<Rightarrow> count refs' r = 0
      | Some (v, n) \<Rightarrow> n = count refs' r \<and> 0 < n"
  shows "counts_ok refs' h'"
  unfolding counts_ok_def
proof (intro conjI allI impI assms(2))
  fix k
  show "st_map h' k = None \<longleftrightarrow> count refs' k = 0"
    using assms by (cases "k = r") (auto simp: counts_ok_def split: option.splits)
  fix v n
  assume "st_map h' k = Some (v, n)"
  then show "n = count refs' k"
    using assms by (cases "k = r") (auto simp: counts_ok_def)
qed

lemma counts_clone:
  assumes "counts_ok refs h" and "r \<in># refs"
  shows "counts_ok (add_mset r refs) (arc_clone r h)"
proof (rule counts_okI [OF assms(1)])
  have "st_map h r \<noteq> None" using assms by (simp add: counts_ok_def)
  then obtain v where c: "st_map h r = Some (v, count refs r)"
    using assms(1) by (auto simp: counts_ok_def)
  show "store_ok (arc_clone r h)" using assms(1) by (simp add: counts_ok_def arc_clone_def store_ok_upd)
  show "case st_map (arc_clone r h) r of None \<Rightarrow> count (add_mset r refs) r = 0
      | Some (v, n) \<Rightarrow> n = count (add_mset r refs) r \<and> 0 < n"
    by (simp add: arc_clone_def c)
qed (simp add: arc_clone_def)

lemma counts_drop:
  assumes "counts_ok (add_mset r refs) h"
  shows "counts_ok refs (arc_drop r h)"
proof (rule counts_okI [OF assms])
  have "st_map h r \<noteq> None" using assms by (simp add: counts_ok_def)
  then obtain v n where "st_map h r = Some (v, n)" by auto
  moreover from this have "n = count (add_mset r refs) r"
    using assms unfolding counts_ok_def by blast
  ultimately have c: "st_map h r = Some (v, Suc (count refs r))" by simp
  show "store_ok (arc_drop r h)" using assms c by (auto simp: counts_ok_def arc_drop_def store_ok_def)
  show "case st_map (arc_drop r h) r of None \<Rightarrow> count refs r = 0
      | Some (v, n) \<Rightarrow> n = count refs r \<and> 0 < n"
    by (simp add: arc_drop_def c)
  show "st_map (arc_drop r h) k = st_map h k \<and> count refs k = count (add_mset r refs) k"
    if "k \<noteq> r" for k
    using that by (simp add: arc_drop_def c)
qed

lemma counts_new:
  assumes "counts_ok refs h" and "capability_new owner v h = (c, h')"
  shows "counts_ok (add_mset (cap_handle c) refs) h'"
proof (rule counts_okI [OF assms(1)])
  have ok: "store_ok h" using assms(1) by (simp add: counts_ok_def)
  have h: "st_map h' = (st_map h)(cap_handle c \<mapsto> (v, 1))" and c: "cap_handle c = st_next h"
    and "store_ok h'"
    using assms(2) store_ok_new [OF ok, of "(v, 1)"] by (auto simp: capability_new_def store_new_def)
  then show "store_ok h'" by simp
  have "count refs (cap_handle c) = 0"
    using assms(1) ok store_new_fresh [OF ok, of undefined] by (simp add: counts_ok_def c store_new_def)
  then show "case st_map h' (cap_handle c) of None \<Rightarrow> count (add_mset (cap_handle c) refs) (cap_handle c) = 0
      | Some (v, n) \<Rightarrow> n = count (add_mset (cap_handle c) refs) (cap_handle c) \<and> 0 < n"
    by (simp add: h)
  show "st_map h' k = st_map h k \<and> count (add_mset (cap_handle c) refs) k = count refs k"
    if "k \<noteq> cap_handle c" for k
    using that by (simp add: h)
qed

text \<open>One step of the whole.\<close>

lemma out_refs: "c \<in> set cs \<Longrightarrow>
    image_mset cap_handle (mset cs) = add_mset (cap_handle c) (image_mset cap_handle (mset (remove1 c cs)))"
proof -
  assume "c \<in> set cs"
  then have "mset cs = add_mset c (mset (remove1 c cs))" by simp
  then show ?thesis by (metis image_mset_add_mset)
qed

lemma rs_ok_step:
  assumes ok: "rs_ok cap_type s" and step: "rs_step cap_type s t"
  shows "rs_ok cap_type t"
proof -
  have reg: "registry_ok cap_type (rs_reg s)" and fin: "finite (dom (rg_resources (rs_reg s)))"
    and counts: "counts_ok (handle_refs s) (rs_heap s)"
    using ok by (simp_all add: rs_ok_def)
  show ?thesis
    using step
  proof cases
    case (create owner v c h)
    then show ?thesis
      using counts_new [OF counts create(2)] reg fin by (simp add: rs_ok_def handle_refs_def)
  next
    case (clone c c' h)
    then have "cap_handle c \<in># handle_refs s" by (simp add: handle_refs_def)
    from counts_clone [OF counts this] show ?thesis
      using clone reg fin by (auto simp: rs_ok_def handle_refs_def capability_clone_def)
  next
    case (discard c)
    let ?t = "s\<lparr>rs_out := remove1 c (rs_out s)\<rparr>"
    have "handle_refs s = add_mset (cap_handle c) (handle_refs ?t)"
      using out_refs [OF discard(2)] by (simp add: handle_refs_def)
    then have "counts_ok (handle_refs ?t) (arc_drop (cap_handle c) (rs_heap s))"
      using counts by (intro counts_drop) simp
    then show ?thesis using discard reg fin by (simp add: rs_ok_def handle_refs_def)
  next
    case (registered c k r g h)
    have g: "g = reg_put cap_type k c (rs_reg s)" "h = drop_replaced (rg_resources (rs_reg s) k) (rs_heap s)"
      using registered(3) reg by (auto simp: register_def reg_put_def registry_ok_def)
    let ?old = "rg_resources (rs_reg s) k"
    have "handle_refs t + old_ref ?old = handle_refs s"
      using reg_refs_insert [OF fin, of k "Any (cap_type k) c"] out_refs [OF registered(2)]
      by (simp add: registered(1) handle_refs_def g registry_updates [OF reg] ac_simps)
    then have "counts_ok (handle_refs t) h"
      using counts by (cases ?old) (auto simp: g drop_replaced_def old_ref_def intro!: counts_drop)
    then show ?thesis
      using registered fin store_laws.put_ok [OF reg, of k c]
      by (simp add: rs_ok_def g registry_updates [OF reg])
  next
    case (found k c h)
    have c: "rg_resources (rs_reg s) k = Some (Any (cap_type k) c)" and h: "h = arc_clone (cap_handle c) (rs_heap s)"
      using found(2) reg
      by (auto simp: get_def registry_ok_def capability_clone_def downcast_def
          split: option.splits if_splits) (metis any.collapse)+
    have "k \<in># mset_set (dom (rg_resources (rs_reg s)))" using c fin by auto
    then have "cap_handle c \<in># reg_refs (rg_resources (rs_reg s))"
      unfolding reg_refs_def using c by (force intro: image_eqI [of _ _ k])
    then have "cap_handle c \<in># handle_refs s" by (simp add: handle_refs_def)
    from counts_clone [OF counts this] show ?thesis
      using found reg fin by (simp add: rs_ok_def handle_refs_def h)
  next
    case (removed k c g h)
    have c: "map_option any_val (rg_resources (rs_reg s) k) = Some c"
      using registry_lookup(2) [OF reg, of k "rs_heap s"] removed(2) by simp
    then obtain a where a: "rg_resources (rs_reg s) k = Some a" "any_val a = c" by auto
    have g: "g = reg_take cap_type k (rs_reg s)" "h = rs_heap s"
      using removed(2) reg
      by (auto simp: remove_res_def reg_take_def registry_ok_def Let_def split: option.splits sum.splits)
    have "handle_refs t = handle_refs s"
      using reg_refs_remove [OF fin, of k] a
      by (simp add: removed(1) handle_refs_def g registry_updates [OF reg] old_ref_def)
    then show ?thesis
      using removed fin counts store_laws.take_ok [OF reg, of k]
      by (simp add: rs_ok_def g registry_updates [OF reg])
  qed
qed

lemma rs_ok_init: "rs_init s \<Longrightarrow> rs_ok cap_type s"
  by (simp add: rs_init_def rs_ok_def registry_ok_def registry_new_def handle_refs_def reg_refs_def
      counts_ok_def store_empty_def store_ok_def)

interpretation sharing: invariant_of rs_init "rs_step cap_type" "rs_ok cap_type"
  by unfold_locales (auto intro: rs_ok_init rs_ok_step)


text \<open>A capability that was created and registered.\<close>

definition shared_cap :: capability where
  "shared_cap = \<lparr>cap_owner = ActorId 3, cap_handle = 0\<rparr>"

definition created :: "bool rsys" where
  "created = \<lparr>rs_reg = registry_new, rs_heap = \<lparr>st_map = [0 \<mapsto> (True, 1)], st_next = 1\<rparr>,
     rs_out = [shared_cap]\<rparr>"

lemma created_reachable: "reachable rs_init (rs_step Suc) created"
proof (rule reach_step)
  show "reachable rs_init (rs_step Suc) (\<lparr>rs_reg = registry_new, rs_heap = store_empty, rs_out = []\<rparr> :: bool rsys)"
    by (rule reach_init) (simp add: rs_init_def)
  have "capability_new (ActorId 3) True store_empty = (shared_cap, rs_heap created)"
    by (simp add: capability_new_def store_new_def store_empty_def created_def shared_cap_def)
  then show "rs_step Suc \<lparr>rs_reg = registry_new, rs_heap = store_empty, rs_out = []\<rparr> created"
    using rs_step.create [of "ActorId 3" True "\<lparr>rs_reg = registry_new, rs_heap = store_empty, rs_out = []\<rparr>"
        shared_cap "rs_heap created" Suc]
    by (simp add: created_def)
qed


end
