(* ===== verification/Network.thy ===== *)
theory Network
  imports ActorTypes Channel
begin

text \<open>
  What routes messages between actors: the envelopes of \<open>src/runtime.rs\<close>, the shared
  map from actor ids to the senders of their mailboxes, and the mailbox channels those
  senders name. \<open>Runtime::send\<close>, \<open>Runtime::send_blocking\<close>, \<open>Runtime::request\<close>,
  \<open>ActorContext::send_to\<close> and the timer thread all look a sender up in it and then send.
\<close>

datatype 'v envelope =
    Message "'v any"
  | Request (request_id: u64) (payload: "'v any") (reply_sender: chan_ref)

record 'c net =
  nt_senders :: "actor_id \<rightharpoonup> chan_ref"
  nt_poisoned :: bool  \<comment> \<open>whether the lock of the map is poisoned\<close>
  nt_store :: "'c store"

definition net_empty :: "'c net" where
  "net_empty = \<lparr>nt_senders = Map.empty, nt_poisoned = False, nt_store = store_empty\<rparr>"

text \<open>Every sender in the map names a channel; the lookup relies on it.\<close>

definition net_ok :: "'c net \<Rightarrow> bool" where
  "net_ok n \<longleftrightarrow> store_ok (nt_store n) \<and> ran (nt_senders n) \<subseteq> dom (st_map (nt_store n))"

definition find_sender :: "actor_id \<Rightarrow> 'c net \<Rightarrow> (chan_ref \<times> 'c, runtime_error) result" where
  "find_sender target n =
     (if nt_poisoned n then Inl RuntimeStopped
      else case nt_senders n target of
        None \<Rightarrow> Inl (ActorNotFound target)
      | Some r \<Rightarrow>
          (case st_map (nt_store n) r of
             None \<Rightarrow> Inl RuntimeStopped
           | Some c \<Rightarrow> Inr (r, c)))"

definition put_channel :: "chan_ref \<Rightarrow> 'c \<Rightarrow> 'c net \<Rightarrow> 'c net" where
  "put_channel r c n = n\<lparr>nt_store := store_set r c (nt_store n)\<rparr>"

text \<open>\<open>try_send\<close> through the map, with the two channel errors mapped as the code does.\<close>

definition net_try_send ::
  "('c, 'v envelope) chan_api \<Rightarrow> actor_id \<Rightarrow> 'v envelope \<Rightarrow> 'c net
    \<Rightarrow> (unit, runtime_error) result \<times> 'c net" where
  "net_try_send api target env n =
     (case find_sender target n of
        Inl e \<Rightarrow> (Inl e, n)
      | Inr (r, c) \<Rightarrow>
          (case ch_try_send api env c of
             Inl SendFull \<Rightarrow> (Inl (MailboxFull target), n)
           | Inl SendDisconnected \<Rightarrow> (Inl RuntimeStopped, n)
           | Inr c' \<Rightarrow> (Inr (), put_channel r c' n)))"

text \<open>The blocking send through the map; \<open>None\<close> while the caller waits for space.\<close>

definition net_send ::
  "('c, 'v envelope) chan_api \<Rightarrow> actor_id \<Rightarrow> 'v envelope \<Rightarrow> 'c net
    \<Rightarrow> ((unit, runtime_error) result \<times> 'c net) option" where
  "net_send api target env n =
     (case find_sender target n of
        Inl e \<Rightarrow> Some (Inl e, n)
      | Inr (r, c) \<Rightarrow>
          (case ch_send api env c of
             None \<Rightarrow> None
           | Some (Inl _) \<Rightarrow> Some (Inl RuntimeStopped, n)
           | Some (Inr c') \<Rightarrow> Some (Inr (), put_channel r c' n)))"

lemma find_sender_Inr_iff:
  "find_sender target n = Inr (r, c) \<longleftrightarrow>
     \<not> nt_poisoned n \<and> nt_senders n target = Some r \<and> st_map (nt_store n) r = Some c"
  by (auto simp: find_sender_def split: option.splits)

lemma find_sender_known:
  assumes "net_ok n" and "nt_senders n target = Some r" and "\<not> nt_poisoned n"
  obtains c where "find_sender target n = Inr (r, c)"
proof -
  have "r \<in> ran (nt_senders n)" using assms(2) by (rule ranI)
  then have "r \<in> dom (st_map (nt_store n))" using assms(1) by (auto simp: net_ok_def)
  then obtain c where "st_map (nt_store n) r = Some c" by auto
  with that assms show thesis by (simp add: find_sender_Inr_iff)
qed

lemma put_channel_sel [simp]:
  "nt_senders (put_channel r c n) = nt_senders n"
  "nt_poisoned (put_channel r c n) = nt_poisoned n"
  "st_map (nt_store (put_channel r c n)) = (st_map (nt_store n))(r \<mapsto> c)"
  by (simp_all add: put_channel_def)

lemma net_ok_empty [simp]: "net_ok net_empty"
  by (simp add: net_ok_def net_empty_def)

lemma net_ok_put: "net_ok n \<Longrightarrow> st_map (nt_store n) r \<noteq> None \<Longrightarrow> net_ok (put_channel r c n)"
  by (auto simp: net_ok_def put_channel_def intro: store_ok_set)

lemma net_try_send_ok: "net_ok n \<Longrightarrow> net_try_send api t env n = (r, n') \<Longrightarrow> net_ok n'"
  by (auto simp: net_try_send_def find_sender_Inr_iff net_ok_put
      split: sum.splits try_send_error.splits)

lemma net_send_ok: "net_ok n \<Longrightarrow> net_send api t env n = Some (r, n') \<Longrightarrow> net_ok n'"
  by (auto simp: net_send_def find_sender_Inr_iff net_ok_put
      split: sum.splits option.splits)

text \<open>The messages waiting for an actor.\<close>

definition mailbox_of :: "('c \<Rightarrow> 'm chan_view) \<Rightarrow> 'c net \<Rightarrow> actor_id \<Rightarrow> 'm chan_view option" where
  "mailbox_of view n a = Option.bind (nt_senders n a) (\<lambda>r. map_option view (st_map (nt_store n) r))"

end
