(* ===== verification/ComputeTask.thy ===== *)
theory ComputeTask
  imports ActorTypes Channel
begin

text \<open>
  \<open>src/compute/task.rs\<close> and \<open>src/compute/handle.rs\<close>: compute tasks, what a worker
  reports about one, and the handle through which the submitter reads the report or
  cancels the task.
\<close>

section \<open>Tasks and results\<close>

datatype task_id = TaskId (task_raw: u64)

definition task_id_new :: "u64 \<Rightarrow> task_id \<times> u64" where
  "task_id_new counter = (let (old, counter') = fetch_add1 counter in (TaskId old, counter'))"

interpretation task_ids: id_source task_id_new "\<lambda>c. c" task_raw
  by unfold_locales (simp_all add: task_id_new_def fetch_add1_def)

datatype compute_error = QueueFull | SchedulerShutdown | WorkerPanic string

datatype 'v compute_result =
    ResOk "'v any"
  | ResErr compute_error
  | ResPanic string
  | ResTimeout
  | ResCancelled

definition show_compute_error :: "compute_error \<Rightarrow> string" where
  "show_compute_error e =
     (case e of
        QueueFull \<Rightarrow> ''compute queue full''
      | SchedulerShutdown \<Rightarrow> ''compute scheduler shutdown''
      | WorkerPanic msg \<Rightarrow> ''worker panic: '' @ msg)"

text \<open>
  A job runs once. It returns a value, which is boxed, or panics with a payload: a
  \<open>&str\<close>, a \<open>String\<close> or a value of another type.
\<close>

datatype panic_payload = PayloadStr string | PayloadString string | PayloadOther

datatype 'v outcome = Returned "'v any" | Unwound panic_payload

text \<open>A task names its result channel and its cancellation flag, both shared with the handle.\<close>

type_synonym flag_ref = nat

record 'v task =
  tk_id :: task_id
  tk_job :: "'v outcome"
  tk_result_sender :: chan_ref
  tk_created_at :: instant
  tk_cancelled :: flag_ref

section \<open>The handle\<close>

record compute_handle =
  hd_receiver :: chan_ref
  hd_cancelled :: flag_ref

definition compute_handle_new :: "chan_ref \<Rightarrow> flag_ref \<Rightarrow> compute_handle" where
  "compute_handle_new r f = \<lparr>hd_receiver = r, hd_cancelled = f\<rparr>"

text \<open>The raised flags are kept as a set of references.\<close>

definition handle_cancel :: "compute_handle \<Rightarrow> flag_ref set \<Rightarrow> flag_ref set" where
  "handle_cancel h raised = insert (hd_cancelled h) raised"

definition handle_is_cancelled :: "compute_handle \<Rightarrow> flag_ref set \<Rightarrow> bool" where
  "handle_is_cancelled h raised \<longleftrightarrow> hd_cancelled h \<in> raised"

definition map_result :: "type_id \<Rightarrow> 'v compute_result \<Rightarrow> ('v, compute_error) result" where
  "map_result ty r =
     (case r of
        ResOk value \<Rightarrow>
          (case downcast ty value of
             Inr v \<Rightarrow> Inr v
           | Inl _ \<Rightarrow> Inl (WorkerPanic ''Type mismatch''))
      | ResErr e \<Rightarrow> Inl e
      | ResPanic msg \<Rightarrow> Inl (WorkerPanic msg)
      | ResTimeout \<Rightarrow> Inl (WorkerPanic ''Task timed out'')
      | ResCancelled \<Rightarrow> Inl (WorkerPanic ''Task cancelled''))"

text \<open>
  The three ways to read the result, on the state of the handle's channel; \<open>None\<close> of
  \<open>handle_recv\<close> is a caller that waits.
\<close>

definition handle_try_recv ::
  "('c, 'v compute_result) chan_api \<Rightarrow> type_id \<Rightarrow> 'c
    \<Rightarrow> ('v, compute_error) result option \<times> 'c" where
  "handle_try_recv api ty c =
     (case ch_try_recv api c of
        Inr (r, c') \<Rightarrow> (Some (map_result ty r), c')
      | Inl RecvEmpty \<Rightarrow> (None, c)
      | Inl RecvDisconnected \<Rightarrow> (Some (Inl SchedulerShutdown), c))"

definition handle_recv ::
  "('c, 'v compute_result) chan_api \<Rightarrow> type_id \<Rightarrow> 'c
    \<Rightarrow> (('v, compute_error) result \<times> 'c) option" where
  "handle_recv api ty c =
     (case ch_recv api c of
        None \<Rightarrow> None
      | Some (Inr (r, c')) \<Rightarrow> Some (map_result ty r, c')
      | Some (Inl _) \<Rightarrow> Some (Inl SchedulerShutdown, c))"

definition handle_recv_timeout ::
  "('c, 'v compute_result) chan_api \<Rightarrow> type_id \<Rightarrow> 'c \<Rightarrow> ('v, compute_error) result \<times> 'c" where
  "handle_recv_timeout api ty c =
     (case ch_recv_timeout api c of
        Inr (r, c') \<Rightarrow> (map_result ty r, c')
      | Inl RecvTimedOut \<Rightarrow> (Inl (WorkerPanic ''Timeout''), c)
      | Inl RecvTimeoutDisconnected \<Rightarrow> (Inl SchedulerShutdown, c))"

section \<open>What the worker reports\<close>

text \<open>The message of a caught panic, and the result sent when the flag is not raised.\<close>

definition panic_message :: "panic_payload \<Rightarrow> string" where
  "panic_message p =
     (case p of
        PayloadStr s \<Rightarrow> s
      | PayloadString s \<Rightarrow> s
      | PayloadOther \<Rightarrow> ''Unknown panic'')"

definition outcome_result :: "'v outcome \<Rightarrow> 'v compute_result" where
  "outcome_result r =
     (case r of Returned value \<Rightarrow> ResOk value | Unwound p \<Rightarrow> ResPanic (panic_message p))"

text \<open>What the submitter should read for a job that ran to its end.\<close>

definition job_answer :: "'v outcome \<Rightarrow> ('v, compute_error) result" where
  "job_answer r =
     (case r of
        Returned value \<Rightarrow> Inr (any_val value)
      | Unwound p \<Rightarrow> Inl (WorkerPanic (panic_message p)))"

definition job_typed :: "type_id \<Rightarrow> 'v outcome \<Rightarrow> bool" where
  "job_typed ty r \<longleftrightarrow> (case r of Returned value \<Rightarrow> any_type value = ty | Unwound _ \<Rightarrow> True)"

lemma map_outcome:
  "job_typed ty r \<Longrightarrow> map_result ty (outcome_result r) = job_answer r"
  by (auto simp: job_typed_def map_result_def outcome_result_def job_answer_def downcast_def
      split: outcome.splits)

text \<open>How the handle reads a channel, by the channel's documented behaviour.\<close>

context chan begin

lemma reads_queued:
  assumes "cv_queue (view c) = m # ms"
  obtains a b d where "ch_try_recv api c = Inr (m, a)" "ch_recv api c = Some (Inr (m, b))"
    "ch_recv_timeout api c = Inr (m, d)"
  using try_recv_takes [OF assms] recv_takes [OF assms] recv_timeout_takes [OF assms] by blast

lemma reads_empty:
  assumes "cv_queue (view c) = []" and "buffered (view c)"
  shows "ch_try_recv api c = Inl (if cv_senders (view c) = 0 then RecvDisconnected else RecvEmpty)"
    and "ch_recv api c = (if cv_senders (view c) = 0 then Some (Inl ()) else None)"
    and "ch_recv_timeout api c
      = Inl (if cv_senders (view c) = 0 then RecvTimeoutDisconnected else RecvTimedOut)"
  using assms try_recv_empty recv_empty recv_timeout_empty by (simp_all add: buffered_def)

end

lemma handle_reads_report:
  assumes "chan api view" and "cv_queue (view c) = m # ms"
  shows "fst (handle_try_recv api ty c) = Some (map_result ty m)"
    and "map_option fst (handle_recv api ty c) = Some (map_result ty m)"
    and "fst (handle_recv_timeout api ty c) = map_result ty m"
proof -
  obtain a b d where "ch_try_recv api c = Inr (m, a)" "ch_recv api c = Some (Inr (m, b))"
    "ch_recv_timeout api c = Inr (m, d)"
    using chan.reads_queued [OF assms] .
  then show "fst (handle_try_recv api ty c) = Some (map_result ty m)"
    and "map_option fst (handle_recv api ty c) = Some (map_result ty m)"
    and "fst (handle_recv_timeout api ty c) = map_result ty m"
    by (simp_all add: handle_try_recv_def handle_recv_def handle_recv_timeout_def)
qed

lemmas handle_defs = handle_try_recv_def handle_recv_def handle_recv_timeout_def

lemma handle_reads_gone:
  assumes "chan api view" and "cv_queue (view c) = []" and "buffered (view c)"
    and "cv_senders (view c) = 0"
  shows "handle_try_recv api ty c = (Some (Inl SchedulerShutdown), c)"
    and "handle_recv api ty c = Some (Inl SchedulerShutdown, c)"
    and "handle_recv_timeout api ty c = (Inl SchedulerShutdown, c)"
  using chan.reads_empty [OF assms(1-3)] assms(4) by (simp_all add: handle_defs)

lemma handle_reads_idle:
  assumes "chan api view" and "cv_queue (view c) = []" and "buffered (view c)"
    and "0 < cv_senders (view c)"
  shows "handle_try_recv api ty c = (None, c)"
    and "handle_recv api ty c = None"
    and "handle_recv_timeout api ty c = (Inl (WorkerPanic ''Timeout''), c)"
  using chan.reads_empty [OF assms(1-3)] assms(4) by (simp_all add: handle_defs)



end
