(* ===== verification/ComputePool.thy ===== *)
theory ComputePool
  imports ComputeTask
begin

text \<open>
  \<open>src/compute/scheduler.rs\<close>: the pool of threads that run compute tasks. The tasks wait
  in one unbounded channel; each has a result channel and a cancellation flag of its own.
  The worker loop is cut at its accesses to shared state, so that every interleaving of
  workers, submitters and handles is a sequence of steps.
\<close>

section \<open>State\<close>

record compute_config =
  cc_max_workers :: nat
  cc_queue_capacity :: nat
  cc_task_timeout :: "duration option"

text \<open>\<open>thread::available_parallelism\<close> is the machine's answer, or an error.\<close>

definition compute_config_default :: "nat option \<Rightarrow> compute_config" where
  "compute_config_default available =
     \<lparr>cc_max_workers = (case available of Some n \<Rightarrow> n | None \<Rightarrow> 4),
      cc_queue_capacity = 1024, cc_task_timeout = None\<rparr>"

datatype 'v cphase =
    CpTop  \<comment> \<open>about to read the stop flag\<close>
  | CpRecv  \<comment> \<open>in \<open>recv_timeout\<close>\<close>
  | CpGot "'v task"  \<comment> \<open>before the first look at the cancellation flag\<close>
  | CpRunning "'v task"
  | CpRan "'v task"  \<comment> \<open>before the second look\<close>
  | CpSend "'v task" "'v compute_result"
  | CpDrop "'v task"  \<comment> \<open>the result is sent, the sender still alive\<close>
  | CpExited

record ('q, 'c, 'v) cpool =
  cp_config :: compute_config
  cp_sender :: bool  \<comment> \<open>whether the \<open>Option\<close> still holds the sender\<close>
  cp_queue :: 'q
  cp_results :: "'c store"
  cp_raised :: "flag_ref set"
  cp_next_flag :: flag_ref
  cp_counter :: u64
  cp_stop :: bool
  cp_workers :: "'v cphase list"
  cp_submitted :: "'v task list"  \<comment> \<open>history: the tasks the channel accepted\<close>
  cp_started :: "'v task list"  \<comment> \<open>history: the tasks whose job was called\<close>
  cp_sent :: "('v task \<times> 'v compute_result) list"  \<comment> \<open>history: the results sent\<close>
  cp_dropped :: "'v task list"  \<comment> \<open>history: the tasks dropped with the channel\<close>

definition compute_new ::
  "('q, 'v task) chan_api \<Rightarrow> compute_config \<Rightarrow> 'c store \<Rightarrow> u64
    \<Rightarrow> (('q, 'c, 'v) cpool, compute_error) result" where
  "compute_new qapi config results counter =
     (let q0 = ch_unbounded qapi;
          q1 = ((ch_clone_receiver qapi) ^^ cc_max_workers config) q0
      in Inr \<lparr>cp_config = config, cp_sender = True, cp_queue = ch_drop_receiver qapi q1,
           cp_results = results, cp_raised = {}, cp_next_flag = 0, cp_counter = counter,
           cp_stop = False, cp_workers = replicate (cc_max_workers config) CpTop,
           cp_submitted = [], cp_started = [], cp_sent = [], cp_dropped = []\<rparr>)"

section \<open>Submitting\<close>

text \<open>
  The task a submission builds: a result channel of capacity one, a cleared flag, a new
  id. \<open>abandon\<close> drops both ends of its channel, as an early return or a panic does.
\<close>

definition make_task ::
  "('c, 'v compute_result) chan_api \<Rightarrow> instant \<Rightarrow> 'v outcome \<Rightarrow> ('q, 'c, 'v) cpool
    \<Rightarrow> 'v task \<times> ('q, 'c, 'v) cpool" where
  "make_task rapi now job s =
     (let (r, st) = store_new (ch_bounded rapi 1) (cp_results s);
          f = cp_next_flag s;
          (i, counter) = task_id_new (cp_counter s)
      in (\<lparr>tk_id = i, tk_job = job, tk_result_sender = r, tk_created_at = now,
            tk_cancelled = f\<rparr>,
          s\<lparr>cp_results := st, cp_next_flag := Suc f, cp_counter := counter\<rparr>))"

definition abandon ::
  "('c, 'v compute_result) chan_api \<Rightarrow> 'v task \<Rightarrow> ('q, 'c, 'v) cpool \<Rightarrow> ('q, 'c, 'v) cpool" where
  "abandon rapi t s =
     s\<lparr>cp_results := store_upd (tk_result_sender t) (\<lambda>c. ch_drop_receiver rapi (ch_drop_sender rapi c))
         (cp_results s)\<rparr>"

text \<open>Sending the task into the pool's channel; \<open>None\<close> if the channel made the caller wait.\<close>

definition submit_task ::
  "('q, 'v task) chan_api \<Rightarrow> ('c, 'v compute_result) chan_api \<Rightarrow> 'v task \<Rightarrow> ('q, 'c, 'v) cpool
    \<Rightarrow> ((compute_handle, compute_error) result \<times> ('q, 'c, 'v) cpool) option" where
  "submit_task qapi rapi t s =
     (case ch_send qapi t (cp_queue s) of
        None \<Rightarrow> None
      | Some (Inr q) \<Rightarrow>
          Some (Inr (compute_handle_new (tk_result_sender t) (tk_cancelled t)),
                s\<lparr>cp_queue := q, cp_submitted := cp_submitted s @ [t]\<rparr>)
      | Some (Inl _) \<Rightarrow> Some (Inl SchedulerShutdown, abandon rapi t s))"

definition compute_spawn ::
  "('q, 'v task) chan_api \<Rightarrow> ('c, 'v compute_result) chan_api \<Rightarrow> instant \<Rightarrow> 'v outcome
    \<Rightarrow> ('q, 'c, 'v) cpool
    \<Rightarrow> ((compute_handle, compute_error) result rust \<times> ('q, 'c, 'v) cpool) option" where
  "compute_spawn qapi rapi now job s =
     (let (t, s1) = make_task rapi now job s in
      if cp_sender s1
      then map_option (\<lambda>(r, s2). (Ret r, s2)) (submit_task qapi rapi t s1)
      else Some (Panicked, abandon rapi t s1))"

section \<open>The worker loop\<close>

definition set_worker :: "nat \<Rightarrow> 'v cphase \<Rightarrow> ('q, 'c, 'v) cpool \<Rightarrow> ('q, 'c, 'v) cpool" where
  "set_worker w p s = s\<lparr>cp_workers := (cp_workers s)[w := p]\<rparr>"

text \<open>
  Leaving the loop drops the worker's receiver. With the last receiver the channel drops
  the tasks still in it, and with each task its result sender.
\<close>

definition drop_tasks ::
  "('c, 'v compute_result) chan_api \<Rightarrow> 'v task list \<Rightarrow> 'c store \<Rightarrow> 'c store" where
  "drop_tasks rapi ts st = fold (\<lambda>t. store_upd (tk_result_sender t) (ch_drop_sender rapi)) ts st"

definition leave_loop ::
  "('q, 'v task) chan_api \<Rightarrow> ('q \<Rightarrow> 'v task chan_view) \<Rightarrow> ('c, 'v compute_result) chan_api
    \<Rightarrow> nat \<Rightarrow> ('q, 'c, 'v) cpool \<Rightarrow> ('q, 'c, 'v) cpool" where
  "leave_loop qapi qview rapi w s =
     (let v = qview (cp_queue s);
          lost = (if cv_receivers v \<le> 1 then cv_queue v else [])
      in (set_worker w CpExited s)\<lparr>cp_queue := ch_drop_receiver qapi (cp_queue s),
           cp_results := drop_tasks rapi lost (cp_results s),
           cp_dropped := cp_dropped s @ lost\<rparr>)"

definition task_cancelled :: "'v task \<Rightarrow> ('q, 'c, 'v) cpool \<Rightarrow> bool" where
  "task_cancelled t s \<longleftrightarrow> tk_cancelled t \<in> cp_raised s"

definition worker_next ::
  "('q, 'v task) chan_api \<Rightarrow> ('q \<Rightarrow> 'v task chan_view) \<Rightarrow> ('c, 'v compute_result) chan_api
    \<Rightarrow> nat \<Rightarrow> ('q, 'c, 'v) cpool \<Rightarrow> ('q, 'c, 'v) cpool option" where
  "worker_next qapi qview rapi w s =
     (case cp_workers s ! w of
        CpTop \<Rightarrow>
          Some (if cp_stop s then leave_loop qapi qview rapi w s else set_worker w CpRecv s)
      | CpRecv \<Rightarrow>
          Some (case ch_recv_timeout qapi (cp_queue s) of
             Inr (t, q) \<Rightarrow> set_worker w (CpGot t) (s\<lparr>cp_queue := q\<rparr>)
           | Inl RecvTimedOut \<Rightarrow> set_worker w CpTop s
           | Inl RecvTimeoutDisconnected \<Rightarrow> leave_loop qapi qview rapi w s)
      | CpGot t \<Rightarrow>
          Some (if task_cancelled t s then set_worker w (CpSend t ResCancelled) s
                else set_worker w (CpRunning t) (s\<lparr>cp_started := cp_started s @ [t]\<rparr>))
      | CpRunning t \<Rightarrow> Some (set_worker w (CpRan t) s)
      | CpRan t \<Rightarrow>
          Some (set_worker w (CpSend t
             (if task_cancelled t s then ResCancelled else outcome_result (tk_job t))) s)
      | CpSend t r \<Rightarrow>
          (case st_map (cp_results s) (tk_result_sender t) of
             None \<Rightarrow> None
           | Some c \<Rightarrow>
               (case ch_send rapi r c of
                  None \<Rightarrow> None
                | Some sent \<Rightarrow>
                    Some (set_worker w (CpDrop t)
                      (s\<lparr>cp_results := (case sent of
                             Inl _ \<Rightarrow> cp_results s
                           | Inr c' \<Rightarrow> store_set (tk_result_sender t) c' (cp_results s)),
                         cp_sent := cp_sent s @ [(t, r)]\<rparr>))))
      | CpDrop t \<Rightarrow>
          Some (set_worker w CpTop
            (s\<lparr>cp_results := store_upd (tk_result_sender t) (ch_drop_sender rapi) (cp_results s)\<rparr>))
      | CpExited \<Rightarrow> None)"

section \<open>Shutting down\<close>

text \<open>
  \<open>shutdown\<close> raises the stop flag, drops the pool's sender and then joins the workers:
  it returns once all of them left the loop.
\<close>

definition pool_raise_stop :: "('q, 'c, 'v) cpool \<Rightarrow> ('q, 'c, 'v) cpool" where
  "pool_raise_stop s = s\<lparr>cp_stop := True\<rparr>"

definition pool_take_sender ::
  "('q, 'v task) chan_api \<Rightarrow> ('q, 'c, 'v) cpool \<Rightarrow> ('q, 'c, 'v) cpool" where
  "pool_take_sender qapi s =
     (if cp_sender s then s\<lparr>cp_sender := False, cp_queue := ch_drop_sender qapi (cp_queue s)\<rparr>
      else s)"

definition pool_joined :: "('q, 'c, 'v) cpool \<Rightarrow> bool" where
  "pool_joined s \<longleftrightarrow> list_all (\<lambda>p. p = CpExited) (cp_workers s)"

section \<open>Steps\<close>

text \<open>
  The senders beside the pool's own: each actor context holds a clone, which it submits
  through and drops with the actor's loop.
\<close>

definition sender_clones :: "('q \<Rightarrow> 'v task chan_view) \<Rightarrow> ('q, 'c, 'v) cpool \<Rightarrow> nat" where
  "sender_clones qview s = cv_senders (qview (cp_queue s)) - (if cp_sender s then 1 else 0)"

inductive cp_step ::
  "('q, 'v task) chan_api \<Rightarrow> ('q \<Rightarrow> 'v task chan_view) \<Rightarrow> ('c, 'v compute_result) chan_api
    \<Rightarrow> ('q, 'c, 'v) cpool \<Rightarrow> ('q, 'c, 'v) cpool \<Rightarrow> bool"
  for qapi qview rapi where
  work: "w < length (cp_workers s) \<Longrightarrow> worker_next qapi qview rapi w s = Some t \<Longrightarrow>
     cp_step qapi qview rapi s t"
| spawn: "compute_spawn qapi rapi now job s = Some (r, t) \<Longrightarrow> cp_step qapi qview rapi s t"
| actor_spawn: "make_task rapi now job s = (tk, s1) \<Longrightarrow> submit_task qapi rapi tk s1 = Some (r, t) \<Longrightarrow>
     sender_clones qview s > 0 \<Longrightarrow> cp_step qapi qview rapi s t"
| cancel: "cp_step qapi qview rapi s (s\<lparr>cp_raised := handle_cancel h (cp_raised s)\<rparr>)"
| read: "st_map (cp_results s) r = Some c \<Longrightarrow> ch_try_recv rapi c = Inr (m, c')
       \<or> ch_recv rapi c = Some (Inr (m, c')) \<or> ch_recv_timeout rapi c = Inr (m, c') \<Longrightarrow>
     cp_step qapi qview rapi s (s\<lparr>cp_results := store_set r c' (cp_results s)\<rparr>)"
| forget: "cp_step qapi qview rapi s
     (s\<lparr>cp_results := store_upd r (ch_drop_receiver rapi) (cp_results s)\<rparr>)"
| raise_stop: "cp_step qapi qview rapi s (pool_raise_stop s)"
| take_sender: "cp_step qapi qview rapi s (pool_take_sender qapi s)"
| clone_sender: "cp_sender s \<Longrightarrow>
     cp_step qapi qview rapi s (s\<lparr>cp_queue := ch_clone_sender qapi (cp_queue s)\<rparr>)"
| drop_clone: "sender_clones qview s > 0 \<Longrightarrow>
     cp_step qapi qview rapi s (s\<lparr>cp_queue := ch_drop_sender qapi (cp_queue s)\<rparr>)"

inductive_cases cp_stepE: "cp_step qapi qview rapi s t"

definition cp_init ::
  "('q, 'v task) chan_api \<Rightarrow> ('q, 'c, 'v) cpool \<Rightarrow> bool" where
  "cp_init qapi s \<longleftrightarrow> (\<exists>config counter. compute_new qapi config store_empty counter = Inr s)"

end
