(* ===== verification/TimerTypes.thy ===== *)
theory TimerTypes
  imports ActorTypes
begin

text \<open>
  \<open>src/timer/types.rs\<close> and the identifiers and entries of \<open>src/timer/service.rs\<close>.
  Both files define a \<open>TimerId\<close> of their own with a counter of its own; each operation
  that reads the clock is given the reading.
\<close>

section \<open>Identifiers\<close>

datatype timer_id = TimerId (timer_raw: u64)

definition timer_id_new :: "u64 \<Rightarrow> timer_id \<times> u64" where
  "timer_id_new counter = (let (old, counter') = fetch_add1 counter in (TimerId old, counter'))"

datatype types_timer_id = TypesTimerId (types_timer_raw: u64)

definition types_timer_id_new :: "u64 \<Rightarrow> types_timer_id \<times> u64" where
  "types_timer_id_new counter =
     (let (old, counter') = fetch_add1 counter in (TypesTimerId old, counter'))"

interpretation timer_ids: id_source timer_id_new "\<lambda>c. c" timer_raw
  by unfold_locales (simp_all add: timer_id_new_def fetch_add1_def)

interpretation types_timer_ids: id_source types_timer_id_new "\<lambda>c. c" types_timer_raw
  by unfold_locales (simp_all add: types_timer_id_new_def fetch_add1_def)

section \<open>Timer\<close>

text \<open>The public configuration record, which no function of the crate takes.\<close>

record 'v timer_config =
  tc_id :: types_timer_id
  tc_actor_id :: actor_id
  tc_scheduled_at :: instant
  tc_message :: "'v any"
  tc_interval :: "duration option"

record 'v timer =
  t_id :: types_timer_id
  t_actor_id :: actor_id
  t_scheduled_at :: instant
  t_message :: "'v any"
  t_interval :: "duration option"

text \<open>
  The constructors; the clock reading is \<open>now\<close>. They panic when the due time is not an
  \<open>Instant\<close>.
\<close>

definition timer_after ::
  "instant \<Rightarrow> duration \<Rightarrow> actor_id \<Rightarrow> 'v any \<Rightarrow> u64 \<Rightarrow> 'v timer rust \<times> u64" where
  "timer_after now d a m counter =
     (let (i, counter') = types_timer_id_new counter in
      (case instant_add now d of
         Panicked \<Rightarrow> Panicked
       | Ret due \<Rightarrow> Ret \<lparr>t_id = i, t_actor_id = a, t_scheduled_at = due, t_message = m,
                       t_interval = None\<rparr>, counter'))"

definition timer_every ::
  "instant \<Rightarrow> duration \<Rightarrow> actor_id \<Rightarrow> 'v any \<Rightarrow> u64 \<Rightarrow> 'v timer rust \<times> u64" where
  "timer_every now d a m counter =
     (let (i, counter') = types_timer_id_new counter in
      (case instant_add now d of
         Panicked \<Rightarrow> Panicked
       | Ret due \<Rightarrow> Ret \<lparr>t_id = i, t_actor_id = a, t_scheduled_at = due, t_message = m,
                       t_interval = Some d\<rparr>, counter'))"

definition timer_is_due :: "instant \<Rightarrow> 'v timer \<Rightarrow> bool" where
  "timer_is_due now t \<longleftrightarrow> now \<ge> t_scheduled_at t"

definition timer_is_periodic :: "'v timer \<Rightarrow> bool" where
  "timer_is_periodic t \<longleftrightarrow> t_interval t \<noteq> None"

definition timer_reschedule :: "instant \<Rightarrow> 'v timer \<Rightarrow> 'v timer rust" where
  "timer_reschedule now t =
     (case t_interval t of
        None \<Rightarrow> Ret t
      | Some d \<Rightarrow>
          (case instant_add now d of
             Panicked \<Rightarrow> Panicked
           | Ret due \<Rightarrow> Ret (t\<lparr>t_scheduled_at := due\<rparr>)))"

text \<open>
  A timer made by \<open>after\<close> or \<open>every\<close> becomes due exactly when its delay has passed,
  and a periodic timer that is rescheduled becomes due one interval after the clock
  reading of the rescheduling, not of its previous due time; a one-shot timer is left
  alone.
\<close>

theorem timer_due_times:
  assumes "now + d \<le> instant_max" and "later + d \<le> instant_max"
  shows "\<exists>t p. fst (timer_after now d a m c) = Ret t \<and> fst (timer_every now d a m c') = Ret p
    \<and> (timer_is_due when t \<longleftrightarrow> now + d \<le> when) \<and> (timer_is_due when p \<longleftrightarrow> now + d \<le> when)
    \<and> \<not> timer_is_periodic t \<and> timer_is_periodic p
    \<and> timer_reschedule later t = Ret t
    \<and> timer_reschedule later p = Ret (p\<lparr>t_scheduled_at := later + d\<rparr>)"
  using assms
  by (simp add: instant_add_fits timer_after_def timer_every_def timer_is_due_def
      timer_is_periodic_def timer_reschedule_def types_timer_id_new_def fetch_add1_def Let_def)

theorem timer_due_times_witness:
  "\<exists>p. fst (timer_every 100 50 (ActorId 1) (Any 0 True) 0) = Ret p
    \<and> \<not> timer_is_due 149 p \<and> timer_reschedule 170 p = Ret (p\<lparr>t_scheduled_at := 220\<rparr>)"
proof -
  have "(100::nat) + 50 \<le> instant_max" "(170::nat) + 50 \<le> instant_max"
    by (simp_all add: time_defs)
  from timer_due_times [OF this, of "ActorId 1" "Any 0 True" 0 0 149] show ?thesis by auto
qed

end
