(* ===== verification/TimerService.thy ===== *)
theory TimerService
  imports TimerTypes Network
begin

text \<open>
  \<open>src/timer/service.rs\<close>: the list of scheduled timers behind its mutex, the operations
  of \<open>TimerHandle\<close> and \<open>TimerService\<close> on it, and the thread that delivers due timers.
  An operation that panics while it holds the mutex poisons it, after which every
  \<open>lock().unwrap()\<close> panics.
\<close>

section \<open>Entries and operations\<close>

text \<open>
  The message factory of an entry: the one-shot closure takes its message out of an
  \<open>Option\<close> and panics when it is gone; the periodic one clones its message.
\<close>

datatype 'v factory = OneShot "'v any option" | Repeating "'v any"

fun call_factory :: "'v factory \<Rightarrow> ('v any \<times> 'v factory) rust" where
  "call_factory (OneShot (Some m)) = Ret (m, OneShot None)"
| "call_factory (OneShot None) = Panicked"
| "call_factory (Repeating m) = Ret (m, Repeating m)"

record 'v timer_entry =
  te_id :: timer_id
  te_actor_id :: actor_id
  te_scheduled_at :: instant
  te_factory :: "'v factory"
  te_interval :: "duration option"

record 'v timers =
  tm_entries :: "'v timer_entry list"
  tm_poisoned :: bool
  tm_counter :: u64  \<comment> \<open>the counter of \<open>TimerId::new\<close>\<close>

definition timers_new :: "'v timers" where
  "timers_new = \<lparr>tm_entries = [], tm_poisoned = False, tm_counter = 0\<rparr>"

text \<open>
  The body the four scheduling functions share: a fresh id, the lock, and then the push
  of an entry whose due time is computed while the lock is held.
\<close>

definition add_timer ::
  "instant \<Rightarrow> duration \<Rightarrow> actor_id \<Rightarrow> 'v factory \<Rightarrow> duration option \<Rightarrow> 'v timers
    \<Rightarrow> timer_id rust \<times> 'v timers" where
  "add_timer now d a f interval s =
     (let (i, counter) = timer_id_new (tm_counter s); s1 = s\<lparr>tm_counter := counter\<rparr> in
      if tm_poisoned s then (Panicked, s1)
      else case instant_add now d of
        Panicked \<Rightarrow> (Panicked, s1\<lparr>tm_poisoned := True\<rparr>)
      | Ret due \<Rightarrow>
          (Ret i, s1\<lparr>tm_entries := tm_entries s @
             [\<lparr>te_id = i, te_actor_id = a, te_scheduled_at = due, te_factory = f,
               te_interval = interval\<rparr>]\<rparr>))"

definition handle_schedule_timer ::
  "instant \<Rightarrow> duration \<Rightarrow> actor_id \<Rightarrow> 'v any \<Rightarrow> 'v timers \<Rightarrow> timer_id rust \<times> 'v timers" where
  "handle_schedule_timer now d a m = add_timer now d a (OneShot (Some m)) None"

definition handle_schedule_interval ::
  "instant \<Rightarrow> duration \<Rightarrow> actor_id \<Rightarrow> 'v any \<Rightarrow> 'v timers \<Rightarrow> timer_id rust \<times> 'v timers" where
  "handle_schedule_interval now d a m = add_timer now d a (Repeating m) (Some d)"

definition service_schedule ::
  "instant \<Rightarrow> duration \<Rightarrow> actor_id \<Rightarrow> 'v any \<Rightarrow> 'v timers \<Rightarrow> timer_id rust \<times> 'v timers" where
  "service_schedule now d a m = add_timer now d a (OneShot (Some m)) None"

definition service_schedule_interval ::
  "instant \<Rightarrow> duration \<Rightarrow> actor_id \<Rightarrow> 'v factory \<Rightarrow> 'v timers \<Rightarrow> timer_id rust \<times> 'v timers"
where
  "service_schedule_interval now d a f = add_timer now d a f (Some d)"

text \<open>\<open>cancel\<close> and \<open>cancel_timer\<close> keep the entries with another id.\<close>

definition cancel_timer :: "timer_id \<Rightarrow> 'v timers \<Rightarrow> unit rust \<times> 'v timers" where
  "cancel_timer i s =
     (if tm_poisoned s then (Panicked, s)
      else (Ret (), s\<lparr>tm_entries := filter (\<lambda>t. te_id t \<noteq> i) (tm_entries s)\<rparr>))"

section \<open>Collecting the due timers\<close>

text \<open>
  The scan of the timer thread: \<open>remove(i)\<close> on a due entry, \<open>i += 1\<close> on another.
\<close>

definition entry_due :: "instant \<Rightarrow> 'v timer_entry \<Rightarrow> bool" where
  "entry_due now e \<longleftrightarrow> now \<ge> te_scheduled_at e"

function collect_due ::
  "instant \<Rightarrow> nat \<Rightarrow> 'v timer_entry list \<Rightarrow> 'v timer_entry list
    \<Rightarrow> 'v timer_entry list \<times> 'v timer_entry list" where
  "collect_due now i timers due =
     (if i < length timers then
        if entry_due now (timers ! i)
        then collect_due now i (take i timers @ drop (Suc i) timers) (due @ [timers ! i])
        else collect_due now (Suc i) timers due
      else (due, timers))"
  by pat_completeness auto
termination
  by (relation "measure (\<lambda>(now, i, timers, due). length timers - i)") auto

declare collect_due.simps [simp del]

lemma collect_due_filter:
  "collect_due now i ts due =
     (due @ filter (entry_due now) (drop i ts),
      take i ts @ filter (\<lambda>e. \<not> entry_due now e) (drop i ts))"
proof (induction now i ts due rule: collect_due.induct)
  case (1 now i ts due)
  show ?case
  proof (cases "i < length ts")
    case False
    then show ?thesis by (simp add: collect_due.simps [of now i ts due])
  next
    case True
    then have d: "drop i ts = ts ! i # drop (Suc i) ts" by (rule Cons_nth_drop_Suc [symmetric])
    show ?thesis
    proof (cases "entry_due now (ts ! i)")
      case due: True
      with True 1(1) show ?thesis
        by (simp add: collect_due.simps [of now i ts due] d min_def)
    next
      case rest: False
      with True 1(2) show ?thesis
        by (simp add: collect_due.simps [of now i ts due] d take_Suc_conv_app_nth)
    qed
  qed
qed

text \<open>
  C33: The scan removes exactly the entries whose time has come, in list order, and
  leaves the others in list order: the index loop with its removals computes the two
  filters of the list.
\<close>

theorem collect_due_partition:
  "collect_due now 0 ts [] =
     (filter (\<lambda>e. te_scheduled_at e \<le> now) ts, filter (\<lambda>e. now < te_scheduled_at e) ts)"
  by (simp add: collect_due_filter entry_due_def [abs_def] not_le)

section \<open>The timer thread\<close>

text \<open>
  The loop of \<open>run\<close>, cut at the points between its critical sections. While one due
  timer is being delivered the others are in the thread's hands; a periodic timer that
  was delivered is pushed back in a critical section of its own.
\<close>

datatype 'v tphase =
    TkTop
  | TkScan instant
  | TkDeliver "'v timer_entry list"
  | TkRearm "'v timer_entry" "'v timer_entry list"
  | TkStopped
  | TkDead  \<comment> \<open>the thread was unwound by a panic\<close>

record ('c, 'v) tsys =
  ty_timers :: "'v timers"
  ty_net :: "'c net"
  ty_phase :: "'v tphase"
  ty_stop :: bool
  ty_fired :: "(timer_id \<times> instant \<times> instant) list"
    \<comment> \<open>history: the timer, its due time and the clock reading of the scan it was found by\<close>
  ty_now :: instant  \<comment> \<open>the clock reading of the current scan\<close>
  ty_created :: nat  \<comment> \<open>history: how many ids were handed out\<close>
  ty_one_shots :: "timer_id set"  \<comment> \<open>history: the ids given to one-shot timers\<close>

definition ty_init :: "('c, 'v) tsys \<Rightarrow> bool" where
  "ty_init s \<longleftrightarrow> ty_timers s = timers_new \<and> ty_phase s = TkTop \<and> \<not> ty_stop s
     \<and> ty_fired s = [] \<and> ty_created s = 0 \<and> ty_one_shots s = {}"

text \<open>
  Delivering one due timer: the factory, the sender lookup (whose lock must not be
  poisoned) and the blocking send; a missing or disconnected mailbox loses the message
  silently. \<open>None\<close> while the send waits for space.
\<close>

definition deliver ::
  "('c, 'v envelope) chan_api \<Rightarrow> 'v timer_entry \<Rightarrow> 'c net
    \<Rightarrow> ('v timer_entry rust \<times> 'c net) option" where
  "deliver api e n =
     (case call_factory (te_factory e) of
        Panicked \<Rightarrow> Some (Panicked, n)
      | Ret (m, f) \<Rightarrow>
          if nt_poisoned n then Some (Panicked, n)
          else (case find_sender (te_actor_id e) n of
             Inl err \<Rightarrow> Some (Ret (e\<lparr>te_factory := f\<rparr>), n)
           | Inr (r, c) \<Rightarrow>
               (case net_send api (te_actor_id e) (Message m) n of
                  None \<Rightarrow> None
                | Some (res, n') \<Rightarrow> Some (Ret (e\<lparr>te_factory := f\<rparr>), n'))))"

text \<open>Pushing a delivered periodic timer back, one interval after its last due time.\<close>

definition rearm :: "'v timer_entry \<Rightarrow> duration \<Rightarrow> 'v timers \<Rightarrow> unit rust \<times> 'v timers" where
  "rearm e interval s =
     (if tm_poisoned s then (Panicked, s)
      else case instant_add (te_scheduled_at e) interval of
        Panicked \<Rightarrow> (Panicked, s\<lparr>tm_poisoned := True\<rparr>)
      | Ret due \<Rightarrow> (Ret (), s\<lparr>tm_entries := tm_entries s @ [e\<lparr>te_scheduled_at := due\<rparr>]\<rparr>))"

inductive ty_step :: "('c, 'v envelope) chan_api \<Rightarrow> ('c, 'v) tsys \<Rightarrow> ('c, 'v) tsys \<Rightarrow> bool"
  for api where
  stopped: "ty_phase s = TkTop \<Longrightarrow> ty_stop s \<Longrightarrow>
     ty_step api s (s\<lparr>ty_phase := TkStopped\<rparr>)"
| read_clock: "ty_phase s = TkTop \<Longrightarrow> \<not> ty_stop s \<Longrightarrow>
     ty_step api s (s\<lparr>ty_phase := TkScan now\<rparr>)"
| scan: "ty_phase s = TkScan now \<Longrightarrow> \<not> tm_poisoned (ty_timers s) \<Longrightarrow>
     collect_due now 0 (tm_entries (ty_timers s)) [] = (due, rest) \<Longrightarrow>
     ty_step api s (s\<lparr>ty_phase := TkDeliver due, ty_now := now,
       ty_timers := (ty_timers s)\<lparr>tm_entries := rest\<rparr>\<rparr>)"
| scan_dead: "ty_phase s = TkScan now \<Longrightarrow> tm_poisoned (ty_timers s) \<Longrightarrow>
     ty_step api s (s\<lparr>ty_phase := TkDead\<rparr>)"
| sleep: "ty_phase s = TkDeliver [] \<Longrightarrow> ty_step api s (s\<lparr>ty_phase := TkTop\<rparr>)"
| fire: "ty_phase s = TkDeliver (e # es) \<Longrightarrow>
     deliver api e (ty_net s) = Some (Ret e', n) \<Longrightarrow>
     ty_step api s (s\<lparr>ty_net := n, ty_phase := TkRearm e' es,
       ty_fired := ty_fired s @ [(te_id e, te_scheduled_at e, ty_now s)]\<rparr>)"
| fire_dead: "ty_phase s = TkDeliver (e # es) \<Longrightarrow>
     deliver api e (ty_net s) = Some (Panicked, n) \<Longrightarrow>
     ty_step api s (s\<lparr>ty_net := n, ty_phase := TkDead\<rparr>)"
| dropped: "ty_phase s = TkRearm e es \<Longrightarrow> te_interval e = None \<Longrightarrow>
     ty_step api s (s\<lparr>ty_phase := TkDeliver es\<rparr>)"
| again: "ty_phase s = TkRearm e es \<Longrightarrow> te_interval e = Some d \<Longrightarrow>
     rearm e d (ty_timers s) = (Ret (), ts) \<Longrightarrow>
     ty_step api s (s\<lparr>ty_timers := ts, ty_phase := TkDeliver es\<rparr>)"
| again_dead: "ty_phase s = TkRearm e es \<Longrightarrow> te_interval e = Some d \<Longrightarrow>
     rearm e d (ty_timers s) = (Panicked, ts) \<Longrightarrow>
     ty_step api s (s\<lparr>ty_timers := ts, ty_phase := TkDead\<rparr>)"
| one_shot: "handle_schedule_timer now d a m (ty_timers s) = (r, ts) \<Longrightarrow>
     ty_step api s (s\<lparr>ty_timers := ts, ty_created := Suc (ty_created s),
       ty_one_shots := insert (TimerId (tm_counter (ty_timers s))) (ty_one_shots s)\<rparr>)"
| periodic: "handle_schedule_interval now d a m (ty_timers s) = (r, ts) \<Longrightarrow>
     ty_step api s (s\<lparr>ty_timers := ts, ty_created := Suc (ty_created s)\<rparr>)"
| cancel: "cancel_timer i (ty_timers s) = (r, ts) \<Longrightarrow>
     ty_step api s (s\<lparr>ty_timers := ts\<rparr>)"
| shutdown: "ty_step api s (s\<lparr>ty_stop := True\<rparr>)"
| network: "ty_step api s (s\<lparr>ty_net := n\<rparr>)"

inductive_cases ty_stepE: "ty_step api s t"

text \<open>
  The thread alone, as a function of the clock reading it takes: \<open>None\<close> while it waits in a
  send or when it has ended.
\<close>

definition timer_next ::
  "('c, 'v envelope) chan_api \<Rightarrow> instant \<Rightarrow> ('c, 'v) tsys \<Rightarrow> ('c, 'v) tsys option" where
  "timer_next api reading s =
     (case ty_phase s of
        TkTop \<Rightarrow> Some (s\<lparr>ty_phase := if ty_stop s then TkStopped else TkScan reading\<rparr>)
      | TkScan now \<Rightarrow>
          if tm_poisoned (ty_timers s) then Some (s\<lparr>ty_phase := TkDead\<rparr>)
          else (case collect_due now 0 (tm_entries (ty_timers s)) [] of (due, rest) \<Rightarrow>
            Some (s\<lparr>ty_phase := TkDeliver due, ty_now := now,
              ty_timers := (ty_timers s)\<lparr>tm_entries := rest\<rparr>\<rparr>))
      | TkDeliver [] \<Rightarrow> Some (s\<lparr>ty_phase := TkTop\<rparr>)
      | TkDeliver (e # es) \<Rightarrow>
          (case deliver api e (ty_net s) of
             None \<Rightarrow> None
           | Some (Panicked, n) \<Rightarrow> Some (s\<lparr>ty_net := n, ty_phase := TkDead\<rparr>)
           | Some (Ret e', n) \<Rightarrow> Some (s\<lparr>ty_net := n, ty_phase := TkRearm e' es,
               ty_fired := ty_fired s @ [(te_id e, te_scheduled_at e, ty_now s)]\<rparr>))
      | TkRearm e es \<Rightarrow>
          (case te_interval e of
             None \<Rightarrow> Some (s\<lparr>ty_phase := TkDeliver es\<rparr>)
           | Some d \<Rightarrow>
               (case rearm e d (ty_timers s) of
                  (Ret u, ts) \<Rightarrow> Some (s\<lparr>ty_timers := ts, ty_phase := TkDeliver es\<rparr>)
                | (Panicked, ts) \<Rightarrow> Some (s\<lparr>ty_timers := ts, ty_phase := TkDead\<rparr>)))
      | TkStopped \<Rightarrow> None
      | TkDead \<Rightarrow> None)"

lemma timer_next_step:
  assumes "timer_next api reading s = Some t"
  shows "ty_step api s t"
proof (cases "ty_phase s")
  case TkTop
  then show ?thesis
    using assms ty_step.stopped [of s api] ty_step.read_clock [of s api reading]
    by (cases "ty_stop s") (auto simp: timer_next_def)
next
  case (TkScan now)
  then show ?thesis
    using assms ty_step.scan_dead [of s now api]
    by (cases "collect_due now 0 (tm_entries (ty_timers s)) []")
       (auto simp: timer_next_def split: if_splits intro: ty_step.scan)
next
  case (TkDeliver es)
  then show ?thesis
    using assms
    by (cases es)
       (auto simp: timer_next_def split: option.splits rust.splits
         intro: ty_step.sleep ty_step.fire ty_step.fire_dead)
next
  case (TkRearm e es)
  then show ?thesis
    using assms
    by (cases "te_interval e")
       (auto simp: timer_next_def split: prod.splits rust.splits
         intro: ty_step.dropped ty_step.again ty_step.again_dead)
qed (use assms in \<open>simp_all add: timer_next_def\<close>)

end
