(* ===== verification/Context.thy ===== *)
theory Context
  imports Network ComputePool TimerService
begin

text \<open>
  \<open>src/actor/context.rs\<close>: what an actor's handler can do. A context knows its actor and
  holds the services it was given; each operation acts on the shared state of the
  service it uses.
\<close>

record actor_context =
  cx_actor_id :: actor_id
  cx_sender :: chan_ref  \<comment> \<open>the sender of the actor's own mailbox, never used but kept alive\<close>
  cx_senders :: bool  \<comment> \<open>whether the map of senders was set\<close>
  cx_reply_sender :: "chan_ref option"
  cx_compute_sender :: bool
  cx_timer_handle :: bool

definition context_new :: "actor_id \<Rightarrow> chan_ref \<Rightarrow> actor_context" where
  "context_new i r = \<lparr>cx_actor_id = i, cx_sender = r, cx_senders = False, cx_reply_sender = None,
     cx_compute_sender = False, cx_timer_handle = False\<rparr>"

definition set_senders :: "actor_context \<Rightarrow> actor_context" where
  "set_senders cx = cx\<lparr>cx_senders := True\<rparr>"

definition set_reply_sender :: "chan_ref option \<Rightarrow> actor_context \<Rightarrow> actor_context" where
  "set_reply_sender r cx = cx\<lparr>cx_reply_sender := r\<rparr>"

definition set_compute_sender :: "actor_context \<Rightarrow> actor_context" where
  "set_compute_sender cx = cx\<lparr>cx_compute_sender := True\<rparr>"

definition set_timer_handle :: "actor_context \<Rightarrow> actor_context" where
  "set_timer_handle cx = cx\<lparr>cx_timer_handle := True\<rparr>"

text \<open>Sending to another actor, with the blocking send of its mailbox: \<open>None\<close> while it waits.\<close>

definition send_to ::
  "('c, 'v envelope) chan_api \<Rightarrow> actor_context \<Rightarrow> actor_id \<Rightarrow> 'v any \<Rightarrow> 'c net
    \<Rightarrow> ((unit, runtime_error) result \<times> 'c net) option" where
  "send_to api cx target m n =
     (if cx_senders cx then net_send api target (Message m) n else Some (Inl RuntimeStopped, n))"

text \<open>Replying through the reply channel of the request being handled, if it is one.\<close>

definition reply ::
  "('r, 'v any) chan_api \<Rightarrow> actor_context \<Rightarrow> 'v any \<Rightarrow> 'r store
    \<Rightarrow> ((unit, runtime_error) result \<times> 'r store) option" where
  "reply rapi cx m st =
     (case cx_reply_sender cx of
        None \<Rightarrow> Some (Inr (), st)
      | Some r \<Rightarrow>
          (case st_map st r of
             None \<Rightarrow> Some (Inl RuntimeStopped, st)
           | Some c \<Rightarrow>
               (case ch_send rapi m c of
                  None \<Rightarrow> None
                | Some (Inl _) \<Rightarrow> Some (Inl RuntimeStopped, st)
                | Some (Inr c') \<Rightarrow> Some (Inr (), store_set r c' st))))"

definition is_request :: "actor_context \<Rightarrow> bool" where
  "is_request cx \<longleftrightarrow> cx_reply_sender cx \<noteq> None"

definition context_spawn_compute ::
  "('q, 'v task) chan_api \<Rightarrow> ('c, 'v compute_result) chan_api \<Rightarrow> actor_context \<Rightarrow> instant
    \<Rightarrow> 'v outcome \<Rightarrow> ('q, 'c, 'v) cpool
    \<Rightarrow> ((compute_handle, compute_error) result \<times> ('q, 'c, 'v) cpool) option" where
  "context_spawn_compute qapi rapi cx now job s =
     (if cx_compute_sender cx
      then (let (t, s1) = make_task rapi now job s in submit_task qapi rapi t s1)
      else Some (Inl SchedulerShutdown, s))"

text \<open>Timers that deliver to the actor itself.\<close>

definition context_timer_result ::
  "timer_id rust \<times> 'v timers \<Rightarrow> (timer_id, runtime_error) result rust \<times> 'v timers" where
  "context_timer_result x =
     (case x of (Panicked, ts) \<Rightarrow> (Panicked, ts) | (Ret i, ts) \<Rightarrow> (Ret (Inr i), ts))"

definition context_schedule_timer ::
  "actor_context \<Rightarrow> instant \<Rightarrow> duration \<Rightarrow> 'v any \<Rightarrow> 'v timers
    \<Rightarrow> (timer_id, runtime_error) result rust \<times> 'v timers" where
  "context_schedule_timer cx now d m ts =
     (if cx_timer_handle cx
      then context_timer_result (handle_schedule_timer now d (cx_actor_id cx) m ts)
      else (Ret (Inl RuntimeStopped), ts))"

definition context_schedule_interval ::
  "actor_context \<Rightarrow> instant \<Rightarrow> duration \<Rightarrow> 'v any \<Rightarrow> 'v timers
    \<Rightarrow> (timer_id, runtime_error) result rust \<times> 'v timers" where
  "context_schedule_interval cx now d m ts =
     (if cx_timer_handle cx
      then context_timer_result (handle_schedule_interval now d (cx_actor_id cx) m ts)
      else (Ret (Inl RuntimeStopped), ts))"

definition context_cancel_timer :: "actor_context \<Rightarrow> timer_id \<Rightarrow> 'v timers \<Rightarrow> unit rust \<times> 'v timers" where
  "context_cancel_timer cx i ts = (if cx_timer_handle cx then cancel_timer i ts else (Ret (), ts))"

section \<open>Sending and replying\<close>

text \<open>What the two sends of the network do, by the laws of the channels.\<close>

lemma net_send_cases:
  assumes "chan api view" and "find_sender target n = Inr (r, c)" and "buffered (view c)"
  shows "if cv_receivers (view c) = 0 then net_send api target env n = Some (Inl RuntimeStopped, n)
    else if cv_full (view c) then net_send api target env n = None
    else (\<exists>c'. net_send api target env n = Some (Inr (), put_channel r c' n)
      \<and> view c' = (view c)\<lparr>cv_queue := cv_queue (view c) @ [env]\<rparr>)"
  using assms chan.send_gone [OF assms(1), of c env] chan.send_waits [OF assms(1), of c env]
    chan.send_accepts [OF assms(1), of c env]
  by (auto simp: net_send_def buffered_def) blast

lemma net_try_send_cases:
  assumes "chan api view" and "find_sender target n = Inr (r, c)" and "buffered (view c)"
  shows "if cv_receivers (view c) = 0 then net_try_send api target env n = (Inl RuntimeStopped, n)
    else if cv_full (view c) then net_try_send api target env n = (Inl (MailboxFull target), n)
    else (\<exists>c'. net_try_send api target env n = (Inr (), put_channel r c' n)
      \<and> view c' = (view c)\<lparr>cv_queue := cv_queue (view c) @ [env]\<rparr>)"
  using assms chan.try_send_gone [OF assms(1), of c env] chan.try_send_full [OF assms(1), of c env]
    chan.try_send_accepts [OF assms(1), of c env]
  by (auto simp: net_try_send_def buffered_def) blast

text \<open>
  Sending to an actor whose mailbox is full makes the sending handler wait, its own
  mailbox included: an actor that sends to itself while its mailbox is full waits for
  space that only it could make. With space the message is appended to the target's
  mailbox; an unknown target and a stopped one are errors, and the state is unchanged.
\<close>

theorem send_to_outcomes:
  assumes "chan api view" and "cx_senders cx" and "\<not> nt_poisoned n" and "net_ok n"
    and "\<forall>r c. st_map (nt_store n) r = Some c \<longrightarrow> buffered (view c)"
  shows "case mailbox_of view n target of
      None \<Rightarrow> send_to api cx target m n = Some (Inl (ActorNotFound target), n)
    | Some v \<Rightarrow>
        if cv_receivers v = 0 then send_to api cx target m n = Some (Inl RuntimeStopped, n)
        else if cv_full v then send_to api cx target m n = None
        else (\<exists>n'. send_to api cx target m n = Some (Inr (), n')
          \<and> mailbox_of view n' target = Some (v\<lparr>cv_queue := cv_queue v @ [Message m]\<rparr>))"
proof (cases "nt_senders n target")
  case None
  then show ?thesis
    using assms(2,3) by (simp add: mailbox_of_def send_to_def net_send_def find_sender_def)
next
  case (Some r)
  then obtain c where f: "find_sender target n = Inr (r, c)"
    using find_sender_known [OF assms(4) Some assms(3)] find_sender_Inr_iff by metis
  then have c: "st_map (nt_store n) r = Some c" by (simp add: find_sender_Inr_iff)
  with assms(5) have "buffered (view c)" by blast
  from net_send_cases [OF assms(1) f this, of "Message m"] show ?thesis
    using c Some assms(2) by (auto simp: mailbox_of_def send_to_def)
qed

text \<open>An actor with a mailbox of one place, which is taken.\<close>

definition full_net :: "(bool envelope chan_view) net" where
  "full_net = \<lparr>nt_senders = [ActorId 1 \<mapsto> 0], nt_poisoned = False,
     nt_store = \<lparr>st_map = [0 \<mapsto> ref_push (Message (Any 0 True)) (ch_bounded ref_api 1)], st_next = 1\<rparr>\<rparr>"

definition self_context :: actor_context where
  "self_context = set_senders (context_new (ActorId 1) 0)"

theorem send_to_outcomes_witness:
  "send_to ref_api self_context (cx_actor_id self_context) (Any 0 False) full_net = None
    \<and> send_to ref_api self_context (ActorId 2) (Any 0 False) full_net
      = Some (Inl (ActorNotFound (ActorId 2)), full_net)"
proof -
  have p: "cx_senders self_context" "\<not> nt_poisoned full_net" "net_ok full_net"
    "\<forall>r c. st_map (nt_store full_net) r = Some c \<longrightarrow> buffered c"
    by (auto simp: self_context_def set_senders_def full_net_def net_ok_def store_ok_def buffered_def
        ref_defs split: if_splits)
  have "mailbox_of (\<lambda>v. v) full_net (ActorId 2) = None"
    "mailbox_of (\<lambda>v. v) full_net (ActorId 1) = Some (ref_push (Message (Any 0 True)) (ch_bounded ref_api 1))"
    by (simp_all add: mailbox_of_def full_net_def)
  then show ?thesis
    using send_to_outcomes [OF chan_ref p, of "ActorId 1" "Any 0 False"]
      send_to_outcomes [OF chan_ref p, of "ActorId 2" "Any 0 False"]
    by (simp add: self_context_def set_senders_def context_new_def ref_defs)
qed

text \<open>
  C28: \<open>reply\<close> answers the request being handled and nothing else: outside a request it
  does nothing; the first reply to a request goes into its channel, where the caller
  finds it; a second reply before the caller has read the first makes the handler wait,
  and a caller that is gone is reported as \<open>RuntimeStopped\<close>.
\<close>

theorem reply_outcomes:
  assumes "chan rapi view"
  shows "(\<not> is_request cx \<longrightarrow> reply rapi cx m st = Some (Inr (), st))
    \<and> (\<forall>r c. cx_reply_sender cx = Some r \<and> st_map st r = Some c \<and> cv_bound (view c) = Some 1 \<longrightarrow>
        (if cv_receivers (view c) = 0 then reply rapi cx m st = Some (Inl RuntimeStopped, st)
         else if cv_queue (view c) = []
         then (\<exists>c'. reply rapi cx m st = Some (Inr (), store_set r c' st) \<and> cv_queue (view c') = [m]
           \<and> reply rapi cx m' (store_set r c' st) = None)
         else reply rapi cx m st = None))"
proof -
  have "if cv_receivers (view c) = 0 then reply rapi cx m st = Some (Inl RuntimeStopped, st)
         else if cv_queue (view c) = []
         then (\<exists>c'. reply rapi cx m st = Some (Inr (), store_set r c' st) \<and> cv_queue (view c') = [m]
           \<and> reply rapi cx m' (store_set r c' st) = None)
         else reply rapi cx m st = None"
    if r: "cx_reply_sender cx = Some r" and c: "st_map st r = Some c" and b: "cv_bound (view c) = Some 1" for r c
  proof -
    consider "cv_receivers (view c) = 0" | "0 < cv_receivers (view c)" "cv_queue (view c) = []"
      | "0 < cv_receivers (view c)" "cv_queue (view c) \<noteq> []" by blast
    then show ?thesis
    proof cases
      case 1
      then show ?thesis using r c chan.send_gone [OF assms] by (simp add: reply_def)
    next
      case 2
      then obtain c' where s: "ch_send rapi m c = Some (Inr c')"
        and v: "view c' = (view c)\<lparr>cv_queue := cv_queue (view c) @ [m]\<rparr>"
        using chan.send_accepts [OF assms, of c m] b by (auto simp: cv_full_def)
      have "ch_send rapi m' c' = None"
        using chan.send_waits [OF assms, of c' m'] v b 2 by (simp add: cv_full_def)
      then show ?thesis using r c s v 2 by (auto simp: reply_def)
    next
      case 3
      then have "cv_full (view c)" using b by (cases "cv_queue (view c)") (auto simp: cv_full_def)
      then show ?thesis using r c b 3 chan.send_waits [OF assms, of c m] by (simp add: reply_def)
    qed
  qed
  moreover have "\<not> is_request cx \<longrightarrow> reply rapi cx m st = Some (Inr (), st)"
    by (simp add: is_request_def reply_def)
  ultimately show ?thesis by blast
qed

theorem reply_outcomes_witness:
  "\<exists>c'. reply ref_api (set_reply_sender (Some 0) (context_new (ActorId 1) 0)) (Any 3 (7::nat))
      \<lparr>st_map = [0 \<mapsto> ch_bounded ref_api 1], st_next = 1\<rparr>
    = Some (Inr (), store_set 0 c' \<lparr>st_map = [0 \<mapsto> ch_bounded ref_api 1], st_next = 1\<rparr>)
    \<and> cv_queue c' = [Any 3 7]"
proof -
  let ?cx = "set_reply_sender (Some 0) (context_new (ActorId 1) 0)"
  let ?st = "\<lparr>st_map = [0 \<mapsto> ch_bounded ref_api 1], st_next = 1\<rparr> :: nat any chan_view store"
  have "cx_reply_sender ?cx = Some 0 \<and> st_map ?st 0 = Some (ch_bounded ref_api 1)
      \<and> cv_bound (ch_bounded ref_api 1 :: nat any chan_view) = Some 1"
    "cv_receivers (ch_bounded ref_api 1 :: nat any chan_view) \<noteq> 0"
    "cv_queue (ch_bounded ref_api 1 :: nat any chan_view) = []"
    by (simp_all add: set_reply_sender_def ref_api_def)
  with reply_outcomes [OF chan_ref, of ?cx "Any 3 (7::nat)" ?st] show ?thesis by metis
qed

end
