(* ===== verification/RunQueue.thy ===== *)
theory RunQueue
  imports Fifo
begin

text \<open>
  \<open>src/scheduler/run_queue.rs\<close>, \<open>src/scheduler/worker.rs\<close> and
  \<open>src/scheduler/reduction.rs\<close>: the queue of tasks a worker owns, the thief's side of
  stealing, and the counter that makes an actor yield. Tasks are opaque here: a task
  is whatever was handed to \<open>push\<close>. No code that can panic runs inside the queue's
  lock, so the lock is never poisoned and \<open>lock().unwrap()\<close> returns.
\<close>

section \<open>RunQueue\<close>

type_synonym 't run_queue = "'t list"

definition rq_new :: "'t run_queue" where
  "rq_new = []"

definition rq_push :: "'t \<Rightarrow> 't run_queue \<Rightarrow> 't run_queue" where
  "rq_push t q = q @ [t]"

definition rq_pop :: "'t run_queue \<Rightarrow> 't option \<times> 't run_queue" where
  "rq_pop q = (case q of [] \<Rightarrow> (None, []) | t # ts \<Rightarrow> (Some t, ts))"

definition rq_is_empty :: "'t run_queue \<Rightarrow> bool" where
  "rq_is_empty q = (q = [])"

definition rq_len :: "'t run_queue \<Rightarrow> nat" where
  "rq_len q = length q"

text \<open>The stolen batch is the front of the queue, half of it rounded down.\<close>

definition rq_steal_half :: "'t run_queue \<Rightarrow> 't list \<times> 't run_queue" where
  "rq_steal_half q =
     (let len = length q in
      if len \<le> 1 then ([], q)
      else (let steal_count = len div 2 in (take steal_count q, drop steal_count q)))"

lemmas rq_defs = rq_new_def rq_push_def rq_pop_def rq_is_empty_def rq_len_def
  rq_steal_half_def

interpretation rq: stealing "\<lambda>_. True" "\<lambda>q. q" rq_pop rq_push rq_steal_half
  by unfold_locales (auto simp: rq_defs Let_def split: list.splits)

lemma steal_half_lengths:
  "length (fst (rq_steal_half q)) = length q div 2
    \<and> length (snd (rq_steal_half q)) = length q - length q div 2"
  by (auto simp: rq_steal_half_def Let_def min_def)

lemma steal_half_leaves: "snd (rq_steal_half q) = [] \<longleftrightarrow> q = []"
  by (auto simp: rq_steal_half_def Let_def)

lemma steal_half_empty_iff: "fst (rq_steal_half q) = [] \<longleftrightarrow> length q \<le> 1"
  using steal_half_lengths [of q] by (auto simp: rq_steal_half_def Let_def)

section \<open>Worker\<close>

record 't worker =
  wk_id :: nat
  wk_queue :: "'t run_queue"

definition worker_new :: "nat \<Rightarrow> 't worker" where
  "worker_new i = \<lparr>wk_id = i, wk_queue = rq_new\<rparr>"

text \<open>\<open>steal_from\<close> takes half of the victim and pushes the batch one by one.\<close>

definition steal_from ::
  "'t worker \<Rightarrow> 't run_queue \<Rightarrow> nat \<times> 't worker \<times> 't run_queue" where
  "steal_from w victim =
     (let (stolen, victim') = rq_steal_half victim;
          count = length stolen
      in (count, w\<lparr>wk_queue := fold rq_push stolen (wk_queue w)\<rparr>, victim'))"

text \<open>
  Stealing neither loses nor duplicates nor reorders tasks. The thief's queue grows
  by the front half of the victim's queue (rounded down) in the same order, the victim
  keeps the rest, the count returned is the number of tasks moved, and a non-empty
  victim always keeps at least one task.
\<close>

theorem steal_from_conserves:
  assumes "steal_from w v = (n, w', v')"
  shows "n = length v div 2
    \<and> wk_queue w' = wk_queue w @ take n v \<and> v' = drop n v \<and> wk_id w' = wk_id w
    \<and> mset (wk_queue w') + mset v' = mset (wk_queue w) + mset v
    \<and> (v \<noteq> [] \<longrightarrow> v' \<noteq> [])"
proof -
  obtain st where st: "rq_steal_half v = (st, v')" and n: "n = length st"
    and w': "w' = w\<lparr>wk_queue := fold rq_push st (wk_queue w)\<rparr>"
    using assms by (auto simp: steal_from_def Let_def split: prod.splits)
  have len: "n = length v div 2" and split: "st @ v' = v"
    using steal_half_lengths [of v] rq.steal_split [of v] by (simp_all add: st n)
  have q: "wk_queue w' = wk_queue w @ st"
    by (simp add: w' rq.push_all)
  have parts: "st = take n v" "v' = drop n v"
    using split n by auto
  have kept: "mset (wk_queue w') + mset v' = mset (wk_queue w) + mset v"
    unfolding q split [symmetric] by simp
  have rest: "v \<noteq> [] \<longrightarrow> v' \<noteq> []"
    using steal_half_leaves [of v] by (simp add: st)
  have "wk_id w' = wk_id w" by (simp add: w')
  with len q parts kept rest show ?thesis by metis
qed

theorem steal_from_conserves_witness:
  "steal_from \<lparr>wk_id = 0, wk_queue = [1]\<rparr> [2, 3, 4 :: int]
     = (1, \<lparr>wk_id = 0, wk_queue = [1, 2]\<rparr>, [3, 4])
   \<and> mset [1, 2] + mset [3, 4] = mset [1] + mset [2, 3, 4 :: int]"
proof -
  have h: "steal_from \<lparr>wk_id = 0, wk_queue = [1]\<rparr> [2, 3, 4 :: int]
     = (1, \<lparr>wk_id = 0, wk_queue = [1, 2]\<rparr>, [3, 4])"
    by (simp add: steal_from_def rq_defs Let_def)
  from steal_from_conserves [OF h] show ?thesis by (simp add: h)
qed

section \<open>ReductionCounter\<close>

definition max_reductions :: u64 where
  "max_reductions = 4000"

type_synonym reduction_counter = u64

definition rc_new :: reduction_counter where
  "rc_new = 0"

text \<open>\<open>fetch_add\<close> returns the value before the addition.\<close>

definition rc_increment :: "reduction_counter \<Rightarrow> u64 \<times> reduction_counter" where
  "rc_increment c = fetch_add1 c"

definition rc_reset :: "reduction_counter \<Rightarrow> reduction_counter" where
  "rc_reset c = 0"

definition rc_should_preempt :: "reduction_counter \<Rightarrow> bool" where
  "rc_should_preempt c \<longleftrightarrow> c \<ge> max_reductions"

lemmas rc_defs = max_reductions_def rc_new_def rc_increment_def rc_reset_def
  rc_should_preempt_def fetch_add1_def

text \<open>
  The use the actor loop of \<open>src/runtime.rs\<close> makes of it after each message it has
  received: whether the worker yields, and the counter afterwards.
\<close>

definition reduction_tick :: "reduction_counter \<Rightarrow> bool \<times> reduction_counter" where
  "reduction_tick c =
     (let (old, c') = rc_increment c in
      if old \<ge> max_reductions then (True, rc_reset c') else (False, c'))"

fun reduction_run :: "nat \<Rightarrow> reduction_counter \<Rightarrow> bool list \<times> reduction_counter" where
  "reduction_run 0 c = ([], c)"
| "reduction_run (Suc n) c =
     (let t = reduction_tick c; r = reduction_run n (snd t) in (fst t # fst r, snd r))"

lemmas reduction_run_Suc = reduction_run.simps(2)

declare reduction_run_Suc [simp del]

lemma reduction_tick_of_nat:
  assumes "k \<le> 4000"
  shows "reduction_tick (of_nat k) = (k = 4000, of_nat (Suc k mod 4001))"
proof -
  have "unat (of_nat k :: u64) = k"
    using assms by (intro unat_of_nat_u64) simp
  then have le: "max_reductions \<le> of_nat k \<longleftrightarrow> 4000 \<le> k"
    by (simp add: word_le_nat_alt max_reductions_def)
  show ?thesis
  proof (cases "k = 4000")
    case True
    then show ?thesis
      using le by (simp add: reduction_tick_def rc_increment_def fetch_add1_def rc_reset_def Let_def)
  next
    case False
    with assms have "Suc k mod 4001 = Suc k" by (intro mod_less) linarith
    moreover from False assms have "\<not> 4000 \<le> k" by linarith
    ultimately show ?thesis
      using le False
      by (simp add: reduction_tick_def rc_increment_def fetch_add1_def Let_def add.commute)
  qed
qed

lemma reduction_run_snoc:
  "reduction_run (Suc n) c =
     (let r = reduction_run n c; t = reduction_tick (snd r) in (fst r @ [fst t], snd t))"
proof (induction n arbitrary: c)
  case 0
  then show ?case by (simp add: reduction_run_Suc Let_def)
next
  case (Suc n)
  show ?case
    using Suc.IH [of "snd (reduction_tick c)"] by (simp add: reduction_run_Suc Let_def)
qed

text \<open>
  Counting from a fresh or reset counter, the worker yields after exactly every
  4001st message (one more than \<open>MAX_REDUCTIONS\<close>, because \<open>increment\<close> returns the
  old count), and the counter never leaves the range up to \<open>MAX_REDUCTIONS\<close>.
\<close>

theorem reduction_yields_every_4001:
  "reduction_run n rc_new = (map (\<lambda>i. Suc i mod 4001 = 0) [0..<n], of_nat (n mod 4001))"
proof (induction n)
  case 0
  then show ?case by (simp add: rc_new_def)
next
  case (Suc n)
  have k: "n mod 4001 \<le> 4000" by (simp add: less_Suc_eq_le [symmetric])
  have "Suc n mod 4001 = Suc (n mod 4001) mod 4001" by (simp add: mod_Suc_eq)
  moreover have "Suc n mod 4001 = 0 \<longleftrightarrow> n mod 4001 = 4000" by (simp add: mod_Suc)
  ultimately show ?case
    using reduction_tick_of_nat [OF k] by (simp add: reduction_run_snoc Suc.IH Let_def)
qed

end
