(* ===== verification/ActorLoop.thy ===== *)
theory ActorLoop
  imports Context RunQueue
begin

text \<open>
  The loop that \<open>Runtime::spawn\<close> hands to the scheduler (\<open>src/runtime.rs\<close>): it receives
  the envelopes of one mailbox and calls the actor's handler. The actor is user code: a
  parameter \<open>handle\<close>, which maps a message, the context and the actor's state to its
  answer, the new state and the new shared state; it may panic, and it may have to wait
  (\<open>None\<close>), in a blocking send for instance. A call of the handler is one step.
\<close>

section \<open>State\<close>

record ('c, 'r) shared =
  sh_net :: "'c net"
  sh_replies :: "'r store"

type_synonym ('v, 's, 'w) handler =
  "'v \<Rightarrow> actor_context \<Rightarrow> 's \<Rightarrow> 'w \<Rightarrow> (((unit, actor_error) result \<times> 's) rust \<times> 'w) option"

record 's actor_loop =
  al_rx :: chan_ref
  al_actor :: 's
  al_ctx :: actor_context
  al_reductions :: reduction_counter

datatype loop_outcome = LoopOn | LoopEnded | LoopPanicked

section \<open>One round\<close>

definition drop_reply ::
  "('r, 'v any) chan_api \<Rightarrow> chan_ref option \<Rightarrow> ('c, 'r, 'z) shared_scheme \<Rightarrow> ('c, 'r, 'z) shared_scheme" where
  "drop_reply rapi r w =
     (case r of None \<Rightarrow> w
      | Some r \<Rightarrow> w\<lparr>sh_replies := store_upd r (ch_drop_sender rapi) (sh_replies w)\<rparr>)"

text \<open>Calling the handler: the reply sender in the context is replaced, which drops the old one.\<close>

definition run_handler ::
  "('r, 'v any) chan_api \<Rightarrow> ('v, 's, ('c, 'r, 'z) shared_scheme) handler \<Rightarrow> 'v \<Rightarrow> chan_ref option
    \<Rightarrow> 's actor_loop \<Rightarrow> ('c, 'r, 'z) shared_scheme
    \<Rightarrow> (loop_outcome \<times> 's actor_loop \<times> ('c, 'r, 'z) shared_scheme) option" where
  "run_handler rapi handle v rs lp w =
     (let w1 = drop_reply rapi (cx_reply_sender (al_ctx lp)) w;
          cx = set_reply_sender rs (al_ctx lp)
      in case handle v cx (al_actor lp) w1 of
           None \<Rightarrow> None
         | Some (Panicked, w2) \<Rightarrow> Some (LoopPanicked, lp\<lparr>al_ctx := cx\<rparr>, w2)
         | Some (Ret (_, a), w2) \<Rightarrow> Some (LoopOn, lp\<lparr>al_ctx := cx, al_actor := a\<rparr>, w2))"

text \<open>A payload of another type than the actor's message type \<open>ty\<close> is dropped.\<close>

definition handle_envelope ::
  "('r, 'v any) chan_api \<Rightarrow> type_id \<Rightarrow> ('v, 's, ('c, 'r, 'z) shared_scheme) handler
    \<Rightarrow> 'v envelope \<Rightarrow> 's actor_loop \<Rightarrow> ('c, 'r, 'z) shared_scheme
    \<Rightarrow> (loop_outcome \<times> 's actor_loop \<times> ('c, 'r, 'z) shared_scheme) option" where
  "handle_envelope rapi ty handle env lp w =
     (case env of
        Message a \<Rightarrow>
          (case downcast ty a of
             Inl _ \<Rightarrow> Some (LoopOn, lp, w)
           | Inr v \<Rightarrow> run_handler rapi handle v None lp w)
      | Request i a r \<Rightarrow>
          (case downcast ty a of
             Inl _ \<Rightarrow> Some (LoopOn, lp, drop_reply rapi (Some r) w)
           | Inr v \<Rightarrow> run_handler rapi handle v (Some r) lp w))"

text \<open>After a handled envelope the reductions are counted, unless the runtime is stopping.\<close>

definition after_envelope ::
  "bool \<Rightarrow> loop_outcome \<times> 's actor_loop \<times> ('c, 'r, 'z) shared_scheme
    \<Rightarrow> loop_outcome \<times> 's actor_loop \<times> ('c, 'r, 'z) shared_scheme" where
  "after_envelope counted x =
     (case x of (out, lp, w) \<Rightarrow>
        if out = LoopOn \<and> counted
        then (out, lp\<lparr>al_reductions := snd (reduction_tick (al_reductions lp))\<rparr>, w)
        else (out, lp, w))"

definition loop_step ::
  "('c, 'v envelope) chan_api \<Rightarrow> ('r, 'v any) chan_api \<Rightarrow> type_id
    \<Rightarrow> ('v, 's, ('c, 'r, 'z) shared_scheme) handler \<Rightarrow> bool
    \<Rightarrow> 's actor_loop \<Rightarrow> ('c, 'r, 'z) shared_scheme
    \<Rightarrow> (loop_outcome \<times> 's actor_loop \<times> ('c, 'r, 'z) shared_scheme) option" where
  "loop_step api rapi ty handle stop lp w =
     (case st_map (nt_store (sh_net w)) (al_rx lp) of
        None \<Rightarrow> None
      | Some c \<Rightarrow>
          if stop then
            (case ch_try_recv api c of
               Inr (env, c') \<Rightarrow>
                 map_option (after_envelope False)
                   (handle_envelope rapi ty handle env lp
                     (w\<lparr>sh_net := put_channel (al_rx lp) c' (sh_net w)\<rparr>))
             | Inl _ \<Rightarrow> Some (LoopEnded, lp, w))
          else
            (case ch_recv_timeout api c of
               Inr (env, c') \<Rightarrow>
                 map_option (after_envelope True)
                   (handle_envelope rapi ty handle env lp
                     (w\<lparr>sh_net := put_channel (al_rx lp) c' (sh_net w)\<rparr>))
             | Inl RecvTimedOut \<Rightarrow>
                 Some (LoopOn, lp\<lparr>al_reductions := rc_reset (al_reductions lp)\<rparr>, w)
             | Inl RecvTimeoutDisconnected \<Rightarrow> Some (LoopEnded, lp, w)))"

text \<open>The loop with nobody else acting, for at most \<open>n\<close> rounds.\<close>

fun loop_run ::
  "('c, 'v envelope) chan_api \<Rightarrow> ('r, 'v any) chan_api \<Rightarrow> type_id
    \<Rightarrow> ('v, 's, ('c, 'r, 'z) shared_scheme) handler \<Rightarrow> bool \<Rightarrow> nat
    \<Rightarrow> 's actor_loop \<Rightarrow> ('c, 'r, 'z) shared_scheme
    \<Rightarrow> (loop_outcome \<times> 's actor_loop \<times> ('c, 'r, 'z) shared_scheme) option" where
  "loop_run api rapi ty handle stop 0 lp w = Some (LoopOn, lp, w)"
| "loop_run api rapi ty handle stop (Suc n) lp w =
     (case loop_step api rapi ty handle stop lp w of
        None \<Rightarrow> None
      | Some (out, lp', w') \<Rightarrow>
          if out = LoopOn then loop_run api rapi ty handle stop n lp' w'
          else Some (out, lp', w'))"

section \<open>The end of the loop\<close>

text \<open>
  A loop that ended, by \<open>break\<close> or by a panic, drops what the closure owns: the receiver,
  and with it the envelopes still queued and their reply senders, the context with its
  sender and its reply sender. Until then messages can still arrive.
\<close>

definition envelope_reply :: "'v envelope \<Rightarrow> chan_ref option" where
  "envelope_reply env = (case env of Message a \<Rightarrow> None | Request i a r \<Rightarrow> Some r)"

definition release_loop ::
  "('c, 'v envelope) chan_api \<Rightarrow> ('c \<Rightarrow> 'v envelope chan_view) \<Rightarrow> ('r, 'v any) chan_api
    \<Rightarrow> 's actor_loop \<Rightarrow> 'c \<Rightarrow> ('c, 'r, 'z) shared_scheme \<Rightarrow> ('c, 'r, 'z) shared_scheme" where
  "release_loop api view rapi lp c w =
     (let lost = (if cv_receivers (view c) \<le> 1 then cv_queue (view c) else []);
          w1 = fold (\<lambda>env. drop_reply rapi (envelope_reply env)) lost w;
          w2 = drop_reply rapi (cx_reply_sender (al_ctx lp)) w1
      in w2\<lparr>sh_net := put_channel (al_rx lp) (ch_drop_sender api (ch_drop_receiver api c)) (sh_net w2)\<rparr>)"

definition close_loop ::
  "('c, 'v envelope) chan_api \<Rightarrow> ('c \<Rightarrow> 'v envelope chan_view) \<Rightarrow> ('r, 'v any) chan_api
    \<Rightarrow> 's actor_loop \<Rightarrow> ('c, 'r, 'z) shared_scheme \<Rightarrow> ('c, 'r, 'z) shared_scheme" where
  "close_loop api view rapi lp w =
     (case st_map (nt_store (sh_net w)) (al_rx lp) of
        None \<Rightarrow> w
      | Some c \<Rightarrow> release_loop api view rapi lp c w)"

section \<open>Messages are handled in mailbox order\<close>

definition payload_of :: "'v envelope \<Rightarrow> 'v any" where
  "payload_of env = (case env of Message a \<Rightarrow> a | Request i a r \<Rightarrow> a)"

text \<open>The messages an actor of message type \<open>ty\<close> sees of a queue of envelopes.\<close>

definition seen :: "type_id \<Rightarrow> 'v envelope list \<Rightarrow> 'v list" where
  "seen ty envs = map any_val (filter (\<lambda>a. any_type a = ty) (map payload_of envs))"

text \<open>
  A handler that neither waits nor panics, whose state changes by \<open>f\<close>, and which leaves
  its own mailbox alone; its other effects are free.
\<close>

definition calm ::
  "chan_ref \<Rightarrow> ('v \<Rightarrow> 's \<Rightarrow> 's) \<Rightarrow> ('v, 's, ('c, 'r, 'z) shared_scheme) handler \<Rightarrow> bool" where
  "calm rx f handle \<longleftrightarrow> (\<forall>v cx a w. \<exists>res w'. handle v cx a w = Some (Ret (res, f v a), w')
     \<and> st_map (nt_store (sh_net w')) rx = st_map (nt_store (sh_net w)) rx)"

lemma drop_reply_net [simp]: "sh_net (drop_reply rapi r w) = sh_net w"
  by (simp add: drop_reply_def split: option.splits)

lemma fold_drop_reply_net [simp]:
  "sh_net (fold (\<lambda>env. drop_reply rapi (envelope_reply env)) xs x) = sh_net x"
  by (induction xs arbitrary: x) simp_all

lemma calm_envelope:
  assumes "calm (al_rx lp) f handle"
  shows "\<exists>lp' w'. handle_envelope rapi ty handle env lp w = Some (LoopOn, lp', w')
    \<and> al_rx lp' = al_rx lp \<and> al_actor lp' = fold f (seen ty [env]) (al_actor lp)
    \<and> st_map (nt_store (sh_net w')) (al_rx lp) = st_map (nt_store (sh_net w)) (al_rx lp)"
proof -
  have run: "\<exists>lp' w'. run_handler rapi handle v rs lp w = Some (LoopOn, lp', w')
    \<and> al_rx lp' = al_rx lp \<and> al_actor lp' = f v (al_actor lp)
    \<and> st_map (nt_store (sh_net w')) (al_rx lp) = st_map (nt_store (sh_net w)) (al_rx lp)" for v rs
  proof -
    obtain res w' where "handle v (set_reply_sender rs (al_ctx lp)) (al_actor lp)
        (drop_reply rapi (cx_reply_sender (al_ctx lp)) w) = Some (Ret (res, f v (al_actor lp)), w')"
      and "st_map (nt_store (sh_net w')) (al_rx lp) = st_map (nt_store (sh_net w)) (al_rx lp)"
      using assms unfolding calm_def by (metis drop_reply_net)
    then show ?thesis by (simp add: run_handler_def Let_def)
  qed
  show ?thesis
    using run
    by (cases env; cases "any_type (payload_of env) = ty")
       (auto simp: handle_envelope_def downcast_def seen_def payload_of_def)
qed

lemma seen_Cons: "seen ty (env # envs) = seen ty [env] @ seen ty envs"
  by (simp add: seen_def)

lemma calm_step:
  assumes ch: "chan api view" and calm: "calm (al_rx lp) f handle"
    and c: "st_map (nt_store (sh_net w)) (al_rx lp) = Some c" and q: "cv_queue (view c) = env # q"
  shows "\<exists>lp' w' c'. loop_step api rapi ty handle stop lp w = Some (LoopOn, lp', w')
    \<and> al_rx lp' = al_rx lp \<and> al_actor lp' = fold f (seen ty [env]) (al_actor lp)
    \<and> st_map (nt_store (sh_net w')) (al_rx lp) = Some c' \<and> view c' = (view c)\<lparr>cv_queue := q\<rparr>"
proof -
  obtain c1 c2 where t1: "ch_try_recv api c = Inr (env, c1)" "view c1 = (view c)\<lparr>cv_queue := q\<rparr>"
    and t2: "ch_recv_timeout api c = Inr (env, c2)" "view c2 = (view c)\<lparr>cv_queue := q\<rparr>"
    using chan.try_recv_takes [OF ch q] chan.recv_timeout_takes [OF ch q] by blast
  define c' where "c' = (if stop then c1 else c2)"
  let ?w = "w\<lparr>sh_net := put_channel (al_rx lp) c' (sh_net w)\<rparr>"
  obtain lp' w' where h: "handle_envelope rapi ty handle env lp ?w = Some (LoopOn, lp', w')"
    and k: "al_rx lp' = al_rx lp" "al_actor lp' = fold f (seen ty [env]) (al_actor lp)"
      "st_map (nt_store (sh_net w')) (al_rx lp) = st_map (nt_store (sh_net ?w)) (al_rx lp)"
    using calm_envelope [OF calm, of rapi ty env ?w] by blast
  let ?lp = "if stop then lp' else lp'\<lparr>al_reductions := snd (reduction_tick (al_reductions lp'))\<rparr>"
  have "loop_step api rapi ty handle stop lp w = Some (LoopOn, ?lp, w')"
    using c t1 t2 h by (cases stop) (simp_all add: loop_step_def c'_def after_envelope_def)
  then show ?thesis
    using k t1 t2 by (intro exI [of _ ?lp] exI [of _ w'] exI [of _ c']) (simp add: c'_def)
qed

lemma loop_drains:
  assumes ch: "chan api view" and "calm (al_rx lp) f handle"
    and "st_map (nt_store (sh_net w)) (al_rx lp) = Some c" and "cv_queue (view c) = q"
  shows "\<exists>lp' w' c'. loop_run api rapi ty handle stop (length q + n) lp w
      = loop_run api rapi ty handle stop n lp' w'
    \<and> al_rx lp' = al_rx lp \<and> al_actor lp' = fold f (seen ty q) (al_actor lp)
    \<and> st_map (nt_store (sh_net w')) (al_rx lp) = Some c' \<and> view c' = (view c)\<lparr>cv_queue := []\<rparr>"
  using assms(2-4)
proof (induction q arbitrary: lp w c)
  case Nil
  then show ?case by (intro exI [of _ lp] exI [of _ w] exI [of _ c]) (simp add: seen_def)
next
  case (Cons env q)
  obtain lp1 w1 c1 where s: "loop_step api rapi ty handle stop lp w = Some (LoopOn, lp1, w1)"
    and k: "al_rx lp1 = al_rx lp" "al_actor lp1 = fold f (seen ty [env]) (al_actor lp)"
      "st_map (nt_store (sh_net w1)) (al_rx lp) = Some c1" "view c1 = (view c)\<lparr>cv_queue := q\<rparr>"
    using calm_step [OF ch Cons.prems] by blast
  have "calm (al_rx lp1) f handle" "st_map (nt_store (sh_net w1)) (al_rx lp1) = Some c1"
    "cv_queue (view c1) = q"
    using k Cons.prems(1) by simp_all
  from Cons.IH [OF this] obtain lp' w' c' where
    "loop_run api rapi ty handle stop (length q + n) lp1 w1 = loop_run api rapi ty handle stop n lp' w'"
    "al_rx lp' = al_rx lp1" "al_actor lp' = fold f (seen ty q) (al_actor lp1)"
    "st_map (nt_store (sh_net w')) (al_rx lp1) = Some c'" "view c' = (view c1)\<lparr>cv_queue := []\<rparr>"
    by blast
  then show ?case
    using s k by (intro exI [of _ lp'] exI [of _ w'] exI [of _ c']) (simp add: seen_Cons [of ty env q])
qed


text \<open>
  A message of a type the actor does not handle is lost without a trace: the sender
  was told \<open>Ok\<close>, the handler is not called and the actor's state does not change. If it
  was a request, its reply channel loses its sender, so the caller reads
  \<open>RuntimeStopped\<close>.
\<close>

theorem mistyped_message_is_dropped:
  assumes "chan rapi rview" and "any_type a \<noteq> ty"
  shows "handle_envelope rapi ty handle (Message a) lp w = Some (LoopOn, lp, w)
    \<and> (\<exists>w'. handle_envelope rapi ty handle (Request i a r) lp w = Some (LoopOn, lp, w')
        \<and> (case st_map (sh_replies w) r of None \<Rightarrow> True
           | Some c \<Rightarrow> cv_senders (rview c) = 1 \<and> cv_queue (rview c) = [] \<and> cv_bound (rview c) = Some 1 \<longrightarrow>
               (\<exists>c'. st_map (sh_replies w') r = Some c' \<and> ch_recv rapi c' = Some (Inl ()))))"
proof -
  have "ch_recv rapi (ch_drop_sender rapi c) = Some (Inl ())"
    if "cv_senders (rview c) = 1" "cv_queue (rview c) = []" "cv_bound (rview c) = Some 1" for c
    using that chan.recv_empty [OF assms(1), of "ch_drop_sender rapi c"]
    by (simp add: chan.drop_sender_view [OF assms(1)])
  then show ?thesis
    using assms(2)
    by (auto simp: handle_envelope_def downcast_def drop_reply_def split: option.splits)
qed


section \<open>A concrete actor\<close>

text \<open>An actor that adds the numbers it is sent, with two of them and a stray message queued.\<close>

definition adder :: "(nat, nat, (nat envelope chan_view, nat any chan_view) shared) handler" where
  "adder v cx a w = Some (Ret (Inr (), v + a), w)"

definition add_queue :: "nat envelope list" where
  "add_queue = [Message (Any 1 3), Message (Any 2 8), Request 0 (Any 1 4) 0]"

definition add_chan :: "nat envelope chan_view" where
  "add_chan = \<lparr>cv_queue = add_queue, cv_bound = Some 10, cv_senders = 2, cv_receivers = 1\<rparr>"

definition add_world :: "(nat envelope chan_view, nat any chan_view) shared" where
  "add_world = \<lparr>sh_net = \<lparr>nt_senders = [ActorId 1 \<mapsto> 0], nt_poisoned = False,
       nt_store = \<lparr>st_map = [0 \<mapsto> add_chan], st_next = 1\<rparr>\<rparr>,
     sh_replies = \<lparr>st_map = [0 \<mapsto> ch_bounded ref_api 1], st_next = 1\<rparr>\<rparr>"

definition add_loop :: "nat actor_loop" where
  "add_loop = \<lparr>al_rx = 0, al_actor = 0, al_ctx = context_new (ActorId 1) 0, al_reductions = rc_new\<rparr>"


theorem mistyped_message_is_dropped_witness:
  "\<exists>w'. handle_envelope ref_api 1 adder (Request 0 (Any 2 9) 0) add_loop add_world = Some (LoopOn, add_loop, w')
    \<and> (\<exists>c'. st_map (sh_replies w') 0 = Some c' \<and> ch_recv ref_api c' = Some (Inl ()))"
proof -
  have "any_type (Any 2 (9::nat)) \<noteq> 1" by simp
  moreover have "st_map (sh_replies add_world) 0 = Some (ch_bounded ref_api 1)"
    by (simp add: add_world_def)
  ultimately show ?thesis
    using mistyped_message_is_dropped [OF chan_ref, of "Any 2 9" 1 adder add_loop add_world 0 0]
    by (auto simp: ref_defs)
qed

text \<open>The same mailbox with an actor that cannot handle its first message.\<close>

definition fragile :: "(nat, nat, (nat envelope chan_view, nat any chan_view) shared) handler" where
  "fragile v cx a w = Some (Panicked, w)"


end
