(* ===== verification/Supervision.thy ===== *)
theory Supervision
  imports ActorTypes
begin

text \<open>
  \<open>src/supervision/strategy.rs\<close>, \<open>src/supervision/child.rs\<close> and
  \<open>src/supervision/supervisor.rs\<close>: the restart strategy, the child specifications and
  the supervisor that counts failures. Counters are \<open>usize\<close> words whose addition wraps,
  as in a release build.
\<close>

section \<open>Strategy and child specifications\<close>

datatype restart_strategy =
  OneForOne (max_restarts: usize) (within: duration) (base_backoff: duration)

definition restart_strategy_default :: restart_strategy where
  "restart_strategy_default = OneForOne 5 (from_secs 60) (from_millis 100)"

datatype restart_policy = Permanent | Temporary | Transient

record child_spec =
  spec_name :: string
  spec_policy :: restart_policy
  spec_shutdown_timeout :: duration

definition child_spec_new :: "string \<Rightarrow> child_spec" where
  "child_spec_new n =
     \<lparr>spec_name = n, spec_policy = Permanent, spec_shutdown_timeout = from_secs 5\<rparr>"

definition with_restart_policy :: "restart_policy \<Rightarrow> child_spec \<Rightarrow> child_spec" where
  "with_restart_policy p c = c\<lparr>spec_policy := p\<rparr>"

definition with_shutdown_timeout :: "duration \<Rightarrow> child_spec \<Rightarrow> child_spec" where
  "with_shutdown_timeout d c = c\<lparr>spec_shutdown_timeout := d\<rparr>"

section \<open>Supervisor\<close>

record supervisor =
  sv_id :: actor_id
  sv_strategy :: restart_strategy
  sv_children :: "child_spec list"
  sv_counts :: "actor_id \<rightharpoonup> usize"

definition supervisor_new :: "actor_id \<Rightarrow> restart_strategy \<Rightarrow> supervisor" where
  "supervisor_new i st =
     \<lparr>sv_id = i, sv_strategy = st, sv_children = [], sv_counts = Map.empty\<rparr>"

definition supervisor_child :: "child_spec \<Rightarrow> supervisor \<Rightarrow> supervisor" where
  "supervisor_child c s = s\<lparr>sv_children := sv_children s @ [c]\<rparr>"

text \<open>
  \<open>entry(child_id).or_insert(0)\<close>, the increment, and the comparison with the limit;
  \<open>true\<close> means restart, \<open>false\<close> escalate.
\<close>

definition handle_child_failure :: "actor_id \<Rightarrow> supervisor \<Rightarrow> bool \<times> supervisor" where
  "handle_child_failure c s =
     (let count = (case sv_counts s c of None \<Rightarrow> 0 | Some n \<Rightarrow> n) + 1;
          s' = s\<lparr>sv_counts := (sv_counts s)(c \<mapsto> count)\<rparr>
      in if count > max_restarts (sv_strategy s) then (False, s') else (True, s'))"

fun handle_failures :: "actor_id list \<Rightarrow> supervisor \<Rightarrow> bool list \<times> supervisor" where
  "handle_failures [] s = ([], s)"
| "handle_failures (c # cs) s =
     (let r = handle_child_failure c s; q = handle_failures cs (snd r)
      in (fst r # fst q, snd q))"

definition failure_count :: "supervisor \<Rightarrow> actor_id \<Rightarrow> usize" where
  "failure_count s c = (case sv_counts s c of None \<Rightarrow> 0 | Some n \<Rightarrow> n)"

lemma handle_child_failure_count:
  "failure_count (snd (handle_child_failure c s)) d =
     (if d = c then failure_count s c + 1 else failure_count s d)"
  by (simp add: handle_child_failure_def failure_count_def Let_def)

lemma handle_child_failure_strategy [simp]:
  "sv_strategy (snd (handle_child_failure c s)) = sv_strategy s"
  by (simp add: handle_child_failure_def Let_def)

lemma handle_child_failure_answer:
  "fst (handle_child_failure c s) \<longleftrightarrow> failure_count s c + 1 \<le> max_restarts (sv_strategy s)"
  by (auto simp: handle_child_failure_def failure_count_def Let_def)

lemma handle_failures_snoc:
  "handle_failures (cs @ [c]) s =
     (let q = handle_failures cs s; r = handle_child_failure c (snd q)
      in (fst q @ [fst r], snd r))"
  by (induction cs arbitrary: s) (simp_all add: Let_def)

lemma handle_failures_counts:
  "failure_count (snd (handle_failures cs s)) d = failure_count s d + of_nat (count_list cs d)
   \<and> sv_strategy (snd (handle_failures cs s)) = sv_strategy s
   \<and> length (fst (handle_failures cs s)) = length cs"
  by (induction cs rule: rev_induct)
     (auto simp: handle_failures_snoc Let_def handle_child_failure_count count_list_append)

text \<open>
  C30: a new supervisor answers the failures of its children independently of each
  other: a failure is answered with a restart exactly while the number of failures of
  that child so far, this one included, does not exceed \<open>max_restarts\<close>; neither the
  other children's failures nor the time between failures matter.
\<close>

theorem supervisor_restart_limit:
  assumes "length cs < 2 ^ 64" and "i < length cs"
  shows "fst (handle_failures cs (supervisor_new a st)) ! i
    \<longleftrightarrow> count_list (take (Suc i) cs) (cs ! i) \<le> unat (max_restarts st)"
  using assms
proof (induction cs arbitrary: i rule: rev_induct)
  case Nil
  then show ?case by simp
next
  case (snoc c cs)
  let ?q = "handle_failures cs (supervisor_new a st)"
  note facts = handle_failures_counts [of cs "supervisor_new a st" c]
  show ?case
  proof (cases "i < length cs")
    case True
    then show ?thesis using snoc facts by (simp add: handle_failures_snoc Let_def nth_append)
  next
    case False
    with snoc.prems have i: "i = length cs" by simp
    have bound: "Suc (count_list cs c) < 2 ^ 64"
      using snoc.prems count_le_length [of cs c] by simp
    have "failure_count (snd ?q) c + 1 = of_nat (Suc (count_list cs c))"
      using facts by (simp add: failure_count_def supervisor_new_def)
    then have "fst (handle_child_failure c (snd ?q))
        \<longleftrightarrow> of_nat (Suc (count_list cs c)) \<le> max_restarts st"
      using facts by (simp add: handle_child_failure_answer supervisor_new_def add.commute)
    also have "\<dots> \<longleftrightarrow> Suc (count_list cs c) \<le> unat (max_restarts st)"
      using unat_of_nat_u64 [OF bound] by (simp add: word_le_nat_alt)
    finally show ?thesis
      using facts i by (simp add: handle_failures_snoc Let_def nth_append count_list_append)
  qed
qed

theorem supervisor_restart_limit_witness:
  "fst (handle_failures [ActorId 7, ActorId 8, ActorId 7]
      (supervisor_new (ActorId 1) (OneForOne 1 0 0))) ! 2 = False"
proof -
  let ?cs = "[ActorId 7, ActorId 8, ActorId 7]"
  have "length ?cs < 2 ^ 64" and "2 < length ?cs" by simp_all
  from supervisor_restart_limit [OF this] show ?thesis by simp
qed

end
