(* ===== verification/SupervisorActor.thy ===== *)
theory SupervisorActor
  imports Supervision
begin

unbundle bit_operations_syntax

text \<open>
  \<open>src/supervision/supervisor_actor.rs\<close>: the supervising actor with its exponential
  backoff, and the counter actor beside it. A handler is given the two clock readings
  it makes (\<open>last.elapsed()\<close> and \<open>Instant::now()\<close>) and the order in which iterating its
  \<open>HashMap\<close> visits the keys.
\<close>

section \<open>State and messages\<close>

datatype supervisor_message =
    ChildStarted actor_id string
  | ChildCrashed actor_id string
  | GetStatus

record child_status =
  cs_id :: actor_id
  cs_name :: string
  cs_restart_count :: usize
  cs_alive :: bool

record child_entry =
  ce_name :: string
  ce_restart_count :: usize
  ce_alive :: bool
  ce_last_restart_at :: "instant option"

record supervisor_actor =
  sa_children :: "actor_id \<rightharpoonup> child_entry"
  sa_strategy :: restart_strategy

definition supervisor_actor_new :: "restart_strategy \<Rightarrow> supervisor_actor" where
  "supervisor_actor_new st = \<lparr>sa_children = Map.empty, sa_strategy = st\<rparr>"

definition sa_max_restarts :: "supervisor_actor \<Rightarrow> usize" where
  "sa_max_restarts s = (case sa_strategy s of OneForOne m w b \<Rightarrow> m)"

definition sa_base_backoff :: "supervisor_actor \<Rightarrow> duration" where
  "sa_base_backoff s = (case sa_strategy s of OneForOne m w b \<Rightarrow> b)"

section \<open>Backoff\<close>

definition saturating_sub1 :: "u32 \<Rightarrow> u32" where
  "saturating_sub1 w = (if w = 0 then 0 else w - 1)"

text \<open>
  \<open>restart_count as u32\<close> truncates; the multiplication panics when the product is not a
  \<open>Duration\<close>, before the cap is applied.
\<close>

definition backoff_delay :: "supervisor_actor \<Rightarrow> usize \<Rightarrow> duration rust" where
  "backoff_delay s restart_count =
     (let base = sa_base_backoff s;
          shift = min (saturating_sub1 (ucast restart_count)) 30;
          multiplier = push_bit (unat shift) (1 :: u32)
      in case duration_mul base multiplier of
           Panicked \<Rightarrow> Panicked
         | Ret delay \<Rightarrow> Ret (min delay (from_secs 30)))"

lemma unat_saturating_sub1: "unat (saturating_sub1 w) = unat w - 1"
  by (simp add: saturating_sub1_def unat_minus_one)

lemma unat_min_word: "unat (min a b) = min (unat a) (unat (b :: u32))"
  by (simp add: min_def word_le_nat_alt)

lemma unat_one_shl: "n < 32 \<Longrightarrow> unat ((2 :: u32) ^ n) = 2 ^ n"
proof -
  assume "n < 32"
  then have lt: "(2::nat) ^ n < 2 ^ 32" by (intro power_strict_increasing) simp_all
  have "unat ((2 :: u32) ^ n) = unat (of_nat (2 ^ n) :: u32)" by simp
  also have "\<dots> = 2 ^ n" using lt by (rule unat_of_nat_u32)
  finally show ?thesis .
qed

definition backoff_shift :: "usize \<Rightarrow> nat" where
  "backoff_shift rc = min (unat rc mod 2 ^ 32 - 1) 30"

lemma backoff_delay_eq:
  "backoff_delay s rc =
     (if sa_base_backoff s * 2 ^ backoff_shift rc \<le> duration_max
      then Ret (min (sa_base_backoff s * 2 ^ backoff_shift rc) (from_secs 30))
      else Panicked)"
proof -
  have "unat (min (saturating_sub1 (ucast rc)) 30) = backoff_shift rc"
    by (simp add: unat_min_word unat_saturating_sub1 backoff_shift_def
        unsigned_ucast_eq take_bit_eq_mod)
  moreover have "backoff_shift rc < 32" by (simp add: backoff_shift_def)
  ultimately show ?thesis
    by (simp add: backoff_delay_def Let_def duration_mul_def unat_one_shl)
qed



text \<open>
  The backoff computation panics exactly when the base delay, doubled as often as
  the truncated restart count says, is not a \<open>Duration\<close> any more: the thirty-second
  cap does not protect it. And because the count is truncated to 32 bits, the
  \<open>2^32\<close>-th crash is back at the base delay.
\<close>

theorem backoff_panics_iff:
  "(backoff_delay s rc = Panicked
      \<longleftrightarrow> duration_max < sa_base_backoff s * 2 ^ min (unat rc mod 2 ^ 32 - 1) 30)
   \<and> (unat rc mod 2 ^ 32 = 0 \<and> sa_base_backoff s \<le> from_secs 30
      \<longrightarrow> backoff_delay s rc = Ret (sa_base_backoff s))"
proof -
  have "backoff_delay s rc = Ret (sa_base_backoff s)"
    if "unat rc mod 2 ^ 32 = 0" "sa_base_backoff s \<le> from_secs 30"
  proof -
    have "backoff_shift rc = 0" using that(1) by (simp add: backoff_shift_def)
    moreover have "from_secs 30 \<le> duration_max" by (simp add: time_defs)
    ultimately show ?thesis using that(2) by (simp add: backoff_delay_eq)
  qed
  then show ?thesis by (auto simp: backoff_delay_eq backoff_shift_def not_le)
qed

theorem backoff_panics_iff_witness:
  "backoff_delay (supervisor_actor_new (OneForOne 5 0 duration_max)) 2 = Panicked
   \<and> backoff_delay (supervisor_actor_new restart_strategy_default) 4294967296
       = Ret (from_millis 100)"
proof -
  let ?s = "supervisor_actor_new (OneForOne 5 0 duration_max)"
  let ?t = "supervisor_actor_new restart_strategy_default"
  have "sa_base_backoff ?s = duration_max" "sa_base_backoff ?t = from_millis 100"
    by (simp_all add: supervisor_actor_new_def restart_strategy_default_def sa_base_backoff_def)
  then show ?thesis
    using backoff_panics_iff [of ?s 2] backoff_panics_iff [of ?t 4294967296]
    by (simp add: time_defs)
qed

section \<open>The handler\<close>

text \<open>
  One call of \<open>handle\<close>: the outcome the actor returns, the reply it sends through the
  context if any, and the new state; or a panic.
\<close>

type_synonym sa_outcome =
  "((unit, actor_error) result \<times> child_status list option \<times> supervisor_actor) rust"

definition status_of :: "actor_id \<Rightarrow> child_entry \<Rightarrow> child_status" where
  "status_of c e = \<lparr>cs_id = c, cs_name = ce_name e, cs_restart_count = ce_restart_count e,
     cs_alive = ce_alive e\<rparr>"

definition crashed_entry ::
  "usize \<Rightarrow> duration \<Rightarrow> usize \<Rightarrow> instant \<Rightarrow> instant \<Rightarrow> child_entry \<Rightarrow> child_entry" where
  "crashed_entry limit delay new_count now now' e =
     (let e1 = e\<lparr>ce_restart_count := new_count\<rparr> in
      if new_count \<le> limit then
        (case ce_last_restart_at e of
           Some restarted \<Rightarrow>
             if elapsed now restarted < delay then e1\<lparr>ce_alive := False\<rparr>
             else e1\<lparr>ce_alive := True, ce_last_restart_at := Some now'\<rparr>
         | None \<Rightarrow> e1\<lparr>ce_alive := True, ce_last_restart_at := Some now'\<rparr>)
      else e1\<lparr>ce_alive := False\<rparr>)"

definition sa_handle ::
  "instant \<Rightarrow> instant \<Rightarrow> actor_id list \<Rightarrow> supervisor_message \<Rightarrow> supervisor_actor \<Rightarrow> sa_outcome"
where
  "sa_handle now now' order msg s =
     (case msg of
        ChildStarted c n \<Rightarrow>
          Ret (Inr (), None, s\<lparr>sa_children := (sa_children s)
            (c \<mapsto> \<lparr>ce_name = n, ce_restart_count = 0, ce_alive = True,
                  ce_last_restart_at = None\<rparr>)\<rparr>)
      | ChildCrashed c reason \<Rightarrow>
          (let limit = sa_max_restarts s;
               new_count = (case sa_children s c of None \<Rightarrow> 0 | Some e \<Rightarrow> ce_restart_count e + 1)
           in case backoff_delay s new_count of
                Panicked \<Rightarrow> Panicked
              | Ret delay \<Rightarrow>
                  (case sa_children s c of
                     None \<Rightarrow> Ret (Inr (), None, s)
                   | Some e \<Rightarrow> Ret (Inr (), None, s\<lparr>sa_children := (sa_children s)
                       (c \<mapsto> crashed_entry limit delay new_count now now' e)\<rparr>)))
      | GetStatus \<Rightarrow>
          Ret (Inr (), Some (map (\<lambda>c. status_of c (the (sa_children s c))) order), s))"

text \<open>What a crash report does, branch by branch.\<close>

text \<open>
  A crash report of a known child adds one to its restart count and touches no other
  child. The child is marked restarted (alive, with the restart time renewed) exactly
  when the new count is within the limit and either it was never restarted before or the
  backoff delay has elapsed since its last restart; otherwise it is marked dead and the
  time of its last restart is kept. A report about an unknown child changes nothing.
\<close>

theorem child_crashed_decision:
  assumes "backoff_delay s (case sa_children s c of None \<Rightarrow> 0 | Some e \<Rightarrow> ce_restart_count e + 1)
      = Ret delay"
  shows "\<exists>s'. sa_handle now now' order (ChildCrashed c reason) s = Ret (Inr (), None, s')
    \<and> sa_strategy s' = sa_strategy s
    \<and> (\<forall>d. d \<noteq> c \<longrightarrow> sa_children s' d = sa_children s d)
    \<and> (case sa_children s c of
         None \<Rightarrow> s' = s
       | Some e \<Rightarrow>
           (let restarts = ce_restart_count e + 1 \<le> sa_max_restarts s
                  \<and> (ce_last_restart_at e = None
                     \<or> delay \<le> elapsed now (the (ce_last_restart_at e)))
            in sa_children s' c = Some \<lparr>ce_name = ce_name e,
                 ce_restart_count = ce_restart_count e + 1, ce_alive = restarts,
                 ce_last_restart_at =
                   (if restarts then Some now' else ce_last_restart_at e)\<rparr>))"
proof (cases "sa_children s c")
  case None
  with assms show ?thesis by (simp add: sa_handle_def Let_def)
next
  case (Some e)
  then show ?thesis
    using assms
    by (cases "ce_last_restart_at e"; cases e)
       (auto simp: sa_handle_def Let_def crashed_entry_def not_less)
qed

text \<open>A supervisor with one child that was restarted 40 ms ago, with a delay of 200 ms.\<close>

definition backing_off :: supervisor_actor where
  "backing_off = \<lparr>sa_children = [ActorId 2 \<mapsto> \<lparr>ce_name = ''w'', ce_restart_count = 1,
     ce_alive = True, ce_last_restart_at = Some 0\<rparr>], sa_strategy = restart_strategy_default\<rparr>"

theorem child_crashed_decision_witness:
  "\<exists>s'. sa_handle 40000000 40000001 [] (ChildCrashed (ActorId 2) ''x'') backing_off
       = Ret (Inr (), None, s')
     \<and> sa_children s' (ActorId 2) = Some \<lparr>ce_name = ''w'', ce_restart_count = 2,
         ce_alive = False, ce_last_restart_at = Some 0\<rparr>"
proof -
  have "backoff_delay backing_off (case sa_children backing_off (ActorId 2) of None \<Rightarrow> 0
      | Some e \<Rightarrow> ce_restart_count e + 1) = Ret 200000000"
    by (simp add: backing_off_def backoff_delay_eq backoff_shift_def sa_base_backoff_def
        restart_strategy_default_def time_defs)
  from child_crashed_decision [OF this, of 40000000 40000001 "[]" "''x''"] show ?thesis
    by (auto simp: backing_off_def Let_def elapsed_def)
qed

section \<open>Invariants over message sequences\<close>

text \<open>A message with what the environment supplies while it is handled.\<close>

record sa_input =
  in_now :: instant
  in_now' :: instant
  in_order :: "actor_id list"
  in_msg :: supervisor_message

definition sa_input_step :: "sa_input \<Rightarrow> supervisor_actor \<Rightarrow> sa_outcome" where
  "sa_input_step i s = sa_handle (in_now i) (in_now' i) (in_order i) (in_msg i) s"

inductive sa_step :: "supervisor_actor \<Rightarrow> supervisor_actor \<Rightarrow> bool" where
  handled: "sa_input_step i s = Ret (r, rep, s') \<Longrightarrow> sa_step s s'"

definition sa_init :: "supervisor_actor \<Rightarrow> bool" where
  "sa_init s \<longleftrightarrow> (\<exists>st. s = supervisor_actor_new st)"

definition alive_within_limit :: "supervisor_actor \<Rightarrow> bool" where
  "alive_within_limit s \<longleftrightarrow> (\<forall>c e. sa_children s c = Some e \<and> ce_alive e \<longrightarrow>
     ce_restart_count e \<le> sa_max_restarts s)"

lemma sa_handle_cases:
  assumes "sa_handle now now' order msg s = Ret (r, rep, s')"
  shows "sa_strategy s' = sa_strategy s \<and> r = Inr ()
    \<and> (s' = s
      \<or> (\<exists>c n. msg = ChildStarted c n \<and> sa_children s' = (sa_children s)
            (c \<mapsto> \<lparr>ce_name = n, ce_restart_count = 0, ce_alive = True, ce_last_restart_at = None\<rparr>))
      \<or> (\<exists>c why e delay. msg = ChildCrashed c why \<and> sa_children s c = Some e
           \<and> backoff_delay s (ce_restart_count e + 1) = Ret delay
           \<and> sa_children s' = (sa_children s)(c \<mapsto> crashed_entry (sa_max_restarts s) delay
                (ce_restart_count e + 1) now now' e)))"
  using assms
  by (auto simp: sa_handle_def Let_def split: supervisor_message.splits rust.splits option.splits)

lemma crashed_entry_alive:
  "ce_alive (crashed_entry limit delay n now now' e) \<Longrightarrow> n \<le> limit"
  "ce_restart_count (crashed_entry limit delay n now now' e) = n"
  by (auto simp: crashed_entry_def Let_def split: if_splits option.splits)

lemma alive_within_limit_step: "alive_within_limit s \<Longrightarrow> sa_step s s' \<Longrightarrow> alive_within_limit s'"
proof (erule sa_step.cases)
  fix i a r rep b
  assume inv: "alive_within_limit s" and "s = a" "s' = b" "sa_input_step i a = Ret (r, rep, b)"
  then have "sa_handle (in_now i) (in_now' i) (in_order i) (in_msg i) s = Ret (r, rep, s')"
    by (simp add: sa_input_step_def)
  from sa_handle_cases [OF this] inv show "alive_within_limit s'"
    by (auto simp: alive_within_limit_def sa_max_restarts_def crashed_entry_alive
        dest: crashed_entry_alive(1) split: if_splits)
qed

lemma alive_within_limit_init: "sa_init s \<Longrightarrow> alive_within_limit s"
  by (auto simp: sa_init_def supervisor_actor_new_def alive_within_limit_def)

interpretation sa_alive: invariant_of sa_init sa_step alive_within_limit
  by unfold_locales (erule alive_within_limit_init, erule (1) alive_within_limit_step)

text \<open>
  Whatever messages a supervising actor has handled, at whatever times, no child it
  reports alive has been restarted more often than \<open>max_restarts\<close> allows.
\<close>

theorem supervisor_alive_within_limit:
  assumes "reachable sa_init sa_step s" and "sa_children s c = Some e" and "ce_alive e"
  shows "ce_restart_count e \<le> sa_max_restarts s"
  using sa_alive.always [OF assms(1)] assms(2,3) by (auto simp: alive_within_limit_def)

theorem supervisor_alive_within_limit_witness:
  "\<exists>s. reachable sa_init sa_step s \<and> sa_children s (ActorId 2) \<noteq> None
    \<and> ce_restart_count (the (sa_children s (ActorId 2))) \<le> sa_max_restarts s"
proof -
  let ?s0 = "supervisor_actor_new restart_strategy_default"
  let ?e = "\<lparr>ce_name = ''w'', ce_restart_count = 0, ce_alive = True, ce_last_restart_at = None\<rparr>"
  let ?s1 = "?s0\<lparr>sa_children := (sa_children ?s0)(ActorId 2 \<mapsto> ?e)\<rparr>"
  have "reachable sa_init sa_step ?s0" by (rule reach_init) (auto simp: sa_init_def)
  moreover have "sa_step ?s0 ?s1"
    by (rule handled [of "\<lparr>in_now = 0, in_now' = 0, in_order = [],
          in_msg = ChildStarted (ActorId 2) ''w''\<rparr>"])
       (simp add: sa_input_step_def sa_handle_def)
  ultimately have r: "reachable sa_init sa_step ?s1" by (rule reach_step)
  then show ?thesis
    using supervisor_alive_within_limit [OF r, of "ActorId 2" ?e] by (intro exI [of _ ?s1]) simp
qed

section \<open>Status replies\<close>

text \<open>\<open>order\<close> is an order in which iterating the map can visit its keys.\<close>

definition iterates :: "actor_id list \<Rightarrow> (actor_id \<rightharpoonup> 'e) \<Rightarrow> bool" where
  "iterates order m \<longleftrightarrow> distinct order \<and> set order = dom m"

text \<open>
  The reply to \<open>GetStatus\<close> lists every child exactly once with its current name,
  count and liveness, and nothing else, whatever order the map iterates in; the state
  does not change.
\<close>

theorem get_status_lists_children:
  assumes "iterates order (sa_children s)"
  shows "\<exists>sts. sa_handle now now' order GetStatus s = Ret (Inr (), Some sts, s)
    \<and> distinct (map cs_id sts) \<and> length sts = card (dom (sa_children s))
    \<and> set sts = {status_of c e | c e. sa_children s c = Some e}"
proof -
  let ?sts = "map (\<lambda>c. status_of c (the (sa_children s c))) order"
  have ids: "map cs_id ?sts = order" by (simp add: status_of_def comp_def)
  have "length ?sts = card (dom (sa_children s))"
    using assms by (metis distinct_card iterates_def length_map)
  moreover have "set ?sts = {status_of c e | c e. sa_children s c = Some e}"
    using assms by (force simp: iterates_def dom_def)
  moreover have "distinct (map cs_id ?sts)"
    using assms by (simp only: ids iterates_def)
  ultimately show ?thesis by (simp add: sa_handle_def)
qed

theorem get_status_lists_children_witness:
  "\<exists>sts. sa_handle 0 0 [ActorId 2] GetStatus backing_off = Ret (Inr (), Some sts, backing_off)
    \<and> length sts = 1"
proof -
  have "iterates [ActorId 2] (sa_children backing_off)"
    by (simp add: iterates_def backing_off_def)
  from get_status_lists_children [OF this, of 0 0] show ?thesis by (auto simp: backing_off_def)
qed

section \<open>The two supervisors agree\<close>

text \<open>
  \<open>Supervisor\<close> and \<open>SupervisorActor\<close> implement the same restart limit. A state of the
  actor simulates a state of the supervisor when they have the same strategy and the
  same count for every child the actor knows.
\<close>

definition simulates :: "supervisor_actor \<Rightarrow> supervisor \<Rightarrow> bool" where
  "simulates a v \<longleftrightarrow> sa_strategy a = sv_strategy v
     \<and> (\<forall>c e. sa_children a c = Some e \<longrightarrow> ce_restart_count e = failure_count v c)"

lemma zero_backoff: "sa_base_backoff s = 0 \<Longrightarrow> backoff_delay s n = Ret 0"
  by (simp add: backoff_delay_eq time_defs)

text \<open>
  C19: with a zero base backoff the supervising actor refines the supervisor: on a crash
  report of a child it knows, it marks the child alive exactly when the supervisor
  answers restart, and the two stay in step.
\<close>

theorem supervisor_actor_refines_supervisor:
  assumes "simulates a v" and "sa_base_backoff a = 0" and "sa_children a c = Some e"
  shows "\<exists>a'. sa_handle now now' order (ChildCrashed c why) a = Ret (Inr (), None, a')
    \<and> simulates a' (snd (handle_child_failure c v))
    \<and> (\<exists>e'. sa_children a' c = Some e' \<and> (ce_alive e' \<longleftrightarrow> fst (handle_child_failure c v)))"
proof -
  have "sa_max_restarts a = max_restarts (sv_strategy v)"
    using assms(1) by (auto simp: simulates_def sa_max_restarts_def split: restart_strategy.split)
  moreover have "ce_restart_count e = failure_count v c"
    using assms(1,3) by (simp add: simulates_def)
  ultimately have alive: "ce_alive (crashed_entry (sa_max_restarts a) 0
      (ce_restart_count e + 1) now now' e) \<longleftrightarrow> fst (handle_child_failure c v)"
    by (auto simp: crashed_entry_def Let_def handle_child_failure_answer split: option.splits)
  let ?a' = "a\<lparr>sa_children := (sa_children a)(c \<mapsto>
    crashed_entry (sa_max_restarts a) 0 (ce_restart_count e + 1) now now' e)\<rparr>"
  have "sa_handle now now' order (ChildCrashed c why) a = Ret (Inr (), None, ?a')"
    using assms(3) by (simp add: sa_handle_def Let_def zero_backoff [OF assms(2)])
  moreover have "simulates ?a' (snd (handle_child_failure c v))"
    using assms(1,3) by (auto simp: simulates_def crashed_entry_alive handle_child_failure_count)
  ultimately show ?thesis using alive by auto
qed

theorem supervisor_actor_refines_supervisor_witness:
  "\<exists>a'. sa_handle 5 6 [] (ChildCrashed (ActorId 2) ''x'')
      \<lparr>sa_children = [ActorId 2 \<mapsto> \<lparr>ce_name = ''w'', ce_restart_count = 0, ce_alive = True,
         ce_last_restart_at = None\<rparr>], sa_strategy = OneForOne 1 0 0\<rparr> = Ret (Inr (), None, a')
    \<and> ce_alive (the (sa_children a' (ActorId 2)))"
proof -
  let ?e = "\<lparr>ce_name = ''w'', ce_restart_count = 0, ce_alive = True, ce_last_restart_at = None\<rparr>"
  let ?a = "\<lparr>sa_children = [ActorId 2 \<mapsto> ?e], sa_strategy = OneForOne 1 0 0\<rparr>"
  let ?v = "supervisor_new (ActorId 1) (OneForOne 1 0 0)"
  have "simulates ?a ?v" "sa_base_backoff ?a = 0" "sa_children ?a (ActorId 2) = Some ?e"
    by (simp_all add: simulates_def supervisor_new_def failure_count_def sa_base_backoff_def)
  from supervisor_actor_refines_supervisor [OF this, of 5 6 "[]" "''x''"] show ?thesis
    by (auto simp: handle_child_failure_answer failure_count_def supervisor_new_def)
qed

section \<open>The counter actor\<close>

datatype test_counter_message = Increment | GetValue

text \<open>\<open>count += 1\<close> wraps in a release build; the reply is the count.\<close>

fun test_counter_handle ::
  "test_counter_message \<Rightarrow> u64 \<Rightarrow> (unit, actor_error) result \<times> u64 option \<times> u64" where
  "test_counter_handle Increment c = (Inr (), None, c + 1)"
| "test_counter_handle GetValue c = (Inr (), Some c, c)"

end
