(* ===== verification/Actors.thy ===== *)
theory Actors
  imports ActorLoop SupervisorActor
begin

text \<open>
  The two actors of \<open>src/supervision/supervisor_actor.rs\<close> as handlers of the actor loop:
  their messages and replies travel as type-erased values, and their replies go through
  the context.
\<close>

section \<open>Invariants of an actor's state\<close>

text \<open>
  The contract by which a loop keeps an invariant of the actor it runs: every call of
  the handler keeps it.
\<close>

locale steady_actor =
  fixes handle :: "('v, 's, ('c, 'r, 'z) shared_scheme) handler"
    and inv :: "'s \<Rightarrow> bool"
  assumes call_keeps: "inv a \<Longrightarrow> handle v cx a w = Some (Ret (res, a'), w') \<Longrightarrow> inv a'"
begin

lemma handler_keeps:
  "inv (al_actor lp) \<Longrightarrow> run_handler rapi handle v rs lp w = Some (out, lp', w') \<Longrightarrow> inv (al_actor lp')"
  by (auto simp: run_handler_def Let_def split: option.splits rust.splits) (erule (1) call_keeps)

lemma envelope_keeps:
  "inv (al_actor lp) \<Longrightarrow> handle_envelope rapi ty handle env lp w = Some (out, lp', w')
    \<Longrightarrow> inv (al_actor lp')"
  by (auto simp: handle_envelope_def dest: handler_keeps split: envelope.splits sum.splits)

lemma after_keeps:
  "after_envelope counted (out, lp, w) = (out', lp', w') \<Longrightarrow> al_actor lp' = al_actor lp"
  by (auto simp: after_envelope_def split: if_splits)

lemma step_keeps:
  assumes "inv (al_actor lp)" and "loop_step api rapi ty handle stop lp w = Some (out, lp', w')"
  shows "inv (al_actor lp')"
  using assms
  by (auto simp: loop_step_def dest!: after_keeps dest: envelope_keeps
      split: option.splits if_splits sum.splits recv_timeout_error.splits)

lemma run_keeps:
  "inv (al_actor lp) \<Longrightarrow> loop_run api rapi ty handle stop n lp w = Some (out, lp', w')
    \<Longrightarrow> inv (al_actor lp')"
  by (induction n arbitrary: lp w)
     (auto dest: step_keeps split: option.splits if_splits)

end

section \<open>Values and handlers\<close>

datatype runact_value =
    SupMsg supervisor_message
  | CounterMsg test_counter_message
  | Statuses "child_status list"
  | Count u64

definition supervisor_message_type :: type_id where "supervisor_message_type = 1"
definition counter_message_type :: type_id where "counter_message_type = 2"
definition statuses_type :: type_id where "statuses_type = 3"
definition count_type :: type_id where "count_type = 4"

text \<open>Sending the reply of a handler, whose result it ignores.\<close>

definition answer ::
  "('r, 'v any) chan_api \<Rightarrow> actor_context \<Rightarrow> 'v any option
    \<Rightarrow> ((unit, actor_error) result \<times> 's) \<Rightarrow> ('c, 'r, 'z) shared_scheme
    \<Rightarrow> (((unit, actor_error) result \<times> 's) rust \<times> ('c, 'r, 'z) shared_scheme) option" where
  "answer rapi cx m res w =
     (case m of
        None \<Rightarrow> Some (Ret res, w)
      | Some a \<Rightarrow>
          (case reply rapi cx a (sh_replies w) of
             None \<Rightarrow> None
           | Some (_, st) \<Rightarrow> Some (Ret res, w\<lparr>sh_replies := st\<rparr>)))"

text \<open>
  What the environment supplies to a call of the supervising actor, its two clock
  readings and the iteration order of its map, is read off the shared state.
\<close>

definition supervisor_handler ::
  "('r, runact_value any) chan_api
    \<Rightarrow> (('c, 'r, 'z) shared_scheme \<Rightarrow> instant \<times> instant \<times> actor_id list)
    \<Rightarrow> (runact_value, supervisor_actor, ('c, 'r, 'z) shared_scheme) handler" where
  "supervisor_handler rapi readings v cx a w =
     (case v of
        SupMsg m \<Rightarrow>
          (case readings w of (now, now', order) \<Rightarrow>
            (case sa_handle now now' order m a of
               Panicked \<Rightarrow> Some (Panicked, w)
             | Ret (res, rep, a') \<Rightarrow>
                 answer rapi cx (map_option (\<lambda>s. Any statuses_type (Statuses s)) rep) (res, a') w))
      | _ \<Rightarrow> Some (Ret (Inr (), a), w))"

definition counter_handler ::
  "('r, runact_value any) chan_api \<Rightarrow> (runact_value, u64, ('c, 'r, 'z) shared_scheme) handler" where
  "counter_handler rapi v cx a w =
     (case v of
        CounterMsg m \<Rightarrow>
          (case test_counter_handle m a of (res, rep, a') \<Rightarrow>
             answer rapi cx (map_option (\<lambda>n. Any count_type (Count n)) rep) (res, a') w)
      | _ \<Rightarrow> Some (Ret (Inr (), a), w))"

interpretation supervising: steady_actor "supervisor_handler rapi readings" alive_within_limit
proof unfold_locales
  fix a v cx w res a' w'
  assume inv: "alive_within_limit a" and h: "supervisor_handler rapi readings v cx a w = Some (Ret (res, a'), w')"
  show "alive_within_limit a'"
  proof (cases v)
    case (SupMsg m)
    obtain now now' order where "readings w = (now, now', order)" by (cases "readings w") auto
    then obtain rep where "sa_handle now now' order m a = Ret (res, rep, a')"
      using h SupMsg by (auto simp: supervisor_handler_def answer_def split: rust.splits option.splits)
    then have "sa_step a a'"
      using sa_step.handled [of "\<lparr>in_now = now, in_now' = now', in_order = order, in_msg = m\<rparr>" a]
      by (simp add: sa_input_step_def)
    with inv show ?thesis by (rule alive_within_limit_step)
  qed (use h inv in \<open>auto simp: supervisor_handler_def\<close>)
qed

text \<open>
  C29: a supervising actor that runs in its loop keeps its promise whatever envelopes of
  whatever types arrive and however often the loop goes round: a child it calls alive
  has not been restarted more often than the strategy allows.
\<close>

theorem supervisor_loop_keeps_limit:
  assumes "alive_within_limit (al_actor lp)"
    and "loop_run api rapi ty (supervisor_handler rapi readings) stop n lp w = Some (out, lp', w')"
    and "sa_children (al_actor lp') c = Some e" and "ce_alive e"
  shows "ce_restart_count e \<le> sa_max_restarts (al_actor lp')"
  using supervising.run_keeps [OF assms(1,2)] assms(3,4) by (auto simp: alive_within_limit_def)

text \<open>A supervisor about to learn of its first child.\<close>

definition start_message :: "runact_value envelope" where
  "start_message = Message (Any supervisor_message_type (SupMsg (ChildStarted (ActorId 2) ''w'')))"

definition one_message :: "runact_value envelope \<Rightarrow> (runact_value envelope chan_view, runact_value any chan_view) shared" where
  "one_message env = \<lparr>sh_net = \<lparr>nt_senders = [ActorId 1 \<mapsto> 0], nt_poisoned = False,
       nt_store = \<lparr>st_map = [0 \<mapsto> ref_push env (ch_bounded ref_api 10)], st_next = 1\<rparr>\<rparr>,
     sh_replies = \<lparr>st_map = [0 \<mapsto> ch_bounded ref_api 1], st_next = 1\<rparr>\<rparr>"

definition actor_start :: "'s \<Rightarrow> 's actor_loop" where
  "actor_start a = \<lparr>al_rx = 0, al_actor = a, al_ctx = context_new (ActorId 1) 0, al_reductions = rc_new\<rparr>"

theorem supervisor_loop_keeps_limit_witness:
  "\<exists>lp' w'. loop_run ref_api ref_api supervisor_message_type
      (supervisor_handler ref_api (\<lambda>w. (5, 6, []))) False 1
      (actor_start (supervisor_actor_new restart_strategy_default)) (one_message start_message)
      = Some (LoopOn, lp', w')
    \<and> (\<exists>e. sa_children (al_actor lp') (ActorId 2) = Some e
      \<and> ce_restart_count e \<le> sa_max_restarts (al_actor lp'))"
proof -
  let ?h = "supervisor_handler ref_api (\<lambda>w. (5, 6, []))"
  let ?lp = "actor_start (supervisor_actor_new restart_strategy_default)"
  let ?e = "\<lparr>ce_name = ''w'', ce_restart_count = 0, ce_alive = True, ce_last_restart_at = None\<rparr>"
  have "alive_within_limit (al_actor ?lp)"
    by (simp add: actor_start_def supervisor_actor_new_def alive_within_limit_def)
  moreover have "\<exists>lp' w'. loop_run ref_api ref_api supervisor_message_type ?h False 1 ?lp
      (one_message start_message) = Some (LoopOn, lp', w') \<and> sa_children (al_actor lp') (ActorId 2) = Some ?e"
    by (simp add: loop_step_def one_message_def actor_start_def start_message_def ref_defs
        handle_envelope_def run_handler_def supervisor_handler_def sa_handle_def answer_def
        after_envelope_def context_new_def drop_reply_def supervisor_actor_new_def numeral_eq_Suc)
  ultimately obtain lp' w' where start: "alive_within_limit (al_actor ?lp)"
    and run: "loop_run ref_api ref_api supervisor_message_type ?h False 1 ?lp
      (one_message start_message) = Some (LoopOn, lp', w')"
    and child: "sa_children (al_actor lp') (ActorId 2) = Some ?e"
    by blast
  have "ce_restart_count ?e \<le> sa_max_restarts (al_actor lp')"
    by (rule supervisor_loop_keeps_limit [OF start run child]) simp
  with run child show ?thesis by blast
qed

end
