(* ===== verification/Scheduler.thy ===== *)
theory Scheduler
  imports RunQueue
begin

text \<open>
  \<open>src/scheduler/work_stealing.rs\<close>: one run queue per worker thread, round-robin
  dispatch, and the worker loop, cut at every access to shared state. A task is opaque;
  while a worker runs one, the task may return or panic, and nothing else happens on
  that thread.
\<close>

section \<open>State\<close>

datatype 't wpc =
    AtTop                  \<comment> \<open>head of the loop, about to read the stop flag\<close>
  | AtPop                  \<comment> \<open>about to pop the local queue\<close>
  | Stealing "nat list"    \<comment> \<open>the targets still to be tried\<close>
  | Moving "'t list"       \<comment> \<open>a stolen batch, being pushed to the local queue\<close>
  | Running 't
  | Exited                 \<comment> \<open>left the loop on the stop flag\<close>
  | Crashed                \<comment> \<open>unwound by a panicking task\<close>

record 't sched =
  sc_queues :: "'t run_queue list"
  sc_next :: usize
  sc_stop :: bool
  sc_workers :: "'t wpc list"
  sc_spawned :: "'t list"  \<comment> \<open>history: every task handed to \<open>spawn\<close>\<close>
  sc_done :: "'t list"     \<comment> \<open>history: the tasks that ran and returned\<close>
  sc_panicked :: "'t list" \<comment> \<open>history: the tasks that ran and panicked\<close>

text \<open>
  \<open>num_workers\<close> is \<open>available_parallelism()\<close>, a positive number, or 4.
\<close>

definition num_workers :: "nat option \<Rightarrow> nat" where
  "num_workers parallelism = (case parallelism of Some n \<Rightarrow> n | None \<Rightarrow> 4)"

definition scheduler_new :: "nat \<Rightarrow> 't sched" where
  "scheduler_new n =
     \<lparr>sc_queues = replicate n rq_new, sc_next = 0, sc_stop = False,
      sc_workers = replicate n AtTop, sc_spawned = [], sc_done = [], sc_panicked = []\<rparr>"

definition steal_targets :: "nat \<Rightarrow> nat \<Rightarrow> nat list" where
  "steal_targets n i = filter (\<lambda>k. k \<noteq> i) [0..<n]"

definition worker_count :: "'t sched \<Rightarrow> nat" where
  "worker_count s = length (sc_queues s)"

section \<open>Operations\<close>

definition sched_spawn :: "'t \<Rightarrow> 't sched \<Rightarrow> 't sched" where
  "sched_spawn t s =
     (let idx = unat (sc_next s) mod length (sc_queues s)
      in s\<lparr>sc_next := sc_next s + 1,
           sc_queues := (sc_queues s)[idx := rq_push t (sc_queues s ! idx)],
           sc_spawned := sc_spawned s @ [t]\<rparr>)"

definition set_pc :: "nat \<Rightarrow> 't wpc \<Rightarrow> 't sched \<Rightarrow> 't sched" where
  "set_pc i p s = s\<lparr>sc_workers := (sc_workers s)[i := p]\<rparr>"

definition set_queue :: "nat \<Rightarrow> 't run_queue \<Rightarrow> 't sched \<Rightarrow> 't sched" where
  "set_queue k q s = s\<lparr>sc_queues := (sc_queues s)[k := q]\<rparr>"

text \<open>One step of worker \<open>i\<close>'s loop; \<open>None\<close> while it runs a task or after it ended.\<close>

definition worker_step :: "nat \<Rightarrow> 't sched \<Rightarrow> 't sched option" where
  "worker_step i s =
     (case sc_workers s ! i of
        AtTop \<Rightarrow> Some (set_pc i (if sc_stop s then Exited else AtPop) s)
      | AtPop \<Rightarrow>
          (case rq_pop (sc_queues s ! i) of
             (Some t, q) \<Rightarrow> Some (set_pc i (Running t) (set_queue i q s))
           | (None, q) \<Rightarrow> Some (set_pc i (Stealing (steal_targets (length (sc_queues s)) i)) s))
      | Stealing [] \<Rightarrow> Some (set_pc i AtTop s)
      | Stealing (k # ks) \<Rightarrow>
          (case rq_steal_half (sc_queues s ! k) of
             (stolen, rest) \<Rightarrow>
               if stolen = [] then Some (set_pc i (Stealing ks) s)
               else Some (set_pc i (Moving stolen) (set_queue k rest s)))
      | Moving [] \<Rightarrow> Some (set_pc i AtTop s)
      | Moving (t # ts) \<Rightarrow>
          Some (set_pc i (Moving ts) (set_queue i (rq_push t (sc_queues s ! i)) s))
      | Running t \<Rightarrow> None
      | Exited \<Rightarrow> None
      | Crashed \<Rightarrow> None)"

text \<open>\<open>shutdown\<close> raises the flag and then joins every worker thread.\<close>

definition sched_stop :: "'t sched \<Rightarrow> 't sched" where
  "sched_stop s = s\<lparr>sc_stop := True\<rparr>"

definition joined :: "'t sched \<Rightarrow> bool" where
  "joined s \<longleftrightarrow> (\<forall>p \<in> set (sc_workers s). p = Exited \<or> p = Crashed)"

inductive sched_step :: "'t sched \<Rightarrow> 't sched \<Rightarrow> bool" where
  spawn: "sched_step s (sched_spawn t s)"
| stop: "sched_step s (sched_stop s)"
| work: "i < length (sc_workers s) \<Longrightarrow> worker_step i s = Some s' \<Longrightarrow> sched_step s s'"
| finish: "i < length (sc_workers s) \<Longrightarrow> sc_workers s ! i = Running t \<Longrightarrow>
     sched_step s ((set_pc i AtTop s)\<lparr>sc_done := sc_done s @ [t]\<rparr>)"
| panic: "i < length (sc_workers s) \<Longrightarrow> sc_workers s ! i = Running t \<Longrightarrow>
     sched_step s ((set_pc i Crashed s)\<lparr>sc_panicked := sc_panicked s @ [t]\<rparr>)"

definition sched_init :: "'t sched \<Rightarrow> bool" where
  "sched_init s \<longleftrightarrow> (\<exists>n > 0. s = scheduler_new n)"

text \<open>The cases of \<open>worker_step\<close>, as rules.\<close>

inductive worker_move :: "nat \<Rightarrow> 't sched \<Rightarrow> 't sched \<Rightarrow> bool" where
  top: "sc_workers s ! i = AtTop \<Longrightarrow>
     worker_move i s (set_pc i (if sc_stop s then Exited else AtPop) s)"
| pop: "sc_workers s ! i = AtPop \<Longrightarrow> sc_queues s ! i = t # q \<Longrightarrow>
     worker_move i s (set_pc i (Running t) (set_queue i q s))"
| pop_empty: "sc_workers s ! i = AtPop \<Longrightarrow> sc_queues s ! i = [] \<Longrightarrow>
     worker_move i s (set_pc i (Stealing (steal_targets (length (sc_queues s)) i)) s)"
| give_up: "sc_workers s ! i = Stealing [] \<Longrightarrow> worker_move i s (set_pc i AtTop s)"
| miss: "sc_workers s ! i = Stealing (k # ks) \<Longrightarrow> length (sc_queues s ! k) \<le> 1 \<Longrightarrow>
     worker_move i s (set_pc i (Stealing ks) s)"
| hit: "sc_workers s ! i = Stealing (k # ks) \<Longrightarrow> 1 < length (sc_queues s ! k) \<Longrightarrow>
     worker_move i s
       (set_pc i (Moving (fst (rq_steal_half (sc_queues s ! k))))
         (set_queue k (snd (rq_steal_half (sc_queues s ! k))) s))"
| moved: "sc_workers s ! i = Moving [] \<Longrightarrow> worker_move i s (set_pc i AtTop s)"
| move: "sc_workers s ! i = Moving (t # ts) \<Longrightarrow>
     worker_move i s (set_pc i (Moving ts) (set_queue i (rq_push t (sc_queues s ! i)) s))"

inductive_cases worker_moveE: "worker_move i s t"

lemma worker_step_steal:
  "sc_workers s ! i = Stealing (k # ks) \<Longrightarrow> worker_step i s = Some
     (if length (sc_queues s ! k) \<le> 1 then set_pc i (Stealing ks) s
      else set_pc i (Moving (fst (rq_steal_half (sc_queues s ! k))))
             (set_queue k (snd (rq_steal_half (sc_queues s ! k))) s))"
  by (simp add: worker_step_def split_beta steal_half_empty_iff)

lemma worker_step_pop:
  "sc_workers s ! i = AtPop \<Longrightarrow> worker_step i s = Some
     (case sc_queues s ! i of
        [] \<Rightarrow> set_pc i (Stealing (steal_targets (length (sc_queues s)) i)) s
      | t # q \<Rightarrow> set_pc i (Running t) (set_queue i q s))"
  by (simp add: worker_step_def rq_pop_def split: list.splits)

lemma worker_step_imp_move:
  assumes "worker_step i s = Some s'"
  shows "worker_move i s s'"
proof (cases "sc_workers s ! i")
  case AtPop
  with assms show ?thesis
    by (auto simp: worker_step_pop split: list.splits intro: worker_move.intros)
next
  case (Stealing ks)
  show ?thesis
  proof (cases ks)
    case Nil
    with assms Stealing show ?thesis
      by (auto simp: worker_step_def intro: worker_move.intros)
  next
    case (Cons k ks')
    with assms Stealing show ?thesis
      by (auto simp: worker_step_steal split: if_splits intro: worker_move.intros)
  qed
next
  case (Moving ts)
  with assms show ?thesis
    by (cases ts) (auto simp: worker_step_def intro: worker_move.intros)
qed (use assms in \<open>auto simp: worker_step_def intro: worker_move.intros\<close>)

lemma worker_move_imp_step: "worker_move i s s' \<Longrightarrow> worker_step i s = Some s'"
  by (erule worker_move.cases)
     (simp_all add: worker_step_pop worker_step_steal, simp_all add: worker_step_def)

lemma worker_step_move: "worker_step i s = Some s' \<longleftrightarrow> worker_move i s s'"
  by (blast intro: worker_step_imp_move worker_move_imp_step)

section \<open>No task is lost or run twice\<close>

text \<open>The tasks a worker holds in its hands.\<close>

fun held :: "'t wpc \<Rightarrow> 't list" where
  "held (Moving ts) = ts"
| "held (Running t) = [t]"
| "held _ = []"

definition tasks_of :: "'t sched \<Rightarrow> 't multiset" where
  "tasks_of s = mset (concat (sc_queues s)) + mset (concat (map held (sc_workers s)))
     + mset (sc_done s) + mset (sc_panicked s)"

fun targets_ok :: "nat \<Rightarrow> nat \<Rightarrow> 't wpc \<Rightarrow> bool" where
  "targets_ok n i (Stealing ks) = (\<forall>k \<in> set ks. k < n \<and> k \<noteq> i)"
| "targets_ok n i _ = True"

definition sched_wf :: "'t sched \<Rightarrow> bool" where
  "sched_wf s \<longleftrightarrow> sc_queues s \<noteq> [] \<and> length (sc_workers s) = length (sc_queues s)
     \<and> (\<forall>i < length (sc_workers s). targets_ok (length (sc_queues s)) i (sc_workers s ! i))"

definition sched_inv :: "'t sched \<Rightarrow> bool" where
  "sched_inv s \<longleftrightarrow> sched_wf s \<and> tasks_of s = mset (sc_spawned s)"

lemma set_pc_sel [simp]:
  "sc_queues (set_pc i p s) = sc_queues s" "sc_next (set_pc i p s) = sc_next s"
  "sc_stop (set_pc i p s) = sc_stop s" "sc_workers (set_pc i p s) = (sc_workers s)[i := p]"
  "sc_spawned (set_pc i p s) = sc_spawned s" "sc_done (set_pc i p s) = sc_done s"
  "sc_panicked (set_pc i p s) = sc_panicked s"
  by (simp_all add: set_pc_def)

lemma set_queue_sel [simp]:
  "sc_queues (set_queue k q s) = (sc_queues s)[k := q]" "sc_next (set_queue k q s) = sc_next s"
  "sc_stop (set_queue k q s) = sc_stop s" "sc_workers (set_queue k q s) = sc_workers s"
  "sc_spawned (set_queue k q s) = sc_spawned s" "sc_done (set_queue k q s) = sc_done s"
  "sc_panicked (set_queue k q s) = sc_panicked s"
  by (simp_all add: set_queue_def)

text \<open>How one program counter or one queue changes what the scheduler holds.\<close>

lemma held_update:
  assumes "i < length ws"
  shows "mset (concat (map held (ws[i := p]))) + mset (held (ws ! i))
    = mset (concat (map held ws)) + mset (held p)"
  using concat_update [of i "map held ws" "held p"] assms by (simp add: map_update)

lemma sched_init_inv: "sched_init s \<Longrightarrow> sched_inv s"
proof -
  assume "sched_init s"
  then obtain n where n: "0 < n" and s: "s = scheduler_new n" by (auto simp: sched_init_def)
  have "concat (replicate n ([] :: 'a list)) = []" for n by (induction n) auto
  then show ?thesis
    using n by (simp add: s sched_inv_def sched_wf_def tasks_of_def scheduler_new_def
        rq_new_def map_replicate_const)
qed

lemma worker_move_frame:
  assumes "worker_move i s t"
  shows "sc_spawned t = sc_spawned s" "sc_done t = sc_done s" "sc_panicked t = sc_panicked s"
    "length (sc_queues t) = length (sc_queues s)" "length (sc_workers t) = length (sc_workers s)"
    "j \<noteq> i \<Longrightarrow> sc_workers t ! j = sc_workers s ! j" "sc_stop t = sc_stop s"
  using assms by (auto elim!: worker_moveE)

lemma worker_move_wf:
  assumes "worker_move i s t" and "sched_wf s" and "i < length (sc_workers s)"
  shows "sched_wf t"
proof -
  have "targets_ok (length (sc_queues t)) i (sc_workers t ! i)"
    using assms(1)
  proof cases
    case (miss k ks)
    have "targets_ok (length (sc_queues s)) i (sc_workers s ! i)"
      using assms by (auto simp: sched_wf_def)
    with miss assms(3) show ?thesis by simp
  qed (use assms(2,3) in \<open>auto simp: sched_wf_def steal_targets_def\<close>)
  moreover have "targets_ok (length (sc_queues t)) j (sc_workers t ! j)"
    if "j \<noteq> i" "j < length (sc_workers s)" for j
    using that assms(2) worker_move_frame(4,6) [OF assms(1)] by (simp add: sched_wf_def)
  moreover have "sc_queues t \<noteq> []" "length (sc_workers t) = length (sc_queues t)"
    using assms(2) worker_move_frame(4,5) [OF assms(1)] by (auto simp: sched_wf_def)
  ultimately show ?thesis
    using worker_move_frame(5) [OF assms(1)] unfolding sched_wf_def by metis
qed

text \<open>A move takes from one place exactly what it puts into another.\<close>

lemma worker_move_tasks:
  assumes "worker_move i s t" and "sched_wf s" and i: "i < length (sc_workers s)"
  shows "mset (concat (sc_queues t)) + mset (concat (map held (sc_workers t)))
    = mset (concat (sc_queues s)) + mset (concat (map held (sc_workers s)))"
proof -
  have iq: "i < length (sc_queues s)" using assms(2) i by (simp add: sched_wf_def)
  note upd = held_update [OF i] concat_update [OF iq]
  show ?thesis using assms(1)
  proof cases
    case top
    then show ?thesis using upd(1) [of "if sc_stop s then Exited else AtPop"] by (auto split: if_splits)
  next
    case (pop u q)
    then show ?thesis using upd(1) [of "Running u"] upd(2) [of q] by simp
  next
    case pop_empty
    then show ?thesis
      using upd(1) [of "Stealing (steal_targets (length (sc_queues s)) i)"] by simp
  next
    case give_up
    then show ?thesis using upd(1) [of AtTop] by simp
  next
    case (miss k ks)
    then show ?thesis using upd(1) [of "Stealing ks"] by simp
  next
    case (hit k ks)
    have k: "k < length (sc_queues s)"
      using assms(2) i hit(2) by (force simp: sched_wf_def)
    have "mset (sc_queues s ! k) = mset (fst (rq_steal_half (sc_queues s ! k)))
        + mset (snd (rq_steal_half (sc_queues s ! k)))"
      by (metis mset_append rq.steal_split)
    then show ?thesis
      using hit upd(1) [of "Moving (fst (rq_steal_half (sc_queues s ! k)))"]
        concat_update [OF k, of "snd (rq_steal_half (sc_queues s ! k))"]
      by (simp add: ac_simps)
  next
    case moved
    then show ?thesis using upd(1) [of AtTop] by simp
  next
    case (move u us)
    then show ?thesis
      using upd(1) [of "Moving us"] upd(2) [of "rq_push u (sc_queues s ! i)"]
      by (simp add: rq_push_def)
  qed
qed

lemma sched_wf_pc:
  "sched_wf s \<Longrightarrow> targets_ok (length (sc_queues s)) i p \<Longrightarrow> sched_wf (set_pc i p s)"
  unfolding sched_wf_def set_pc_sel
  by (metis length_list_update list_update_beyond not_le nth_list_update_eq nth_list_update_neq)

lemma sched_spawn_inv:
  assumes "sched_inv s"
  shows "sched_inv (sched_spawn t s)"
proof -
  let ?k = "unat (sc_next s) mod length (sc_queues s)"
  have "?k < length (sc_queues s)" using assms by (simp add: sched_inv_def sched_wf_def)
  then have "mset (concat ((sc_queues s)[?k := sc_queues s ! ?k @ [t]]))
      = mset (concat (sc_queues s)) + {#t#}"
    using concat_update [of ?k "sc_queues s" "sc_queues s ! ?k @ [t]"] by simp
  with assms show ?thesis
    by (simp add: sched_inv_def sched_wf_def tasks_of_def sched_spawn_def rq_push_def Let_def)
qed

lemma sched_end_inv:
  assumes "sched_inv s" and i: "i < length (sc_workers s)" and "sc_workers s ! i = Running t"
  shows "sched_inv ((set_pc i AtTop s)\<lparr>sc_done := sc_done s @ [t]\<rparr>)"
    and "sched_inv ((set_pc i Crashed s)\<lparr>sc_panicked := sc_panicked s @ [t]\<rparr>)"
proof -
  have "mset (concat (map held (sc_workers s)))
      = add_mset t (mset (concat (map held ((sc_workers s)[i := p]))))" if "held p = []" for p
    using held_update [OF i, of p] assms(3) that by simp
  moreover have "sched_wf (set_pc i p s)" if "held p = []" "targets_ok (length (sc_queues s)) i p" for p
    using assms(1) that by (auto simp: sched_inv_def intro: sched_wf_pc)
  ultimately have "sched_wf (set_pc i p s) \<and> mset (concat (map held (sc_workers s)))
      = add_mset t (mset (concat (map held ((sc_workers s)[i := p]))))"
    if "p = AtTop \<or> p = Crashed" for p
    using that by fastforce
  from this [of AtTop] this [of Crashed]
  show "sched_inv ((set_pc i AtTop s)\<lparr>sc_done := sc_done s @ [t]\<rparr>)"
    and "sched_inv ((set_pc i Crashed s)\<lparr>sc_panicked := sc_panicked s @ [t]\<rparr>)"
    using assms(1) by (simp_all add: sched_inv_def tasks_of_def sched_wf_def)
qed

lemma sched_step_inv: "sched_inv s \<Longrightarrow> sched_step s t \<Longrightarrow> sched_inv t"
proof (erule sched_step.cases)
  fix i s1 s2
  assume "sched_inv s" "s = s1" "t = s2" "i < length (sc_workers s1)" "worker_step i s1 = Some s2"
  then show "sched_inv t"
    using worker_move_wf [of i s t] worker_move_tasks [of i s t] worker_move_frame [of i s t]
    by (simp add: sched_inv_def tasks_of_def worker_step_move)
qed (auto simp: sched_spawn_inv sched_end_inv, simp add: sched_stop_def sched_inv_def sched_wf_def tasks_of_def)

interpretation sched_keeps: invariant_of sched_init sched_step sched_inv
  by unfold_locales (erule sched_init_inv, erule (1) sched_step_inv)

text \<open>
  C2: under every interleaving of spawns, steals, task completions, task panics and
  shutdown, each spawned task is in exactly one place: some run queue, the hands of one
  worker, the finished tasks or the panicked ones. So stealing never loses a task, and
  no task ever runs twice.
\<close>

theorem scheduler_conserves_tasks:
  assumes "reachable sched_init sched_step s"
  shows "mset (sc_spawned s) = mset (concat (sc_queues s))
    + mset (concat (map held (sc_workers s))) + mset (sc_done s) + mset (sc_panicked s)"
  using sched_keeps.always [OF assms] by (simp add: sched_inv_def tasks_of_def)

section \<open>Executable runs\<close>

datatype 't sched_event =
    Spawn 't | Stop | Work nat | Finish nat | Panic nat

fun sched_exec :: "'t sched_event \<Rightarrow> 't sched \<Rightarrow> 't sched option" where
  "sched_exec (Spawn t) s = Some (sched_spawn t s)"
| "sched_exec Stop s = Some (sched_stop s)"
| "sched_exec (Work i) s = (if i < length (sc_workers s) then worker_step i s else None)"
| "sched_exec (Finish i) s =
     (if i < length (sc_workers s) then
        (case sc_workers s ! i of
           Running t \<Rightarrow> Some ((set_pc i AtTop s)\<lparr>sc_done := sc_done s @ [t]\<rparr>)
         | _ \<Rightarrow> None)
      else None)"
| "sched_exec (Panic i) s =
     (if i < length (sc_workers s) then
        (case sc_workers s ! i of
           Running t \<Rightarrow> Some ((set_pc i Crashed s)\<lparr>sc_panicked := sc_panicked s @ [t]\<rparr>)
         | _ \<Rightarrow> None)
      else None)"

fun sched_run :: "'t sched_event list \<Rightarrow> 't sched \<Rightarrow> 't sched option" where
  "sched_run [] s = Some s"
| "sched_run (e # es) s =
     (case sched_exec e s of None \<Rightarrow> None | Some t \<Rightarrow> sched_run es t)"

lemma sched_exec_step: "sched_exec e s = Some t \<Longrightarrow> sched_step s t"
  by (cases e) (auto split: if_splits wpc.splits intro: sched_step.intros)

lemma sched_run_reachable:
  "sched_run es s = Some t \<Longrightarrow> reachable sched_init sched_step s \<Longrightarrow>
   reachable sched_init sched_step t"
  by (induction es arbitrary: s)
     (auto split: option.splits dest: sched_exec_step intro: reach_step)

lemma scheduler_new_reachable: "0 < n \<Longrightarrow> reachable sched_init sched_step (scheduler_new n)"
  by (rule reach_init) (auto simp: sched_init_def)

lemma replicate_2: "replicate 2 x = [x, x]"
  by (simp add: numeral_2_eq_2)

lemmas sched_eval = replicate_2 scheduler_new_def sched_spawn_def sched_stop_def worker_step_def
  set_pc_def set_queue_def steal_targets_def rq_defs Let_def

definition demo_run :: "int sched_event list" where
  "demo_run = [Spawn 10, Spawn 11, Spawn 12, Work 0, Work 0]"

text \<open>Two workers; task 10 runs on worker 0 and task 12 waits behind it.\<close>

definition demo_state :: "int sched" where
  "demo_state =
     \<lparr>sc_queues = [[12], [11]], sc_next = 3, sc_stop = False,
      sc_workers = [Running 10, AtTop], sc_spawned = [10, 11, 12], sc_done = [], sc_panicked = []\<rparr>"

lemma demo_run_state: "sched_run demo_run (scheduler_new 2) = Some demo_state"
  by (simp add: demo_run_def demo_state_def sched_eval numeral_2_eq_2 [symmetric])

lemma demo_reachable: "reachable sched_init sched_step demo_state"
  by (rule sched_run_reachable [OF demo_run_state]) (simp add: scheduler_new_reachable)

theorem scheduler_conserves_tasks_witness:
  "mset [10, 11, 12] = mset (concat (sc_queues demo_state))
    + mset (concat (map held (sc_workers demo_state)))"
  using scheduler_conserves_tasks [OF demo_reachable] by (simp add: demo_state_def)

section \<open>Tasks behind a busy worker\<close>

definition busy :: "'t wpc \<Rightarrow> bool" where
  "busy p \<longleftrightarrow> (\<exists>t. p = Running t) \<or> p = Crashed"

text \<open>A step without new spawns during which worker \<open>i\<close> stays where it is.\<close>

definition step_while_busy :: "nat \<Rightarrow> 't sched \<Rightarrow> 't sched \<Rightarrow> bool" where
  "step_while_busy i s t \<longleftrightarrow> sched_step s t \<and> sc_spawned t = sc_spawned s
     \<and> sc_workers t ! i = sc_workers s ! i"

lemma worker_move_last_task:
  assumes "worker_move j s t" and "busy (sc_workers s ! i)" and "sc_queues s ! i = [u]"
    and "i < length (sc_queues s)"
  shows "sc_queues t ! i = [u]"
proof -
  have "j \<noteq> i" using assms(1,2) by (cases rule: worker_move.cases) (auto simp: busy_def)
  with assms show ?thesis
  proof (cases rule: worker_move.cases)
    case (hit k ks)
    with assms(3) have "k \<noteq> i" by auto
    with hit assms(3) show ?thesis by simp
  qed auto
qed

lemma last_task_stays:
  assumes "step_while_busy i s t" and "busy (sc_workers s ! i)" and "sc_queues s ! i = [u]"
    and "i < length (sc_queues s)"
  shows "sc_queues t ! i = [u] \<and> busy (sc_workers t ! i) \<and> length (sc_queues t) = length (sc_queues s)"
proof -
  have step: "sched_step s t" and spawned: "sc_spawned t = sc_spawned s"
    and same: "sc_workers t ! i = sc_workers s ! i"
    using assms(1) by (auto simp: step_while_busy_def)
  have "sc_queues t ! i = [u] \<and> length (sc_queues t) = length (sc_queues s)" using step
  proof cases
    case (work j)
    then show ?thesis
      using worker_move_last_task [of j s t i u] worker_move_frame(4) [of j s t] assms
      by (simp add: worker_step_move)
  qed (use assms(3) spawned in \<open>auto simp: sched_spawn_def sched_stop_def Let_def\<close>)
  with same assms(2) show ?thesis by simp
qed

text \<open>
  Dnd a busy worker is out of reach of every other worker:
  as long as the task running there does not return (or once that worker has been
  unwound by a panic) and nothing new is spawned, it stays queued, whatever the other
  workers do, because \<open>steal_half\<close> takes nothing from a queue of one.
\<close>

theorem last_task_never_stolen:
  assumes "(step_while_busy i)\<^sup>*\<^sup>* s t"
    and "busy (sc_workers s ! i)" and "sc_queues s ! i = [u]" and "i < length (sc_queues s)"
  shows "sc_queues t ! i = [u]"
proof -
  from assms(1) have "sc_queues t ! i = [u] \<and> busy (sc_workers t ! i)
      \<and> length (sc_queues t) = length (sc_queues s)"
  proof (induction rule: rtranclp_induct)
    case base
    with assms show ?case by simp
  next
    case (step y z)
    with assms(4) last_task_stays [of i y z u] show ?case by simp
  qed
  then show ?thesis by simp
qed

theorem last_task_never_stolen_witness:
  "reachable sched_init sched_step demo_state
    \<and> {t. (step_while_busy 0)\<^sup>*\<^sup>* demo_state t} \<subseteq> {t. sc_queues t ! 0 = [12]}"
proof -
  have "busy (sc_workers demo_state ! 0)" "sc_queues demo_state ! 0 = [12]"
    "0 < length (sc_queues demo_state)"
    by (simp_all add: demo_state_def busy_def)
  from last_task_never_stolen [OF _ this] show ?thesis by (blast intro: demo_reachable)
qed

section \<open>Round-robin dispatch\<close>

lemma spawn_all_frame:
  "length (sc_queues (fold sched_spawn ts s)) = length (sc_queues s)
   \<and> sc_next (fold sched_spawn ts s) = sc_next s + of_nat (length ts)"
  by (induction ts arbitrary: s) (simp_all add: sched_spawn_def Let_def)

lemma spawn_queue:
  assumes "sc_queues s \<noteq> []"
  shows "sc_queues (sched_spawn t s) ! j =
    (if j = unat (sc_next s) mod length (sc_queues s) then sc_queues s ! j @ [t]
     else sc_queues s ! j)"
proof -
  have "unat (sc_next s) mod length (sc_queues s) < length (sc_queues s)"
    using assms by simp
  then show ?thesis by (auto simp: sched_spawn_def Let_def rq_push_def)
qed

text \<open>
  From a new scheduler with \<open>n\<close> workers, the \<open>k\<close>-th spawned task (counting from
  zero) goes to queue \<open>k mod n\<close>: queue \<open>j\<close> holds exactly those tasks, in spawn order,
  for up to \<open>2^64\<close> spawns.
\<close>

theorem spawn_round_robin:
  assumes "0 < n" and "j < n" and "length ts \<le> 2 ^ 64"
  shows "sc_queues (fold sched_spawn ts (scheduler_new n)) ! j
    = map (\<lambda>k. ts ! k) (filter (\<lambda>k. k mod n = j) [0..<length ts])"
  using assms(3)
proof (induction ts rule: rev_induct)
  case Nil
  with assms show ?case by (simp add: scheduler_new_def rq_new_def)
next
  case (snoc t ts)
  let ?s = "fold sched_spawn ts (scheduler_new n)"
  have frame: "length (sc_queues ?s) = n" "unat (sc_next ?s) = length ts"
    using spawn_all_frame [of ts "scheduler_new n"] snoc.prems
    by (simp_all add: scheduler_new_def unat_of_nat_u64)
  then have spawned: "sc_queues (sched_spawn t ?s) ! j =
      (if j = length ts mod n then sc_queues ?s ! j @ [t] else sc_queues ?s ! j)"
    using assms(1) by (subst spawn_queue) auto
  have target: "map (\<lambda>k. (ts @ [t]) ! k) (filter (\<lambda>k. k mod n = j) [0..<length (ts @ [t])])
      = map (\<lambda>k. ts ! k) (filter (\<lambda>k. k mod n = j) [0..<length ts])
        @ (if j = length ts mod n then [t] else [])"
    by (auto simp: nth_append intro!: map_cong)
  have before: "sc_queues ?s ! j = map (\<lambda>k. ts ! k) (filter (\<lambda>k. k mod n = j) [0..<length ts])"
    using snoc by simp
  have "fold sched_spawn (ts @ [t]) (scheduler_new n) = sched_spawn t ?s" by simp
  then show ?case unfolding target spawned before by (simp only: spawned before) simp
qed

theorem spawn_round_robin_witness:
  "sc_queues (fold sched_spawn [10, 11, 12, 13, 14 :: int] (scheduler_new 2)) ! 1 = [11, 13]"
  by (subst spawn_round_robin) (simp_all add: upt_rec)

section \<open>Shutdown\<close>

text \<open>
  Once the stop flag is up, each worker thread only has stages left that it goes
  through downwards: finish what it was about to do, then leave the loop.
\<close>

fun stage :: "'t wpc \<Rightarrow> nat" where
  "stage AtPop = 5"
| "stage (Stealing ks) = 4"
| "stage (Moving ts) = 3"
| "stage (Running t) = 2"
| "stage AtTop = 1"
| "stage Exited = 0"
| "stage Crashed = 0"

fun left :: "'t wpc \<Rightarrow> nat" where
  "left (Stealing ks) = length ks"
| "left (Moving ts) = length ts"
| "left _ = 0"

definition tally :: "('t wpc \<Rightarrow> nat) \<Rightarrow> 't sched \<Rightarrow> nat" where
  "tally f s = sum_list (map f (sc_workers s))"

lemma tally_set_pc:
  assumes "i < length (sc_workers s)"
  shows "tally f (set_pc i p s) + f (sc_workers s ! i) = tally f s + f p"
proof -
  have "map f ((sc_workers s)[i := p]) = (map f (sc_workers s))[i := f p]" by (rule map_update)
  then show ?thesis
    using sum_list_update_nat [of i "map f (sc_workers s)" "f p"] assms by (simp add: tally_def)
qed

lemma tally_set_queue [simp]: "tally f (set_queue k q s) = tally f s"
  by (simp add: tally_def)

text \<open>A step of some worker thread: every step but a spawn or a second stop request.\<close>

definition advance :: "'t sched \<Rightarrow> 't sched \<Rightarrow> bool" where
  "advance s t \<longleftrightarrow> sched_step s t \<and> sc_spawned t = sc_spawned s \<and> t \<noteq> s"

definition descends :: "'t sched \<Rightarrow> 't sched \<Rightarrow> bool" where
  "descends s t \<longleftrightarrow> tally stage t < tally stage s
     \<or> tally stage t = tally stage s \<and> tally left t < tally left s"

lemma descendsI:
  assumes "i < length (sc_workers s)"
    and "sc_workers t = sc_workers (set_pc i p s)"
    and "stage p < stage (sc_workers s ! i)
      \<or> stage p = stage (sc_workers s ! i) \<and> left p < left (sc_workers s ! i)"
  shows "descends s t"
proof -
  have "tally f t = tally f (set_pc i p s)" for f using assms(2) by (simp add: tally_def)
  then show ?thesis
    using tally_set_pc [OF assms(1), of stage p] tally_set_pc [OF assms(1), of left p] assms(3)
    by (auto simp: descends_def)
qed

lemma stopped_move_descends:
  assumes "worker_move i s t" and "sc_stop s" and "i < length (sc_workers s)"
  shows "descends s t"
  using assms(1)
  by cases (rule descendsI [OF assms(3)], use assms(2) in auto)+

lemma stopped_advance_descends:
  assumes "advance s t" and "sc_stop s"
  shows "descends s t"
proof -
  have "sched_step s t" using assms(1) by (simp add: advance_def)
  then show ?thesis
  proof cases
    case (work i)
    then show ?thesis using stopped_move_descends assms(2) by (simp add: worker_step_move)
  next
    case (finish i u)
    then show ?thesis by (intro descendsI [of i s _ AtTop]) auto
  next
    case (panic i u)
    then show ?thesis by (intro descendsI [of i s _ Crashed]) auto
  qed (use assms in \<open>auto simp: advance_def sched_spawn_def sched_stop_def Let_def\<close>)
qed

lemma descends_wf: "wfp (\<lambda>t s. descends s t)"
proof -
  have "wf (measures [tally stage, tally left])" by (rule wf_measures)
  moreover have "{(t, s). descends s t} \<subseteq> measures [tally stage, tally left]"
    by (auto simp: descends_def)
  ultimately have "wf {(t, s). descends s t}" by (rule wf_subset)
  then show ?thesis by (simp add: wfp_def)
qed

lemma worker_step_live:
  "busy (sc_workers s ! i) \<or> sc_workers s ! i = Exited \<or> worker_step i s \<noteq> None"
  by (cases "sc_workers s ! i")
     (auto simp: worker_step_def busy_def split: list.splits prod.splits option.splits)

lemma unjoined_advances:
  assumes "\<not> joined s"
  shows "\<exists>t. advance s t"
proof -
  obtain i where i: "i < length (sc_workers s)"
    and live: "sc_workers s ! i \<noteq> Exited" "sc_workers s ! i \<noteq> Crashed"
    using assms by (auto simp: joined_def in_set_conv_nth)
  show ?thesis
  proof (cases "\<exists>u. sc_workers s ! i = Running u")
    case True
    then obtain u where u: "sc_workers s ! i = Running u" ..
    then have "sched_step s ((set_pc i AtTop s)\<lparr>sc_done := sc_done s @ [u]\<rparr>)"
      using i by (intro finish)
    moreover have "(set_pc i AtTop s)\<lparr>sc_done := sc_done s @ [u]\<rparr> \<noteq> s"
    proof
      assume "(set_pc i AtTop s)\<lparr>sc_done := sc_done s @ [u]\<rparr> = s"
      then have "sc_done s @ [u] = sc_done s" by (metis sched.select_convs(6) sched.surjective sched.update_convs(6))
      then show False by simp
    qed
    ultimately show ?thesis by (auto simp: advance_def)
  next
    case False
    then obtain t where t: "worker_step i s = Some t"
      using live worker_step_live [of s i] by (auto simp: busy_def)
    then have move: "worker_move i s t" by (simp add: worker_step_move)
    then have "sc_workers t ! i \<noteq> sc_workers s ! i"
      using i by cases auto
    then show ?thesis
      using sched_step.work [OF i t] worker_move_frame(1) [OF move]
      by (auto simp: advance_def)
  qed
qed

lemma joined_frozen:
  assumes "joined s" and "sched_step s t"
  shows "joined t \<and> sc_done t = sc_done s \<and> sc_panicked t = sc_panicked s"
proof -
  have ended: "sc_workers s ! i = Exited \<or> sc_workers s ! i = Crashed"
    if "i < length (sc_workers s)" for i
    using that assms(1) by (simp add: joined_def)
  show ?thesis using assms(2)
  proof cases
    case (work i)
    then show ?thesis using ended [of i] by (auto simp: worker_step_def)
  next
    case (finish i u)
    then show ?thesis using ended [of i] by simp
  next
    case (panic i u)
    then show ?thesis using ended [of i] by simp
  qed (use assms(1) in \<open>auto simp: joined_def sched_spawn_def sched_stop_def Let_def\<close>)
qed

lemma joined_stopped_stuck:
  assumes "joined s" and "sc_stop s"
  shows "\<not> advance s t"
proof
  assume adv: "advance s t"
  then have "descends s t" using assms(2) by (rule stopped_advance_descends)
  moreover have "tally stage s = 0" "tally left s = 0"
    using assms(1) by (auto simp: tally_def joined_def)
  ultimately show False by (simp add: descends_def)
qed

text \<open>
  C20: after \<open>shutdown\<close> has raised the flag, the worker threads cannot run forever as
  long as the tasks they are running end: there is no infinite sequence of their steps,
  and they only stop stepping when every one of them can be joined.
\<close>

theorem shutdown_joins:
  "wfp (\<lambda>t s :: 't sched. sc_stop s \<and> advance s t)
    \<and> (\<forall>s :: 't sched. sc_stop s \<longrightarrow> (joined s \<longleftrightarrow> (\<nexists>t. advance s t)))"
proof
  have "{(t, s :: 't sched). sc_stop s \<and> advance s t} \<subseteq> {(t, s). descends s t}"
    by (auto intro: stopped_advance_descends)
  moreover have "wf {(t, s :: 't sched). descends s t}"
    using descends_wf by (simp add: wfp_def)
  ultimately have "wf {(t, s :: 't sched). sc_stop s \<and> advance s t}"
    by (rule wf_subset [rotated])
  then show "wfp (\<lambda>t s :: 't sched. sc_stop s \<and> advance s t)"
    by (simp add: wfp_def)
  show "\<forall>s :: 't sched. sc_stop s \<longrightarrow> (joined s \<longleftrightarrow> (\<nexists>t. advance s t))"
    using unjoined_advances joined_stopped_stuck by blast
qed

theorem shutdown_joins_witness:
  "sc_stop (sched_stop demo_state) \<and> \<not> joined (sched_stop demo_state)
    \<and> (\<exists>t. advance (sched_stop demo_state) t)"
proof -
  have "\<not> joined (sched_stop demo_state)" by (simp add: demo_state_def sched_stop_def joined_def)
  moreover have "sc_stop (sched_stop demo_state)" by (simp add: sched_stop_def)
  ultimately show ?thesis using shutdown_joins by blast
qed

text \<open>
  When every worker has been joined, no task ever runs again: tasks still queued
  are dropped, and a later \<open>spawn\<close>, which reports nothing to its caller, only queues.
\<close>

theorem nothing_runs_after_join:
  assumes "joined s" and "sched_step\<^sup>*\<^sup>* s t"
  shows "joined t \<and> sc_done t = sc_done s \<and> sc_panicked t = sc_panicked s"
  using assms(2,1) by (induction rule: rtranclp_induct) (auto dest: joined_frozen)

text \<open>A scheduler that is shut down with a task still queued, and spawned to afterwards.\<close>

definition dropped_state :: "int sched" where
  "dropped_state =
     \<lparr>sc_queues = [[5]], sc_next = 1, sc_stop = True, sc_workers = [Exited],
      sc_spawned = [5], sc_done = [], sc_panicked = []\<rparr>"

lemma dropped_reachable: "reachable sched_init sched_step dropped_state"
proof (rule sched_run_reachable)
  show "sched_run [Spawn 5, Stop, Work 0] (scheduler_new 1) = Some dropped_state"
    by (simp add: dropped_state_def sched_eval)
qed (simp add: scheduler_new_reachable)

theorem nothing_runs_after_join_witness:
  "reachable sched_init sched_step dropped_state
    \<and> {t. sched_step\<^sup>*\<^sup>* (sched_spawn 6 dropped_state) t} \<subseteq> {t. sc_done t = []}"
proof -
  have "joined (sched_spawn 6 dropped_state)" "sc_done (sched_spawn 6 dropped_state) = []"
    by (simp_all add: dropped_state_def joined_def sched_spawn_def Let_def)
  with nothing_runs_after_join [of "sched_spawn 6 dropped_state"] show ?thesis
    by (auto intro: dropped_reachable)
qed

end
