(* ===== verification/Runtime.thy ===== *)
theory Runtime
  imports Actors Scheduler "HOL-Library.AList"
begin

text \<open>
  \<open>src/runtime.rs\<close>: the coordinator that spawns actors, routes messages and requests and
  shuts everything down. The shared maps and the services are its state; an operation
  that takes a lock reports \<open>RuntimeStopped\<close> when the lock is poisoned.
\<close>

section \<open>State\<close>

record actor_info =
  ai_id :: actor_id
  ai_name :: "string option"
  ai_mailbox_depth :: nat

text \<open>The map of actors is an association list without duplicate keys.\<close>

record ('c, 'r, 'q, 'p, 'v) runtime =
  rt_shared :: "('c, 'r) shared"
  rt_scheduler :: "chan_ref sched"
  rt_compute :: "('q, 'p, 'v) cpool"
  rt_timers :: "'v timers"
  rt_timer_stop :: bool
  rt_actors :: "(actor_id \<times> actor_info) list"
  rt_actors_poisoned :: bool
  rt_request_counter :: u64
  rt_stop :: bool
  rt_mailbox_capacity :: nat
  rt_shutdown_timeout :: duration

record runtime_config =
  cfg_compute :: compute_config
  cfg_mailbox_capacity :: nat
  cfg_shutdown_timeout :: duration

record runtime_stats =
  st_actor_count :: nat
  st_request_count :: u64

definition runtime_config_default :: "nat option \<Rightarrow> runtime_config" where
  "runtime_config_default parallelism =
     \<lparr>cfg_compute = compute_config_default parallelism, cfg_mailbox_capacity = 1000,
      cfg_shutdown_timeout = from_secs 5\<rparr>"

definition with_config ::
  "('q, 'v task) chan_api \<Rightarrow> nat option \<Rightarrow> u64 \<Rightarrow> u64 \<Rightarrow> runtime_config
    \<Rightarrow> (('c, 'r, 'q, 'p, 'v) runtime, runtime_error) result" where
  "with_config qapi parallelism timer_ids task_ids config =
     (case compute_new qapi (cfg_compute config) store_empty task_ids of
        Inl _ \<Rightarrow> Inl RuntimeStopped
      | Inr pool \<Rightarrow>
          Inr \<lparr>rt_shared = \<lparr>sh_net = net_empty, sh_replies = store_empty\<rparr>,
            rt_scheduler = scheduler_new (num_workers parallelism), rt_compute = pool,
            rt_timers = timers_new\<lparr>tm_counter := timer_ids\<rparr>, rt_timer_stop = False,
            rt_actors = [], rt_actors_poisoned = False, rt_request_counter = 0, rt_stop = False,
            rt_mailbox_capacity = cfg_mailbox_capacity config,
            rt_shutdown_timeout = cfg_shutdown_timeout config\<rparr>)"

definition runtime_new ::
  "('q, 'v task) chan_api \<Rightarrow> nat option \<Rightarrow> u64 \<Rightarrow> u64
    \<Rightarrow> (('c, 'r, 'q, 'p, 'v) runtime, runtime_error) result" where
  "runtime_new qapi parallelism timer_ids task_ids =
     with_config qapi parallelism timer_ids task_ids (runtime_config_default parallelism)"

definition rt_net :: "('c, 'r, 'q, 'p, 'v) runtime \<Rightarrow> 'c net" where
  "rt_net s = sh_net (rt_shared s)"

definition set_net :: "'c net \<Rightarrow> ('c, 'r, 'q, 'p, 'v) runtime \<Rightarrow> ('c, 'r, 'q, 'p, 'v) runtime" where
  "set_net n s = s\<lparr>rt_shared := (rt_shared s)\<lparr>sh_net := n\<rparr>\<rparr>"

definition set_replies :: "'r store \<Rightarrow> ('c, 'r, 'q, 'p, 'v) runtime \<Rightarrow> ('c, 'r, 'q, 'p, 'v) runtime" where
  "set_replies st s = s\<lparr>rt_shared := (rt_shared s)\<lparr>sh_replies := st\<rparr>\<rparr>"

section \<open>Spawning\<close>

definition next_actor_id :: "('c, 'r, 'q, 'p, 'v) runtime \<Rightarrow> actor_id" where
  "next_actor_id s = actor_id_new (of_nat (length (rt_actors s)) + 1)"

definition enlist :: "actor_id \<Rightarrow> string option \<Rightarrow> ('c, 'r, 'q, 'p, 'v) runtime \<Rightarrow> ('c, 'r, 'q, 'p, 'v) runtime" where
  "enlist i n s = s\<lparr>rt_actors := AList.update i \<lparr>ai_id = i, ai_name = n, ai_mailbox_depth = 0\<rparr> (rt_actors s)\<rparr>"

text \<open>
  The mailbox of a new actor: a bounded channel with two senders, one in the map and one
  in the actor's context. A sender that was in the map under that id is dropped.
\<close>

definition open_mailbox ::
  "('c, 'v envelope) chan_api \<Rightarrow> nat \<Rightarrow> actor_id \<Rightarrow> 'c net \<Rightarrow> chan_ref \<times> 'c net" where
  "open_mailbox api capacity i n =
     (let (r, st) = store_new (ch_clone_sender api (ch_bounded api capacity)) (nt_store n);
          st' = (case nt_senders n i of None \<Rightarrow> st | Some old \<Rightarrow> store_upd old (ch_drop_sender api) st)
      in (r, n\<lparr>nt_senders := (nt_senders n)(i \<mapsto> r), nt_store := st'\<rparr>))"

definition actor_start_context :: "actor_id \<Rightarrow> chan_ref \<Rightarrow> bool \<Rightarrow> actor_context" where
  "actor_start_context i r pool_open =
     (let cx = set_timer_handle (set_senders (context_new i r))
      in if pool_open then set_compute_sender cx else cx)"

text \<open>
  \<open>spawn\<close>: with the id and the new state it yields the loop it handed to the scheduler,
  which runs once a worker takes it. The closure is a task of the scheduler; it is named
  by the mailbox it owns, which no other task shares.
\<close>

definition rt_spawn ::
  "('c, 'v envelope) chan_api \<Rightarrow> ('q, 'v task) chan_api \<Rightarrow> 's \<Rightarrow> ('c, 'r, 'q, 'p, 'v) runtime
    \<Rightarrow> (actor_id, runtime_error) result \<times> ('c, 'r, 'q, 'p, 'v) runtime \<times> 's actor_loop option" where
  "rt_spawn api qapi actor s =
     (if rt_actors_poisoned s then (Inl RuntimeStopped, s, None)
      else
        (let i = next_actor_id s; s1 = enlist i None s in
         if nt_poisoned (rt_net s) then (Inl RuntimeStopped, s1, None)
         else
           (let (r, n) = open_mailbox api (rt_mailbox_capacity s) i (rt_net s);
                cx = actor_start_context i r (cp_sender (rt_compute s));
                pool = (if cp_sender (rt_compute s)
                  then (rt_compute s)\<lparr>cp_queue := ch_clone_sender qapi (cp_queue (rt_compute s))\<rparr>
                  else rt_compute s)
            in (Inr i,
                (set_net n s1)\<lparr>rt_compute := pool, rt_scheduler := sched_spawn r (rt_scheduler s)\<rparr>,
                Some \<lparr>al_rx = r, al_actor = actor, al_ctx = cx, al_reductions = rc_new\<rparr>))))"

text \<open>
  \<open>spawn_supervisor\<close>, which may be called by several threads: the id is picked under the
  read lock and the entry inserted later under the write lock. The supervisor it builds
  is dropped at the end.
\<close>

definition supervisor_pick :: "('c, 'r, 'q, 'p, 'v) runtime \<Rightarrow> (actor_id, runtime_error) result" where
  "supervisor_pick s = (if rt_actors_poisoned s then Inl RuntimeStopped else Inr (next_actor_id s))"

definition supervisor_build :: "actor_id \<Rightarrow> restart_strategy \<Rightarrow> child_spec list \<Rightarrow> supervisor" where
  "supervisor_build i st children = fold supervisor_child children (supervisor_new i st)"

definition supervisor_insert ::
  "actor_id \<Rightarrow> ('c, 'r, 'q, 'p, 'v) runtime
    \<Rightarrow> (actor_id, runtime_error) result \<times> ('c, 'r, 'q, 'p, 'v) runtime" where
  "supervisor_insert i s =
     (if rt_actors_poisoned s then (Inl RuntimeStopped, s)
      else (Inr i, enlist i (Some ''supervisor'') s))"

definition rt_spawn_supervisor ::
  "restart_strategy \<Rightarrow> child_spec list \<Rightarrow> ('c, 'r, 'q, 'p, 'v) runtime
    \<Rightarrow> (actor_id, runtime_error) result \<times> ('c, 'r, 'q, 'p, 'v) runtime" where
  "rt_spawn_supervisor st children s =
     (case supervisor_pick s of
        Inl e \<Rightarrow> (Inl e, s)
      | Inr i \<Rightarrow> (let built = supervisor_build i st children in supervisor_insert i s))"

section \<open>Messages and requests\<close>

definition rt_send ::
  "('c, 'v envelope) chan_api \<Rightarrow> actor_id \<Rightarrow> 'v any \<Rightarrow> ('c, 'r, 'q, 'p, 'v) runtime
    \<Rightarrow> (unit, runtime_error) result \<times> ('c, 'r, 'q, 'p, 'v) runtime" where
  "rt_send api target m s =
     (let (res, n) = net_try_send api target (Message m) (rt_net s) in (res, set_net n s))"

definition rt_send_blocking ::
  "('c, 'v envelope) chan_api \<Rightarrow> actor_id \<Rightarrow> 'v any \<Rightarrow> ('c, 'r, 'q, 'p, 'v) runtime
    \<Rightarrow> ((unit, runtime_error) result \<times> ('c, 'r, 'q, 'p, 'v) runtime) option" where
  "rt_send_blocking api target m s =
     map_option (\<lambda>(res, n). (res, set_net n s)) (net_send api target (Message m) (rt_net s))"

record request_handle =
  rq_id :: u64
  rq_receiver :: chan_ref

definition rt_request ::
  "('c, 'v envelope) chan_api \<Rightarrow> ('r, 'v any) chan_api \<Rightarrow> actor_id \<Rightarrow> 'v any
    \<Rightarrow> ('c, 'r, 'q, 'p, 'v) runtime
    \<Rightarrow> (request_handle, runtime_error) result \<times> ('c, 'r, 'q, 'p, 'v) runtime" where
  "rt_request api rapi target m s =
     (let (i, counter) = fetch_add1 (rt_request_counter s);
          s1 = s\<lparr>rt_request_counter := counter\<rparr>;
          (r, st) = store_new (ch_bounded rapi 1) (sh_replies (rt_shared s))
      in case net_try_send api target (Request i m r) (rt_net s) of
           (Inl e, n) \<Rightarrow>
             (Inl e, set_replies (store_upd r (\<lambda>c. ch_drop_receiver rapi (ch_drop_sender rapi c)) st) (set_net n s1))
         | (Inr _, n) \<Rightarrow> (Inr \<lparr>rq_id = i, rq_receiver = r\<rparr>, set_replies st (set_net n s1)))"

text \<open>Reading the reply: every error of the channel is \<open>RuntimeStopped\<close>.\<close>

definition request_recv ::
  "('r, 'v any) chan_api \<Rightarrow> 'r \<Rightarrow> (('v any, runtime_error) result \<times> 'r) option" where
  "request_recv rapi c =
     (case ch_recv rapi c of
        None \<Rightarrow> None
      | Some (Inl _) \<Rightarrow> Some (Inl RuntimeStopped, c)
      | Some (Inr (m, c')) \<Rightarrow> Some (Inr m, c'))"

definition request_try_recv :: "('r, 'v any) chan_api \<Rightarrow> 'r \<Rightarrow> ('v any, runtime_error) result \<times> 'r" where
  "request_try_recv rapi c =
     (case ch_try_recv rapi c of Inl _ \<Rightarrow> (Inl RuntimeStopped, c) | Inr (m, c') \<Rightarrow> (Inr m, c'))"

definition request_recv_timeout :: "('r, 'v any) chan_api \<Rightarrow> 'r \<Rightarrow> ('v any, runtime_error) result \<times> 'r" where
  "request_recv_timeout rapi c =
     (case ch_recv_timeout rapi c of Inl _ \<Rightarrow> (Inl RuntimeStopped, c) | Inr (m, c') \<Rightarrow> (Inr m, c'))"

text \<open>
  \<open>request_blocking\<close>: \<open>others\<close> is what the other threads do between the request and the
  moment its reply is read; the reply must be of the expected type. The handle, and with
  it the receiver of the reply channel, is dropped at the end.
\<close>

definition reply_as :: "type_id \<Rightarrow> ('v any, runtime_error) result \<Rightarrow> ('v, runtime_error) result" where
  "reply_as ty r =
     (case r of
        Inl e \<Rightarrow> Inl e
      | Inr m \<Rightarrow> (case downcast ty m of Inl _ \<Rightarrow> Inl RuntimeStopped | Inr v \<Rightarrow> Inr v))"

definition rt_request_blocking ::
  "('c, 'v envelope) chan_api \<Rightarrow> ('r, 'v any) chan_api \<Rightarrow> type_id \<Rightarrow> actor_id \<Rightarrow> 'v any
    \<Rightarrow> duration option \<Rightarrow> (('c, 'r, 'q, 'p, 'v) runtime \<Rightarrow> ('c, 'r, 'q, 'p, 'v) runtime)
    \<Rightarrow> ('c, 'r, 'q, 'p, 'v) runtime
    \<Rightarrow> (('v, runtime_error) result \<times> ('c, 'r, 'q, 'p, 'v) runtime) option" where
  "rt_request_blocking api rapi ty target m timeout others s =
     (case rt_request api rapi target m s of
        (Inl e, s1) \<Rightarrow> Some (Inl e, s1)
      | (Inr h, s1) \<Rightarrow>
          (let s2 = others s1; st = sh_replies (rt_shared s2); r = rq_receiver h in
           case st_map st r of
             None \<Rightarrow> None
           | Some c \<Rightarrow>
               (case timeout of
                  Some _ \<Rightarrow>
                    (case request_recv_timeout rapi c of (res, c') \<Rightarrow>
                       Some (reply_as ty res, set_replies (store_set r (ch_drop_receiver rapi c') st) s2))
                | None \<Rightarrow>
                    map_option (\<lambda>(res, c').
                        (reply_as ty res, set_replies (store_set r (ch_drop_receiver rapi c') st) s2))
                      (request_recv rapi c))))"

section \<open>Inspection and timers\<close>

text \<open>\<open>order\<close> is the order in which iterating the map visits its entries.\<close>

definition list_actors ::
  "(actor_id \<times> actor_info) list \<Rightarrow> ('c, 'r, 'q, 'p, 'v) runtime \<Rightarrow> (actor_info list, runtime_error) result" where
  "list_actors order s = (if rt_actors_poisoned s then Inl RuntimeStopped else Inr (map snd order))"

definition inspect_actor ::
  "actor_id \<Rightarrow> ('c, 'r, 'q, 'p, 'v) runtime \<Rightarrow> (actor_info option, runtime_error) result" where
  "inspect_actor i s = (if rt_actors_poisoned s then Inl RuntimeStopped else Inr (map_of (rt_actors s) i))"

definition runtime_stats_of :: "('c, 'r, 'q, 'p, 'v) runtime \<Rightarrow> runtime_stats" where
  "runtime_stats_of s = \<lparr>st_actor_count = length (rt_actors s), st_request_count = rt_request_counter s\<rparr>"

definition rt_timer :: "'a \<times> 'v timers \<Rightarrow> ('c, 'r, 'q, 'p, 'v) runtime \<Rightarrow> 'a \<times> ('c, 'r, 'q, 'p, 'v) runtime" where
  "rt_timer x s = (fst x, s\<lparr>rt_timers := snd x\<rparr>)"

definition rt_schedule_timer ::
  "instant \<Rightarrow> duration \<Rightarrow> actor_id \<Rightarrow> 'v any \<Rightarrow> ('c, 'r, 'q, 'p, 'v) runtime
    \<Rightarrow> timer_id rust \<times> ('c, 'r, 'q, 'p, 'v) runtime" where
  "rt_schedule_timer now d target m s = rt_timer (service_schedule now d target m (rt_timers s)) s"

definition rt_schedule_interval ::
  "instant \<Rightarrow> duration \<Rightarrow> actor_id \<Rightarrow> 'v any \<Rightarrow> ('c, 'r, 'q, 'p, 'v) runtime
    \<Rightarrow> timer_id rust \<times> ('c, 'r, 'q, 'p, 'v) runtime" where
  "rt_schedule_interval now d target m s =
     rt_timer (service_schedule_interval now d target (Repeating m) (rt_timers s)) s"

definition rt_cancel_timer ::
  "timer_id \<Rightarrow> ('c, 'r, 'q, 'p, 'v) runtime \<Rightarrow> unit rust \<times> ('c, 'r, 'q, 'p, 'v) runtime" where
  "rt_cancel_timer i s = rt_timer (cancel_timer i (rt_timers s)) s"

section \<open>Shutting down\<close>

text \<open>
  The waiting loop reads the clock until the deadline has passed, sleeping 10 ms in
  between: the number of sleeps for a sequence of readings, \<open>None\<close> if it is still waiting
  when they end.
\<close>

fun wait_deadline :: "instant \<Rightarrow> instant list \<Rightarrow> nat option" where
  "wait_deadline deadline [] = None"
| "wait_deadline deadline (t # ts) =
     (if t < deadline then map_option Suc (wait_deadline deadline ts) else Some 0)"

definition clear_senders :: "('c, 'v envelope) chan_api \<Rightarrow> 'c net \<Rightarrow> 'c net" where
  "clear_senders api n = n\<lparr>nt_senders := Map.empty, nt_store := (nt_store n)\<lparr>st_map :=
     (\<lambda>r. if r \<in> ran (nt_senders n) then map_option (ch_drop_sender api) (st_map (nt_store n) r)
          else st_map (nt_store n) r)\<rparr>\<rparr>"

text \<open>What follows the wait; the joins of the three services are those of their components.\<close>

definition shutdown_services ::
  "('c, 'v envelope) chan_api \<Rightarrow> ('q, 'v task) chan_api \<Rightarrow> ('c, 'r, 'q, 'p, 'v) runtime
    \<Rightarrow> (unit, runtime_error) result \<times> ('c, 'r, 'q, 'p, 'v) runtime" where
  "shutdown_services api qapi s =
     (if nt_poisoned (rt_net s) then (Inl RuntimeStopped, s)
      else
        (let s1 = set_net (clear_senders api (rt_net s)) s in
         if rt_actors_poisoned s then (Inl RuntimeStopped, s1)
         else (Inr (), s1\<lparr>rt_actors := [], rt_timer_stop := True,
           rt_scheduler := sched_stop (rt_scheduler s),
           rt_compute := pool_take_sender qapi (pool_raise_stop (rt_compute s))\<rparr>)))"

definition rt_shutdown ::
  "('c, 'v envelope) chan_api \<Rightarrow> ('q, 'v task) chan_api \<Rightarrow> instant \<Rightarrow> instant list
    \<Rightarrow> ('c, 'r, 'q, 'p, 'v) runtime
    \<Rightarrow> ((unit, runtime_error) result rust \<times> ('c, 'r, 'q, 'p, 'v) runtime) option" where
  "rt_shutdown api qapi now readings s =
     (let s1 = s\<lparr>rt_stop := True\<rparr> in
      case instant_add now (rt_shutdown_timeout s) of
        Panicked \<Rightarrow> Some (Panicked, s1)
      | Ret deadline \<Rightarrow>
          (case wait_deadline deadline readings of
             None \<Rightarrow> None
           | Some _ \<Rightarrow> (case shutdown_services api qapi s1 of (r, s2) \<Rightarrow> Some (Ret r, s2))))"

end
