(* ===== verification/ComputeInvariants.thy ===== *)
theory ComputeInvariants
  imports ComputePool
begin

text \<open>
  What the threads of the compute pool keep true, whatever the interleaving: where each
  task is, the state of its result channel, and what the results say about the jobs.
\<close>

section \<open>Where a task is\<close>

fun holding :: "'v cphase \<Rightarrow> 'v task list" where
  "holding (CpGot t) = [t]"
| "holding (CpRunning t) = [t]"
| "holding (CpRan t) = [t]"
| "holding (CpSend t r) = [t]"
| "holding _ = []"

definition in_hand :: "('q, 'c, 'v) cpool \<Rightarrow> 'v task list" where
  "in_hand s = concat (map holding (cp_workers s))"

definition books_ok :: "('q \<Rightarrow> 'v task chan_view) \<Rightarrow> ('q, 'c, 'v) cpool \<Rightarrow> bool" where
  "books_ok qview s \<longleftrightarrow> mset (cp_submitted s) =
     mset (cv_queue (qview (cp_queue s))) + mset (in_hand s) + mset (map fst (cp_sent s))
     + mset (cp_dropped s)"

text \<open>The channel is open exactly to the workers that still run, and empty without them.\<close>

definition running :: "('q, 'c, 'v) cpool \<Rightarrow> nat" where
  "running s = length (filter (\<lambda>p. p \<noteq> CpExited) (cp_workers s))"

definition queue_ok :: "('q \<Rightarrow> 'v task chan_view) \<Rightarrow> ('q, 'c, 'v) cpool \<Rightarrow> bool" where
  "queue_ok qview s \<longleftrightarrow> (let v = qview (cp_queue s) in
     cv_bound v = None \<and> cv_receivers v = running s \<and> (running s = 0 \<longrightarrow> cv_queue v = []))"

lemma set_worker_sel [simp]:
  "cp_queue (set_worker w p s) = cp_queue s" "cp_results (set_worker w p s) = cp_results s"
  "cp_raised (set_worker w p s) = cp_raised s" "cp_next_flag (set_worker w p s) = cp_next_flag s"
  "cp_stop (set_worker w p s) = cp_stop s" "cp_sender (set_worker w p s) = cp_sender s"
  "cp_workers (set_worker w p s) = (cp_workers s)[w := p]"
  "cp_submitted (set_worker w p s) = cp_submitted s" "cp_started (set_worker w p s) = cp_started s"
  "cp_sent (set_worker w p s) = cp_sent s" "cp_dropped (set_worker w p s) = cp_dropped s"
  by (simp_all add: set_worker_def)

lemma in_hand_cong: "cp_workers t = cp_workers s \<Longrightarrow> in_hand t = in_hand s"
  by (simp add: in_hand_def)

lemma in_hand_update:
  assumes "w < length (cp_workers s)" and "cp_workers t = (cp_workers s)[w := p]"
  shows "mset (in_hand t) + mset (holding (cp_workers s ! w)) = mset (in_hand s) + mset (holding p)"
  using concat_update [of w "map holding (cp_workers s)" "holding p"] assms
  by (simp add: in_hand_def map_update)

lemma length_filter_update:
  "w < length xs \<Longrightarrow> length (filter P (xs[w := y])) + (if P (xs ! w) then 1 else 0)
     = length (filter P xs) + (if P y then 1 else 0)"
proof (induction xs arbitrary: w)
  case Nil
  then show ?case by simp
next
  case (Cons x xs)
  then show ?case
  proof (cases w)
    case (Suc v)
    with Cons.prems Cons.IH [of v] show ?thesis by (simp split: if_splits)
  qed (simp add: Cons.prems)
qed

lemma running_update:
  assumes "w < length (cp_workers s)" and "cp_workers t = (cp_workers s)[w := p]"
    and "cp_workers s ! w \<noteq> CpExited"
  shows "running t + (if p = CpExited then 1 else 0) = running s"
  using length_filter_update [OF assms(1), of "\<lambda>p. p \<noteq> CpExited" p] assms(2,3)
  by (auto simp: running_def split: if_splits)

lemma make_task_eqs:
  assumes "make_task rapi now job s = (t, s1)"
  shows "s1 = s\<lparr>cp_results := snd (store_new (ch_bounded rapi 1) (cp_results s)),
      cp_next_flag := Suc (cp_next_flag s), cp_counter := cp_counter s + 1\<rparr>
    \<and> tk_result_sender t = fst (store_new (ch_bounded rapi 1) (cp_results s))
    \<and> tk_cancelled t = cp_next_flag s \<and> tk_job t = job"
  using assms
  by (auto simp: make_task_def Let_def task_id_new_def fetch_add1_def split: prod.splits)

text \<open>What the channel's laws say of the pool's queue.\<close>

context chan begin

lemma receive_step:
  assumes "cv_bound (view c) = None" and "ch_recv_timeout api c = Inr (m, c')"
  shows "cv_queue (view c) = m # cv_queue (view c')
    \<and> view c' = (view c)\<lparr>cv_queue := cv_queue (view c')\<rparr>"
proof (cases "cv_queue (view c)")
  case Nil
  then show ?thesis using recv_timeout_empty [of c] assms by (auto split: if_splits)
next
  case (Cons x xs)
  then show ?thesis using recv_timeout_takes [of c x xs] assms(2) by auto
qed

lemma unbounded_send:
  assumes "cv_bound (view c) = None"
  shows "(\<exists>c'. 0 < cv_receivers (view c) \<and> ch_send api m c = Some (Inr c')
      \<and> view c' = (view c)\<lparr>cv_queue := cv_queue (view c) @ [m]\<rparr>)
    \<or> cv_receivers (view c) = 0 \<and> ch_send api m c = Some (Inl ())"
  using assms send_accepts [of c m] send_gone [of c m] by (auto simp: cv_full_def)

lemma new_receivers: "view ((ch_clone_receiver api ^^ n) c)
    = (view c)\<lparr>cv_receivers := n + cv_receivers (view c)\<rparr>"
  by (induction n) (simp_all add: clone_receiver_view)

end

lemma leave_loop_sel [simp]:
  "cp_workers (leave_loop qapi qview rapi w s) = (cp_workers s)[w := CpExited]"
  "cp_submitted (leave_loop qapi qview rapi w s) = cp_submitted s"
  "cp_started (leave_loop qapi qview rapi w s) = cp_started s"
  "cp_sent (leave_loop qapi qview rapi w s) = cp_sent s"
  "cp_raised (leave_loop qapi qview rapi w s) = cp_raised s"
  "cp_stop (leave_loop qapi qview rapi w s) = cp_stop s"
  "cp_next_flag (leave_loop qapi qview rapi w s) = cp_next_flag s"
  "cp_queue (leave_loop qapi qview rapi w s) = ch_drop_receiver qapi (cp_queue s)"
  by (simp_all add: leave_loop_def Let_def)

lemma leave_loop_books:
  assumes "chan qapi qview" and "books_ok qview s" and "queue_ok qview s"
    and "w < length (cp_workers s)" and "holding (cp_workers s ! w) = []"
    and "cp_workers s ! w \<noteq> CpExited"
  shows "books_ok qview (leave_loop qapi qview rapi w s)
    \<and> queue_ok qview (leave_loop qapi qview rapi w s)"
proof -
  let ?t = "leave_loop qapi qview rapi w s"
  have "mset (in_hand ?t) = mset (in_hand s)"
    using in_hand_update [OF assms(4), of ?t CpExited] assms(5) by simp
  moreover have "running s = Suc (running ?t)"
    using running_update [OF assms(4), of ?t CpExited] assms(6) by simp
  ultimately show ?thesis
    using assms(2,3) chan.drop_receiver_view [OF assms(1), of "cp_queue s"]
    by (auto simp: books_ok_def queue_ok_def Let_def leave_loop_def)
qed

lemma books_arith:
  fixes h :: "'a multiset"
  assumes "y' + h = y + p" and "sub = q + y + sent + lost"
    and "q' + p + new = q + h" and "sent' = sent + new"
  shows "sub + h = q' + y' + sent' + lost + h"
proof (rule multiset_eqI)
  fix x
  have "count y' x + count h x = count y x + count p x"
    and "count q' x + count p x + count new x = count q x + count h x"
    using assms(1,3) by (metis count_union)+
  then show "count (sub + h) x = count (q' + y' + sent' + lost + h) x"
    using assms(2,4) by simp
qed

lemma books_move:
  assumes "books_ok qview s" and "queue_ok qview s" and w: "w < length (cp_workers s)"
    and "cp_workers t = (cp_workers s)[w := p]" and "p \<noteq> CpExited" "cp_workers s ! w \<noteq> CpExited"
    and "qview (cp_queue t) = (qview (cp_queue s))\<lparr>cv_queue := q\<rparr>"
    and "running s = 0 \<Longrightarrow> q = []"
    and "mset q + mset (holding p) + mset (map fst new)
      = mset (cv_queue (qview (cp_queue s))) + mset (holding (cp_workers s ! w))"
    and "cp_submitted t = cp_submitted s" "cp_dropped t = cp_dropped s"
    and "cp_sent t = cp_sent s @ new"
  shows "books_ok qview t \<and> queue_ok qview t"
proof -
  have "running t = running s" using running_update [OF w assms(4) assms(6)] assms(5) by simp
  then have "queue_ok qview t" using assms(2,7,8) by (auto simp: queue_ok_def Let_def)
  moreover have "books_ok qview t"
    unfolding books_ok_def
  proof -
    let ?h = "mset (holding (cp_workers s ! w))"
    have "mset (in_hand t) + ?h = mset (in_hand s) + mset (holding p)"
      using in_hand_update [OF w assms(4)] .
    moreover have "mset (cp_submitted t) = mset (cv_queue (qview (cp_queue s))) + mset (in_hand s)
        + mset (map fst (cp_sent s)) + mset (cp_dropped s)"
      using assms(1,10) by (simp add: books_ok_def)
    ultimately have "mset (cp_submitted t) + ?h = mset q + mset (in_hand t) + mset (map fst (cp_sent t))
        + mset (cp_dropped t) + ?h"
      using assms(9,11,12) by (rule_tac books_arith) simp_all
    then show "mset (cp_submitted t) = mset (cv_queue (qview (cp_queue t))) + mset (in_hand t)
        + mset (map fst (cp_sent t)) + mset (cp_dropped t)"
      using assms(7) by simp
  qed
  ultimately show ?thesis by simp
qed

lemma books_worker:
  assumes q: "chan qapi qview" and ok: "books_ok qview s" "queue_ok qview s"
    and w: "w < length (cp_workers s)" and step: "worker_next qapi qview rapi w s = Some t"
  shows "books_ok qview t \<and> queue_ok qview t"
proof (cases "cp_workers s ! w")
  case CpTop
  show ?thesis
  proof (cases "cp_stop s")
    case True
    then show ?thesis
      using step CpTop leave_loop_books [OF q ok w, of rapi] by (simp add: worker_next_def)
  next
    case False
    then have "t = set_worker w CpRecv s" using step CpTop by (simp add: worker_next_def)
    then show ?thesis
      using CpTop ok(2)
      by (intro books_move [OF ok w, where new = "[]" and p = CpRecv
            and q = "cv_queue (qview (cp_queue s))"]) (simp_all add: queue_ok_def Let_def)
  qed
next
  case CpRecv
  have un: "cv_bound (qview (cp_queue s)) = None" using ok(2) by (simp add: queue_ok_def Let_def)
  show ?thesis
  proof (cases "ch_recv_timeout qapi (cp_queue s)")
    case (Inr r)
    then obtain k c where r: "ch_recv_timeout qapi (cp_queue s) = Inr (k, c)" by (cases r) simp
    then have t: "t = set_worker w (CpGot k) (s\<lparr>cp_queue := c\<rparr>)"
      using step CpRecv by (simp add: worker_next_def)
    have "cv_queue (qview (cp_queue s)) = k # cv_queue (qview c)"
      "qview c = (qview (cp_queue s))\<lparr>cv_queue := cv_queue (qview c)\<rparr>"
      using chan.receive_step [OF q un r] by blast+
    then show ?thesis
      using CpRecv ok(2) t
      by (intro books_move [OF ok w, where new = "[]" and p = "CpGot k"
            and q = "cv_queue (qview c)"]) (simp_all add: queue_ok_def Let_def)
  next
    case (Inl e)
    show ?thesis
    proof (cases e)
      case RecvTimedOut
      then have "t = set_worker w CpTop s" using step CpRecv Inl by (simp add: worker_next_def)
      then show ?thesis
        using CpRecv ok(2)
        by (intro books_move [OF ok w, where new = "[]" and p = CpTop
              and q = "cv_queue (qview (cp_queue s))"]) (simp_all add: queue_ok_def Let_def)
    next
      case RecvTimeoutDisconnected
      then show ?thesis
        using step CpRecv Inl leave_loop_books [OF q ok w, of rapi] by (simp add: worker_next_def)
    qed
  qed
next
  case (CpSend k r)
  then have "cp_workers t = (cp_workers s)[w := CpDrop k]" "cp_queue t = cp_queue s"
    "cp_submitted t = cp_submitted s" "cp_dropped t = cp_dropped s" "cp_sent t = cp_sent s @ [(k, r)]"
    using step by (auto simp: worker_next_def split: option.splits)
  then show ?thesis
    using CpSend ok(2)
    by (intro books_move [OF ok w, where new = "[(k, r)]" and p = "CpDrop k"
          and q = "cv_queue (qview (cp_queue s))"]) (simp_all add: queue_ok_def Let_def)
next
  case (CpGot k)
  then show ?thesis
    using step ok(2)
    by (intro books_move [OF ok w, where new = "[]" and p = "cp_workers t ! w"
          and q = "cv_queue (qview (cp_queue s))"])
       (auto simp: worker_next_def queue_ok_def Let_def w split: if_splits)
next
  case (CpRunning k)
  then show ?thesis
    using step ok(2)
    by (intro books_move [OF ok w, where new = "[]" and p = "cp_workers t ! w"
          and q = "cv_queue (qview (cp_queue s))"])
       (auto simp: worker_next_def queue_ok_def Let_def w)
next
  case (CpRan k)
  then show ?thesis
    using step ok(2)
    by (intro books_move [OF ok w, where new = "[]" and p = "cp_workers t ! w"
          and q = "cv_queue (qview (cp_queue s))"])
       (auto simp: worker_next_def queue_ok_def Let_def w)
next
  case (CpDrop k)
  then show ?thesis
    using step ok(2)
    by (intro books_move [OF ok w, where new = "[]" and p = "cp_workers t ! w"
          and q = "cv_queue (qview (cp_queue s))"])
       (auto simp: worker_next_def queue_ok_def Let_def w)
next
  case CpExited
  then show ?thesis using step by (simp add: worker_next_def)
qed

text \<open>The submitters, handles and the shutdown.\<close>

lemma books_submit:
  assumes "chan qapi qview" and "books_ok qview s" "queue_ok qview s"
    and "submit_task qapi rapi k s = Some (r, t)"
  shows "books_ok qview t \<and> queue_ok qview t"
proof -
  have "cv_bound (qview (cp_queue s)) = None" using assms(3) by (simp add: queue_ok_def Let_def)
  from chan.unbounded_send [OF assms(1) this, of k] show ?thesis
    using assms(2-4)
    by (auto simp: submit_task_def books_ok_def queue_ok_def Let_def in_hand_def running_def abandon_def)
qed

lemma books_frame:
  assumes "books_ok qview s" "queue_ok qview s" and "cp_workers t = cp_workers s"
    and "cp_submitted t = cp_submitted s" "cp_sent t = cp_sent s" "cp_dropped t = cp_dropped s"
    and "qview (cp_queue t) = (qview (cp_queue s))\<lparr>cv_senders := n\<rparr> \<or> cp_queue t = cp_queue s"
  shows "books_ok qview t \<and> queue_ok qview t"
  using assms by (auto simp: books_ok_def queue_ok_def Let_def in_hand_def running_def)

lemma books_step:
  assumes q: "chan qapi qview" and ok: "books_ok qview s" "queue_ok qview s"
    and step: "cp_step qapi qview rapi s t"
  shows "books_ok qview t \<and> queue_ok qview t"
  using step
proof cases
  case (work w)
  then show ?thesis using books_worker [OF q ok] by blast
next
  case (spawn now job r)
  obtain k s1 where mk: "make_task rapi now job s = (k, s1)" by fastforce
  then have s1: "books_ok qview s1 \<and> queue_ok qview s1"
    using make_task_eqs [OF mk] by (intro books_frame [OF ok]) simp_all
  then show ?thesis
    using spawn mk books_submit [OF q, of s1 rapi k] books_frame [of qview s1 "abandon rapi k s1"]
    by (auto simp: compute_spawn_def abandon_def split: if_splits)
next
  case (actor_spawn now job k s1 r)
  then have "books_ok qview s1 \<and> queue_ok qview s1"
    using make_task_eqs [OF actor_spawn(1)] by (intro books_frame [OF ok]) simp_all
  then show ?thesis using actor_spawn books_submit [OF q] by blast
next
  case take_sender
  then show ?thesis
    using chan.drop_sender_view [OF q, of "cp_queue s"]
    by (intro books_frame [OF ok]) (auto simp: pool_take_sender_def)
next
  case clone_sender
  then show ?thesis
    using chan.clone_sender_view [OF q, of "cp_queue s"]
    by (intro books_frame [OF ok]) auto
next
  case drop_clone
  then show ?thesis
    using chan.drop_sender_view [OF q, of "cp_queue s"]
    by (intro books_frame [OF ok]) auto
qed (use ok in \<open>intro books_frame [OF ok]; simp add: pool_raise_stop_def\<close>)+

lemma books_init:
  assumes "chan qapi qview" and "cp_init qapi s"
  shows "books_ok qview s \<and> queue_ok qview s"
  using assms(2)
  by (auto simp: cp_init_def compute_new_def Let_def books_ok_def queue_ok_def in_hand_def running_def
      chan.drop_receiver_view [OF assms(1)] chan.new_receivers [OF assms(1)]
      chan.unbounded_view [OF assms(1)])

section \<open>The result channels\<close>

text \<open>
  A task waits until its result is sent; its result sender is open until the task is
  dropped. Every accepted task has a channel of its own, empty while the task waits, with
  one sender while it is open and none afterwards.
\<close>

fun dropping :: "'v cphase \<Rightarrow> 'v task list" where
  "dropping (CpDrop t) = [t]"
| "dropping _ = []"

definition waiting :: "('q \<Rightarrow> 'v task chan_view) \<Rightarrow> ('q, 'c, 'v) cpool \<Rightarrow> 'v task multiset" where
  "waiting qview s = mset (cv_queue (qview (cp_queue s))) + mset (in_hand s)"

definition closing :: "('q, 'c, 'v) cpool \<Rightarrow> 'v task multiset" where
  "closing s = mset (concat (map dropping (cp_workers s)))"

definition res_ok ::
  "('c \<Rightarrow> 'v compute_result chan_view) \<Rightarrow> nat \<Rightarrow> bool \<Rightarrow> 'c store \<Rightarrow> 'v task \<Rightarrow> bool" where
  "res_ok rview n e st t \<longleftrightarrow> (\<exists>c. st_map st (tk_result_sender t) = Some c
     \<and> cv_bound (rview c) = Some 1 \<and> cv_senders (rview c) = n \<and> (e \<longrightarrow> cv_queue (rview c) = []))"

definition results_ok ::
  "('q \<Rightarrow> 'v task chan_view) \<Rightarrow> ('c \<Rightarrow> 'v compute_result chan_view) \<Rightarrow> ('q, 'c, 'v) cpool \<Rightarrow> bool"
where
  "results_ok qview rview s \<longleftrightarrow> store_ok (cp_results s)
     \<and> distinct (map tk_result_sender (cp_submitted s))
     \<and> set_mset (closing s) \<subseteq> fst ` set (cp_sent s)
     \<and> (\<forall>t \<in> set (cp_submitted s). res_ok rview (count (waiting qview s + closing s) t)
          (t \<in># waiting qview s) (cp_results s) t)"

lemma closing_update:
  assumes "w < length (cp_workers s)" and "cp_workers t = (cp_workers s)[w := p]"
  shows "closing t + mset (dropping (cp_workers s ! w)) = closing s + mset (dropping p)"
  using concat_update [of w "map dropping (cp_workers s)" "dropping p"] assms
  by (simp add: closing_def map_update)

lemma books_waiting:
  assumes "books_ok qview s" and "distinct (map tk_result_sender (cp_submitted s))"
  shows "set_mset (waiting qview s) \<subseteq> set (cp_submitted s)"
    and "fst ` set (cp_sent s) \<subseteq> set (cp_submitted s)"
    and "count (waiting qview s) t \<le> 1"
    and "t \<in># waiting qview s \<Longrightarrow> t \<notin> fst ` set (cp_sent s)"
proof -
  have m: "mset (cp_submitted s)
      = waiting qview s + mset (map fst (cp_sent s)) + mset (cp_dropped s)"
    using assms(1) by (simp add: books_ok_def waiting_def)
  then have "set (cp_submitted s)
      = set_mset (waiting qview s) \<union> set (map fst (cp_sent s)) \<union> set (cp_dropped s)"
    using set_mset_mset [of "cp_submitted s"] by (metis set_mset_union set_mset_mset)
  then show "set_mset (waiting qview s) \<subseteq> set (cp_submitted s)"
    and "fst ` set (cp_sent s) \<subseteq> set (cp_submitted s)" by auto
  have "distinct (cp_submitted s)" using assms(2) by (simp add: distinct_map)
  then have one: "count (mset (cp_submitted s)) t \<le> 1" by (simp add: distinct_count_atmost_1)
  moreover have c: "count (mset (cp_submitted s)) t = count (waiting qview s) t
      + count (mset (map fst (cp_sent s))) t + count (mset (cp_dropped s)) t"
    using m by simp
  ultimately show "count (waiting qview s) t \<le> 1" by linarith
  assume "t \<in># waiting qview s"
  then have "count (mset (map fst (cp_sent s))) t = 0"
    using one c count_greater_zero_iff [of "waiting qview s" t] by linarith
  then show "t \<notin> fst ` set (cp_sent s)" by (simp add: count_eq_zero_iff)
qed

text \<open>One task's channel changes, or none.\<close>

lemma refs_inj:
  assumes "distinct (map f xs)" and "a \<in> set xs" "b \<in> set xs" and "a \<noteq> b"
  shows "f a \<noteq> f b"
  using assms by (auto simp: distinct_map inj_on_def)

lemma res_ok_store_set:
  "res_ok rview n e (store_set r c st) t \<longleftrightarrow>
     (if tk_result_sender t = r
      then cv_bound (rview c) = Some 1 \<and> cv_senders (rview c) = n \<and> (e \<longrightarrow> cv_queue (rview c) = [])
      else res_ok rview n e st t)"
  by (auto simp: res_ok_def)

lemma res_ok_store_upd:
  "res_ok rview n e (store_upd r f st) t \<longleftrightarrow>
     (if tk_result_sender t = r
      then (\<exists>c. st_map st r = Some c \<and> cv_bound (rview (f c)) = Some 1
        \<and> cv_senders (rview (f c)) = n \<and> (e \<longrightarrow> cv_queue (rview (f c)) = []))
      else res_ok rview n e st t)"
  by (auto simp: res_ok_def)

lemma store_ok_tasks: "store_ok st \<Longrightarrow> store_ok (drop_tasks rapi ts st)"
  unfolding drop_tasks_def by (induction ts arbitrary: st) (auto intro: store_ok_upd)

lemma res_ok_drop_sender:
  assumes "chan rapi rview" and "res_ok rview n e st t"
  shows "res_ok rview (n - 1) e (store_upd (tk_result_sender t) (ch_drop_sender rapi) st) t"
  using assms(2) by (auto simp: res_ok_def chan.drop_sender_view [OF assms(1)])

lemma res_ok_drop_tasks:
  assumes "chan rapi rview" and "\<And>k. k \<in> set ts \<Longrightarrow> k \<noteq> t \<Longrightarrow> tk_result_sender k \<noteq> tk_result_sender t"
    and "res_ok rview n e st t"
  shows "res_ok rview (n - count (mset ts) t) e (drop_tasks rapi ts st) t"
  using assms(2,3)
proof (induction ts arbitrary: n st)
  case Nil
  then show ?case by (simp add: drop_tasks_def)
next
  case (Cons k ts)
  have "res_ok rview (n - (if k = t then 1 else 0)) e
      (store_upd (tk_result_sender k) (ch_drop_sender rapi) st) t"
  proof (cases "k = t")
    case True
    then show ?thesis using res_ok_drop_sender [OF assms(1) Cons.prems(2)] by simp
  next
    case False
    then have "tk_result_sender t \<noteq> tk_result_sender k" using Cons.prems(1) [of k] by auto
    then show ?thesis using Cons.prems(2) False by (simp add: res_ok_store_upd)
  qed
  from Cons.IH [OF _ this] Cons.prems(1) show ?case
    by (simp add: drop_tasks_def split: if_splits)
qed

text \<open>A step of a worker: fewer tasks wait, fewer channels are open, results change to match.\<close>

lemma results_step:
  assumes ok: "results_ok qview rview s" and "store_ok (cp_results t)"
    and "cp_submitted t = cp_submitted s" and "set_mset (closing t) \<subseteq> fst ` set (cp_sent t)"
    and "\<And>k. k \<in> set (cp_submitted s) \<Longrightarrow>
      res_ok rview (count (waiting qview s + closing s) k) (k \<in># waiting qview s) (cp_results s) k \<Longrightarrow>
      res_ok rview (count (waiting qview t + closing t) k) (k \<in># waiting qview t) (cp_results t) k"
  shows "results_ok qview rview t"
  using assms by (simp add: results_ok_def)

lemma results_same:
  assumes "results_ok qview rview s" and "cp_results t = cp_results s"
    and "cp_submitted t = cp_submitted s" and "waiting qview t = waiting qview s"
    and "closing t = closing s" and "cp_sent t = cp_sent s"
  shows "results_ok qview rview t"
  using assms by (simp add: results_ok_def)

lemma res_ok_weaken: "res_ok rview n e st t \<Longrightarrow> (e' \<Longrightarrow> e) \<Longrightarrow> res_ok rview n e' st t"
  by (auto simp: res_ok_def)

lemma results_leave:
  assumes q: "chan qapi qview" and r: "chan rapi rview"
    and books: "books_ok qview s" and ok: "results_ok qview rview s"
    and w: "w < length (cp_workers s)"
    and idle: "holding (cp_workers s ! w) = []" "dropping (cp_workers s ! w) = []"
  shows "results_ok qview rview (leave_loop qapi qview rapi w s)"
proof (rule results_step [OF ok])
  let ?t = "leave_loop qapi qview rapi w s"
  let ?v = "qview (cp_queue s)"
  define lost where "lost = (if cv_receivers ?v \<le> 1 then cv_queue ?v else [])"
  have in_hand: "mset (in_hand ?t) = mset (in_hand s)" using in_hand_update [OF w, of ?t CpExited] idle by simp
  have closing: "closing ?t = closing s" using closing_update [OF w, of ?t CpExited] idle by simp
  have waiting: "waiting qview s = waiting qview ?t + mset lost"
    using in_hand chan.drop_receiver_view [OF q, of "cp_queue s"] by (auto simp: waiting_def lost_def)
  have res: "cp_results ?t = drop_tasks rapi lost (cp_results s)"
    by (simp add: leave_loop_def Let_def lost_def)
  have d: "distinct (map tk_result_sender (cp_submitted s))" using ok by (simp add: results_ok_def)
  show "store_ok (cp_results ?t)" using ok by (auto simp: res results_ok_def intro: store_ok_tasks)
  show "cp_submitted ?t = cp_submitted s" by simp
  show "set_mset (closing ?t) \<subseteq> fst ` set (cp_sent ?t)" using ok by (simp add: closing results_ok_def)
  fix k
  assume k: "k \<in> set (cp_submitted s)"
    and rk: "res_ok rview (count (waiting qview s + closing s) k) (k \<in># waiting qview s) (cp_results s) k"
  have "j \<in># waiting qview s" if "j \<in> set lost" for j using that by (simp add: waiting)
  then have other: "tk_result_sender j \<noteq> tk_result_sender k" if "j \<in> set lost" "j \<noteq> k" for j
    using that refs_inj [OF d _ k, of j] books_waiting(1) [OF books d] by blast
  from res_ok_drop_tasks [OF r other rk, of lost]
  have "res_ok rview (count (waiting qview ?t + closing ?t) k) (k \<in># waiting qview s) (cp_results ?t) k"
    by (simp add: res closing waiting)
  then show "res_ok rview (count (waiting qview ?t + closing ?t) k) (k \<in># waiting qview ?t) (cp_results ?t) k"
    by (rule res_ok_weaken) (simp add: waiting)
qed

lemma results_send:
  assumes r: "chan rapi rview"
    and books: "books_ok qview s" and ok: "results_ok qview rview s"
    and w: "w < length (cp_workers s)" and phase: "cp_workers s ! w = CpSend k res"
    and step: "worker_next qapi qview rapi w s = Some t"
  shows "results_ok qview rview t"
proof (rule results_step [OF ok])
  have d: "distinct (map tk_result_sender (cp_submitted s))" using ok by (simp add: results_ok_def)
  have t: "cp_workers t = (cp_workers s)[w := CpDrop k]" "cp_queue t = cp_queue s"
    "cp_submitted t = cp_submitted s" "cp_sent t = cp_sent s @ [(k, res)]"
    using step phase by (auto simp: worker_next_def split: option.splits)
  then show "cp_submitted t = cp_submitted s" by simp
  have k: "k \<in># waiting qview s"
    using nth_mem [OF w] phase by (force simp: waiting_def in_hand_def)
  have in_hand: "mset (in_hand s) = mset (in_hand t) + {#k#}"
    using in_hand_update [OF w t(1)] phase by simp
  have closing: "closing t = closing s + {#k#}" using closing_update [OF w t(1)] phase by simp
  have waiting: "waiting qview s = waiting qview t + {#k#}" using in_hand t by (simp add: waiting_def)
  have gone: "k \<notin># waiting qview t"
    using books_waiting(3) [OF books d, of k] waiting by (simp add: not_in_iff)
  show "set_mset (closing t) \<subseteq> fst ` set (cp_sent t)"
    using ok t closing by (auto simp: results_ok_def)
  have ks: "k \<in> set (cp_submitted s)" using k books_waiting(1) [OF books d] by blast
  then have rk: "res_ok rview (count (waiting qview s + closing s) k) True (cp_results s) k"
    using ok k by (auto simp: results_ok_def)
  then obtain c where c: "st_map (cp_results s) (tk_result_sender k) = Some c"
    and cv: "cv_bound (rview c) = Some 1" "cv_queue (rview c) = []"
    "cv_senders (rview c) = count (waiting qview s + closing s) k"
    by (auto simp: res_ok_def)
  obtain st where st: "cp_results t = st" and
    alt: "st = cp_results s \<or> (\<exists>c'. st = store_set (tk_result_sender k) c' (cp_results s)
      \<and> rview c' = (rview c)\<lparr>cv_queue := [res]\<rparr>)"
  proof (cases "cv_receivers (rview c) = 0")
    case True
    then have "cp_results t = cp_results s"
      using step phase c chan.send_gone [OF r, of c res] by (auto simp: worker_next_def)
    then show ?thesis using that by blast
  next
    case False
    then obtain c' where "rview c' = (rview c)\<lparr>cv_queue := [res]\<rparr>" "ch_send rapi res c = Some (Inr c')"
      using chan.send_accepts [OF r, of c res] cv by (auto simp: cv_full_def)
    moreover from this have "cp_results t = store_set (tk_result_sender k) c' (cp_results s)"
      using step phase c by (auto simp: worker_next_def)
    ultimately show ?thesis using that by blast
  qed
  show "store_ok (cp_results t)"
    using ok alt c by (auto simp: st results_ok_def intro: store_ok_set)
  fix j
  assume j: "j \<in> set (cp_submitted s)"
    and rj: "res_ok rview (count (waiting qview s + closing s) j) (j \<in># waiting qview s) (cp_results s) j"
  have same: "count (waiting qview t + closing t) j = count (waiting qview s + closing s) j"
    by (simp add: waiting closing)
  show "res_ok rview (count (waiting qview t + closing t) j) (j \<in># waiting qview t) (cp_results t) j"
  proof (cases "j = k")
    case True
    then show ?thesis
      using alt gone cv rj unfolding same by (auto simp: st res_ok_store_set res_ok_def)
  next
    case False
    then have "tk_result_sender j \<noteq> tk_result_sender k" using refs_inj [OF d j ks] by blast
    then have "res_ok rview (count (waiting qview s + closing s) j) (j \<in># waiting qview s) (cp_results t) j"
      using alt rj by (auto simp: st res_ok_store_set)
    then show ?thesis
      unfolding same by (rule res_ok_weaken) (use False in \<open>simp add: waiting\<close>)
  qed
qed

lemma results_worker:
  assumes q: "chan qapi qview" and r: "chan rapi rview"
    and books: "books_ok qview s" and queue: "queue_ok qview s" and ok: "results_ok qview rview s"
    and w: "w < length (cp_workers s)" and step: "worker_next qapi qview rapi w s = Some t"
  shows "results_ok qview rview t"
proof -
  have same: "results_ok qview rview t"
    if "cp_results t = cp_results s" "cp_submitted t = cp_submitted s" "cp_sent t = cp_sent s"
      "cp_workers t = (cp_workers s)[w := p]" "dropping (cp_workers s ! w) = []" "dropping p = []"
      "mset (cv_queue (qview (cp_queue t))) + mset (holding p)
        = mset (cv_queue (qview (cp_queue s))) + mset (holding (cp_workers s ! w))" for p
  proof (rule results_same [OF ok that(1,2) _ _ that(3)])
    show "closing t = closing s" using closing_update [OF w that(4)] that(5,6) by simp
    have "waiting qview t + mset (holding (cp_workers s ! w))
        = waiting qview s + mset (holding (cp_workers s ! w))"
      using in_hand_update [OF w that(4)] that(7) unfolding waiting_def
      by (metis (no_types) add.commute add.left_commute)
    then show "waiting qview t = waiting qview s" by simp
  qed
  show ?thesis
  proof (cases "cp_workers s ! w")
    case CpTop
    then show ?thesis
      using step same [of CpRecv] results_leave [OF q r books ok w]
      by (auto simp: worker_next_def split: if_splits)
  next
    case CpRecv
    show ?thesis
    proof (cases "ch_recv_timeout qapi (cp_queue s)")
      case (Inl e)
      then show ?thesis
        using step CpRecv same [of CpTop] results_leave [OF q r books ok w]
        by (cases e) (auto simp: worker_next_def)
    next
      case (Inr m)
      obtain k c where m: "m = (k, c)" by fastforce
      have "cv_bound (qview (cp_queue s)) = None" using queue by (simp add: queue_ok_def Let_def)
      from chan.receive_step [OF q this Inr [unfolded m]]
      have "cv_queue (qview (cp_queue s)) = k # cv_queue (qview c)" by blast
      then show ?thesis
        using step CpRecv Inr m same [of "CpGot k"] by (auto simp: worker_next_def)
    qed
  next
    case (CpGot k)
    then show ?thesis
      using step same [of "cp_workers t ! w"] w by (auto simp: worker_next_def split: if_splits)
  next
    case (CpRunning k)
    then show ?thesis using step same [of "CpRan k"] by (auto simp: worker_next_def)
  next
    case (CpRan k)
    then show ?thesis using step same [of "cp_workers t ! w"] w by (auto simp: worker_next_def)
  next
    case (CpSend k res)
    then show ?thesis using results_send [OF r books ok w _ step] by blast
  next
    case (CpDrop k)
    have t: "t = set_worker w CpTop (s\<lparr>cp_results :=
        store_upd (tk_result_sender k) (ch_drop_sender rapi) (cp_results s)\<rparr>)"
      using step CpDrop by (simp add: worker_next_def)
    have d: "distinct (map tk_result_sender (cp_submitted s))" using ok by (simp add: results_ok_def)
    have ws: "cp_workers t = (cp_workers s)[w := CpTop]" by (simp add: t)
    have closing: "closing s = closing t + {#k#}" using closing_update [OF w ws] CpDrop by simp
    have waiting: "waiting qview t = waiting qview s"
      using in_hand_update [OF w ws] CpDrop by (simp add: waiting_def t)
    have "k \<in> fst ` set (cp_sent s)" using ok closing by (auto simp: results_ok_def)
    then have ks: "k \<in> set (cp_submitted s)" using books_waiting(2) [OF books d] by blast
    show ?thesis
    proof (rule results_step [OF ok])
      show "store_ok (cp_results t)" using ok by (simp add: t results_ok_def store_ok_upd)
      show "cp_submitted t = cp_submitted s" by (simp add: t)
      show "set_mset (closing t) \<subseteq> fst ` set (cp_sent t)"
        using ok closing by (simp add: t results_ok_def)
      fix j
      assume j: "j \<in> set (cp_submitted s)"
        and rj: "res_ok rview (count (waiting qview s + closing s) j) (j \<in># waiting qview s) (cp_results s) j"
      have count: "count (waiting qview t + closing t) j
          = count (waiting qview s + closing s) j - (if j = k then 1 else 0)"
        by (simp add: waiting closing)
      show "res_ok rview (count (waiting qview t + closing t) j) (j \<in># waiting qview t) (cp_results t) j"
      proof (cases "j = k")
        case True
        then show ?thesis
          unfolding count unfolding waiting using res_ok_drop_sender [OF r rj] by (simp add: t)
      next
        case False
        then have "tk_result_sender j \<noteq> tk_result_sender k" using refs_inj [OF d j ks] by blast
        then show ?thesis unfolding count unfolding waiting using rj False by (simp add: t res_ok_store_upd)
      qed
    qed
  next
    case CpExited
    then show ?thesis using step by (simp add: worker_next_def)
  qed
qed

lemma closing_cong: "cp_workers t = cp_workers s \<Longrightarrow> closing t = closing s"
  by (simp add: closing_def)

text \<open>Changing a channel no accepted task uses, and accepting a task with a new channel.\<close>

lemma results_elsewhere:
  assumes ok: "results_ok qview rview s" and "store_ok (cp_results t)"
    and "cp_workers t = cp_workers s" "cp_submitted t = cp_submitted s" "cp_sent t = cp_sent s"
    and q: "cv_queue (qview (cp_queue t)) = cv_queue (qview (cp_queue s))"
    and keep: "\<And>k. k \<in> set (cp_submitted s) \<Longrightarrow>
      st_map (cp_results t) (tk_result_sender k) = st_map (cp_results s) (tk_result_sender k)"
  shows "results_ok qview rview t"
proof -
  have "waiting qview t = waiting qview s" using in_hand_cong [OF assms(3)] q by (simp add: waiting_def)
  moreover have "closing t = closing s" using assms(3) by (rule closing_cong)
  ultimately show ?thesis
    using assms(2,5) keep by (intro results_step [OF ok assms(2,4)]) (use ok in \<open>auto simp: results_ok_def res_ok_def\<close>)
qed

lemma results_make:
  assumes r: "chan rapi rview" and ok: "results_ok qview rview s"
    and mk: "make_task rapi now job s = (k, s1)"
  shows "results_ok qview rview s1"
    and "res_ok rview 1 True (cp_results s1) k"
    and "tk_result_sender k \<notin> tk_result_sender ` set (cp_submitted s1)"
proof -
  note e = make_task_eqs [OF mk]
  have so: "store_ok (cp_results s)" using ok by (simp add: results_ok_def)
  have used: "st_map (cp_results s) (tk_result_sender j) \<noteq> None" if "j \<in> set (cp_submitted s)" for j
    using ok that by (auto simp: results_ok_def res_ok_def)
  have fresh: "tk_result_sender k \<noteq> tk_result_sender j" if "j \<in> set (cp_submitted s)" for j
    using used [OF that] store_new_fresh [OF so, of "ch_bounded rapi 1"] e by auto
  then show "tk_result_sender k \<notin> tk_result_sender ` set (cp_submitted s1)" using e by auto
  show "res_ok rview 1 True (cp_results s1) k"
    using e chan.bounded_view [OF r, of 1] by (simp add: res_ok_def)
  have "store_ok (cp_results s1)" using so e by (simp add: store_ok_new)
  then show "results_ok qview rview s1"
    by (rule results_elsewhere [OF ok]) (use e fresh in \<open>auto dest: fresh\<close>)
qed

lemma results_submit:
  assumes q: "chan qapi qview" and ok: "results_ok qview rview s"
    and books: "books_ok qview s" and queue: "queue_ok qview s"
    and k: "res_ok rview 1 True (cp_results s) k"
    and new: "tk_result_sender k \<notin> tk_result_sender ` set (cp_submitted s)"
    and step: "submit_task qapi rapi k s = Some (x, t)"
  shows "results_ok qview rview t"
proof -
  have d: "distinct (map tk_result_sender (cp_submitted s))" using ok by (simp add: results_ok_def)
  have "cv_bound (qview (cp_queue s)) = None" using queue by (simp add: queue_ok_def Let_def)
  from chan.unbounded_send [OF q this, of k]
  consider c where "ch_send qapi k (cp_queue s) = Some (Inr c)"
      "qview c = (qview (cp_queue s))\<lparr>cv_queue := cv_queue (qview (cp_queue s)) @ [k]\<rparr>"
    | "ch_send qapi k (cp_queue s) = Some (Inl ())" by blast
  then show ?thesis
  proof cases
    case 1
    then have t: "t = s\<lparr>cp_queue := c, cp_submitted := cp_submitted s @ [k]\<rparr>"
      using step by (simp add: submit_task_def)
    have "k \<notin> set (cp_submitted s)" using new by auto
    moreover have "set_mset (closing s) \<subseteq> fst ` set (cp_sent s)" using ok by (simp add: results_ok_def)
    ultimately have out: "k \<notin># waiting qview s" "k \<notin># closing s"
      using books_waiting(1,2) [OF books d] by blast+
    have w: "waiting qview t = waiting qview s + {#k#}" using 1 by (simp add: t waiting_def in_hand_def)
    have c: "closing t = closing s" by (simp add: t closing_def)
    have "count (waiting qview s) k = 0" "count (closing s) k = 0" using out by (simp_all add: not_in_iff)
    then have "res_ok rview (count (waiting qview t + closing t) k) (k \<in># waiting qview t) (cp_results t) k"
      using k by (simp add: w c) (simp add: t)
    moreover have "res_ok rview (count (waiting qview t + closing t) j) (j \<in># waiting qview t) (cp_results t) j"
      if "j \<in> set (cp_submitted s)" for j
    proof -
      have "j \<noteq> k" using new that by auto
      then show ?thesis using ok that unfolding w c by (simp add: results_ok_def t)
    qed
    moreover have sub: "cp_submitted t = cp_submitted s @ [k]" by (simp add: t)
    ultimately have "\<forall>j\<in>set (cp_submitted t). res_ok rview (count (waiting qview t + closing t) j)
        (j \<in># waiting qview t) (cp_results t) j"
      by (metis Un_iff list.set(1,2) set_append singletonD)
    moreover have "store_ok (cp_results t)" "distinct (map tk_result_sender (cp_submitted t))"
      "set_mset (closing t) \<subseteq> fst ` set (cp_sent t)"
      using ok new sub by (simp_all add: results_ok_def c) (simp_all add: t)
    ultimately show ?thesis by (simp add: results_ok_def)
  next
    case 2
    then have t: "t = abandon rapi k s" using step by (simp add: submit_task_def)
    have "store_ok (cp_results t)" using ok by (simp add: t abandon_def results_ok_def store_ok_upd)
    then show ?thesis
      by (rule results_elsewhere [OF ok]) (use new in \<open>auto simp: t abandon_def image_iff\<close>)
  qed
qed

lemma results_step_all:
  assumes q: "chan qapi qview" and r: "chan rapi rview"
    and books: "books_ok qview s" and queue: "queue_ok qview s" and ok: "results_ok qview rview s"
    and step: "cp_step qapi qview rapi s t"
  shows "results_ok qview rview t"
  using step
proof cases
  case (work w)
  then show ?thesis using results_worker [OF q r books queue ok] by blast
next
  case (spawn now job x)
  obtain k s1 where mk: "make_task rapi now job s = (k, s1)" by fastforce
  note m = results_make [OF r ok mk]
  have b: "books_ok qview s1 \<and> queue_ok qview s1"
    using make_task_eqs [OF mk] by (intro books_frame [OF books queue]) simp_all
  show ?thesis
  proof (cases "cp_sender s1")
    case True
    then show ?thesis
      using spawn mk results_submit [OF q m(1) _ _ m(2,3)] b by (auto simp: compute_spawn_def)
  next
    case False
    then have t: "t = abandon rapi k s1" using spawn mk by (simp add: compute_spawn_def)
    have "store_ok (cp_results t)" using m(1) by (simp add: t abandon_def results_ok_def store_ok_upd)
    then show ?thesis
      by (rule results_elsewhere [OF m(1)]) (use m(3) in \<open>auto simp: t abandon_def image_iff\<close>)
  qed
next
  case (actor_spawn now job k s1 x)
  have "books_ok qview s1 \<and> queue_ok qview s1"
    using make_task_eqs [OF actor_spawn(1)] by (intro books_frame [OF books queue]) simp_all
  then show ?thesis
    using results_make [OF r ok actor_spawn(1)] results_submit [OF q] actor_spawn(2) by blast
next
  case (read x c m c')
  have rd: "cv_bound (rview c') = Some 1 \<and> cv_senders (rview c') = cv_senders (rview c)
      \<and> cv_queue (rview c) \<noteq> []"
    if "cv_bound (rview c) = Some 1"
    using chan.try_recv_takes [OF r, of c] chan.try_recv_empty [OF r, of c]
      chan.recv_takes [OF r, of c] chan.recv_empty [OF r, of c]
      chan.recv_timeout_takes [OF r, of c] chan.recv_timeout_empty [OF r, of c] read(3) that
    by (cases "cv_queue (rview c)") (auto split: if_splits)
  show ?thesis
  proof (rule results_step [OF ok])
    show "store_ok (cp_results t)" using ok read by (auto simp: results_ok_def intro!: store_ok_set)
    show "cp_submitted t = cp_submitted s" "set_mset (closing t) \<subseteq> fst ` set (cp_sent t)"
      using ok read by (simp_all add: results_ok_def closing_def)
    fix k
    assume k: "res_ok rview (count (waiting qview s + closing s) k) (k \<in># waiting qview s) (cp_results s) k"
    have "waiting qview t = waiting qview s" "closing t = closing s"
      using read by (simp_all add: waiting_def closing_def in_hand_def)
    then show "res_ok rview (count (waiting qview t + closing t) k) (k \<in># waiting qview t) (cp_results t) k"
      using k rd read by (simp only: res_ok_store_set cpool.simps) (auto simp: res_ok_def)
  qed
next
  case (forget x)
  show ?thesis
  proof (rule results_step [OF ok])
    show "store_ok (cp_results t)" using ok forget by (simp add: results_ok_def store_ok_upd)
    show "cp_submitted t = cp_submitted s" "set_mset (closing t) \<subseteq> fst ` set (cp_sent t)"
      using ok forget by (simp_all add: results_ok_def closing_def)
    fix k
    assume k: "res_ok rview (count (waiting qview s + closing s) k) (k \<in># waiting qview s) (cp_results s) k"
    have "waiting qview t = waiting qview s" "closing t = closing s"
      using forget by (simp_all add: waiting_def closing_def in_hand_def)
    then show "res_ok rview (count (waiting qview t + closing t) k) (k \<in># waiting qview t) (cp_results t) k"
      using k forget
      by (simp only: res_ok_store_upd cpool.simps)
         (auto simp: res_ok_def chan.drop_receiver_view [OF r])
  qed
next
  case take_sender
  then show ?thesis
    using ok chan.drop_sender_view [OF q, of "cp_queue s"]
    by (intro results_elsewhere [OF ok]) (auto simp: pool_take_sender_def results_ok_def)
next
  case clone_sender
  then show ?thesis
    using ok chan.clone_sender_view [OF q, of "cp_queue s"]
    by (intro results_elsewhere [OF ok]) (auto simp: results_ok_def)
next
  case drop_clone
  then show ?thesis
    using ok chan.drop_sender_view [OF q, of "cp_queue s"]
    by (intro results_elsewhere [OF ok]) (auto simp: results_ok_def)
qed (use ok in \<open>intro results_elsewhere [OF ok]; simp add: pool_raise_stop_def results_ok_def\<close>)+

definition pool_ok ::
  "('q \<Rightarrow> 'v task chan_view) \<Rightarrow> ('c \<Rightarrow> 'v compute_result chan_view) \<Rightarrow> ('q, 'c, 'v) cpool \<Rightarrow> bool"
where
  "pool_ok qview rview s \<longleftrightarrow> books_ok qview s \<and> queue_ok qview s \<and> results_ok qview rview s"

lemma results_init:
  assumes "chan qapi qview" and "cp_init qapi s"
  shows "results_ok qview rview s"
  using assms(2) concat_eq_Nil_conv
  by (auto simp: cp_init_def compute_new_def Let_def results_ok_def closing_def)

lemma pool_invariant:
  assumes "chan qapi qview" and "chan rapi rview"
  shows "invariant_of (cp_init qapi) (cp_step qapi qview rapi) (pool_ok qview rview)"
  by unfold_locales
     (use assms in \<open>auto simp: pool_ok_def dest: books_init results_init books_step results_step_all\<close>)

lemmas pool_always = invariant_of.always [OF pool_invariant]

text \<open>The step relation on channels as documented, in existence and with its invariant.\<close>

interpretation pool: invariant_of "cp_init ref_api" "cp_step ref_api (\<lambda>v. v) ref_api"
  "pool_ok (\<lambda>v. v) (\<lambda>v. v)"
  by (rule pool_invariant [OF chan_ref chan_ref])

text \<open>A report is about a job that ran, or a cancellation that was requested.\<close>

definition told :: "'v task \<Rightarrow> 'v compute_result \<Rightarrow> ('q, 'c, 'v) cpool \<Rightarrow> bool" where
  "told k r s \<longleftrightarrow> r = ResCancelled \<and> tk_cancelled k \<in> cp_raised s
     \<or> r = outcome_result (tk_job k) \<and> k \<in> set (cp_started s)"

definition phase_told :: "('q, 'c, 'v) cpool \<Rightarrow> 'v cphase \<Rightarrow> bool" where
  "phase_told s p \<longleftrightarrow> (case p of
     CpRunning k \<Rightarrow> k \<in> set (cp_started s)
   | CpRan k \<Rightarrow> k \<in> set (cp_started s)
   | CpSend k r \<Rightarrow> told k r s
   | _ \<Rightarrow> True)"

definition honest :: "('q, 'c, 'v) cpool \<Rightarrow> bool" where
  "honest s \<longleftrightarrow> (\<forall>p \<in> set (cp_workers s). phase_told s p)
     \<and> (\<forall>x \<in> set (cp_sent s). told (fst x) (snd x) s)"

lemma told_mono:
  assumes "cp_raised s \<subseteq> cp_raised t" and "set (cp_started s) \<subseteq> set (cp_started t)"
  shows "told k r s \<Longrightarrow> told k r t" and "phase_told s p \<Longrightarrow> phase_told t p"
  using assms by (auto simp: told_def phase_told_def split: cphase.splits)

lemma honest_move:
  assumes "honest s" and "cp_raised s \<subseteq> cp_raised t" and "set (cp_started s) \<subseteq> set (cp_started t)"
    and "set (cp_workers t) \<subseteq> insert p (set (cp_workers s))" and "phase_told t p"
    and "\<And>x. x \<in> set (cp_sent t) \<Longrightarrow> x \<in> set (cp_sent s) \<or> told (fst x) (snd x) t"
  shows "honest t"
proof -
  have "told (fst x) (snd x) t" if "x \<in> set (cp_sent t)" for x
    using assms(1) assms(6) [OF that] told_mono(1) [OF assms(2,3)] by (auto simp: honest_def)
  moreover have "phase_told t q" if "q \<in> set (cp_workers t)" for q
    using assms(1,4,5) told_mono(2) [OF assms(2,3)] that by (auto simp: honest_def)
  ultimately show ?thesis by (simp add: honest_def)
qed

lemma worker_next_shape:
  assumes "worker_next qapi qview rapi w s = Some t"
  shows "\<exists>p. cp_workers t = (cp_workers s)[w := p]"
    and "cp_raised t = cp_raised s" "cp_stop t = cp_stop s"
    and "set (cp_started s) \<subseteq> set (cp_started t)"
  using assms
  by (cases "cp_workers s ! w"; auto simp: worker_next_def
      split: option.splits sum.splits recv_timeout_error.splits if_splits)+

lemma honest_worker:
  assumes ok: "honest s" and w: "w < length (cp_workers s)"
    and step: "worker_next qapi qview rapi w s = Some t"
  shows "honest t"
proof -
  let ?p = "cp_workers s ! w"
  have now: "phase_told s ?p" using ok w by (auto simp: honest_def)
  obtain p where p: "cp_workers t = (cp_workers s)[w := p]" using worker_next_shape(1) [OF step] ..
  then have upd: "set (cp_workers t) \<subseteq> insert (cp_workers t ! w) (set (cp_workers s))"
    using w set_update_subset_insert [of "cp_workers s" w p] by simp
  have "phase_told t (cp_workers t ! w)"
    using step w now
    by (cases ?p) (auto simp: worker_next_def phase_told_def told_def task_cancelled_def
        split: option.splits sum.splits recv_timeout_error.splits if_splits)
  moreover have "x \<in> set (cp_sent s) \<or> told (fst x) (snd x) t" if "x \<in> set (cp_sent t)" for x
    using step w now that
    by (cases ?p) (auto simp: worker_next_def phase_told_def told_def
        split: option.splits sum.splits recv_timeout_error.splits if_splits)
  ultimately show ?thesis
    using worker_next_shape [OF step] by (intro honest_move [OF ok _ _ upd]) auto
qed

text \<open>The steps of the submitters and handles leave the workers and their reports alone.\<close>

definition aside :: "('q, 'c, 'v) cpool \<Rightarrow> ('q, 'c, 'v) cpool \<Rightarrow> bool" where
  "aside s t \<longleftrightarrow> cp_workers t = cp_workers s \<and> cp_sent t = cp_sent s \<and> cp_started t = cp_started s
     \<and> cp_raised s \<subseteq> cp_raised t"

lemma submit_aside: "submit_task qapi rapi k s = Some (r, t) \<Longrightarrow> aside s t"
  by (auto simp: submit_task_def aside_def abandon_def split: option.splits sum.splits)

lemma make_aside: "make_task rapi now job s = (k, s1) \<Longrightarrow> aside s s1"
  by (drule make_task_eqs) (simp add: aside_def)

lemma aside_trans: "aside s t \<Longrightarrow> aside t u \<Longrightarrow> aside s u"
  by (auto simp: aside_def)

lemma cp_step_split:
  assumes "cp_step qapi qview rapi s t"
  shows "(\<exists>w < length (cp_workers s). worker_next qapi qview rapi w s = Some t) \<or> aside s t"
  using assms
proof cases
  case (spawn now job r)
  obtain k s1 where mk: "make_task rapi now job s = (k, s1)" by fastforce
  have "aside s1 t"
    using spawn mk submit_aside [of qapi rapi k s1]
    by (auto simp: compute_spawn_def abandon_def aside_def split: if_splits)
  then show ?thesis using make_aside [OF mk] aside_trans by blast
next
  case (actor_spawn now job k s1 r)
  then show ?thesis using make_aside submit_aside aside_trans by blast
qed (auto simp: aside_def handle_cancel_def pool_raise_stop_def pool_take_sender_def)

lemma honest_step:
  assumes "honest s" and "cp_step qapi qview rapi s t"
  shows "honest t"
  using cp_step_split [OF assms(2)]
proof
  assume "aside s t"
  then show ?thesis
    by (intro honest_move [OF assms(1), where p = CpTop]) (auto simp: aside_def phase_told_def)
qed (use assms(1) honest_worker in blast)

lemma honest_init: "cp_init qapi s \<Longrightarrow> honest s"
  by (auto simp: cp_init_def compute_new_def Let_def honest_def phase_told_def)

interpretation pool_honest: invariant_of "cp_init qapi" "cp_step qapi qview rapi" honest
  by unfold_locales (auto intro: honest_init honest_step)

text \<open>
  A cancelled task: its worker may only report the cancellation, and its job is not
  called unless it was called before.
\<close>

definition doomed :: "'v task \<Rightarrow> bool \<Rightarrow> ('q, 'c, 'v) cpool \<Rightarrow> bool" where
  "doomed k was s \<longleftrightarrow> tk_cancelled k \<in> cp_raised s
     \<and> (\<forall>p \<in> set (cp_workers s). case p of CpSend j r \<Rightarrow> j = k \<longrightarrow> r = ResCancelled | _ \<Rightarrow> True)
     \<and> (\<forall>x \<in> set (cp_sent s). fst x = k \<longrightarrow> snd x = ResCancelled)
     \<and> (k \<in> set (cp_started s) \<longrightarrow> was)"

lemma doomed_worker:
  assumes ok: "doomed k was s" and w: "w < length (cp_workers s)"
    and step: "worker_next qapi qview rapi w s = Some t"
  shows "doomed k was t"
proof -
  let ?p = "cp_workers s ! w"
  let ?safe = "\<lambda>p. case p of CpSend j r \<Rightarrow> j = k \<longrightarrow> r = ResCancelled | _ \<Rightarrow> True"
  have now: "?safe ?p" using ok w by (auto simp: doomed_def)
  obtain p where p: "cp_workers t = (cp_workers s)[w := p]" using worker_next_shape(1) [OF step] ..
  have "?safe (cp_workers t ! w)"
    using step w ok
    by (cases ?p) (auto simp: worker_next_def doomed_def task_cancelled_def
        split: option.splits sum.splits recv_timeout_error.splits if_splits)
  then have "\<forall>q \<in> set (cp_workers t). ?safe q"
    using ok w set_update_subset_insert [of "cp_workers s" w p] by (auto simp: p doomed_def)
  moreover have "\<forall>x \<in> set (cp_sent t). fst x = k \<longrightarrow> snd x = ResCancelled"
    using step w ok now
    by (cases ?p) (auto simp: worker_next_def doomed_def
        split: option.splits sum.splits recv_timeout_error.splits if_splits)
  moreover have "k \<in> set (cp_started t) \<longrightarrow> was"
    using step w ok
    by (cases ?p) (auto simp: worker_next_def doomed_def task_cancelled_def
        split: option.splits sum.splits recv_timeout_error.splits if_splits)
  ultimately show ?thesis using ok worker_next_shape(2) [OF step] by (simp add: doomed_def)
qed

lemma doomed_step: "doomed k was s \<Longrightarrow> cp_step qapi qview rapi s t \<Longrightarrow> doomed k was t"
  using cp_step_split [of qapi qview rapi s t] doomed_worker [of k was s _ qapi qview rapi t]
  by (auto simp: aside_def doomed_def)

interpretation doom: invariant_of "doomed k was" "cp_step qapi qview rapi" "doomed k was"
  by unfold_locales (auto intro: doomed_step)

end
