(* ===== verification/RuntimeProps.thy ===== *)
theory RuntimeProps
  imports Runtime ComputeInvariants
begin

text \<open>
  Properties of the runtime as a whole: the identity of its actors, the routing of
  messages and requests, and what shutting down does.
\<close>

lemma rt_net_set [simp]:
  "rt_net (set_net n s) = n" "rt_net (set_replies st s) = rt_net s" "rt_net (enlist i m s) = rt_net s"
  by (simp_all add: rt_net_def set_net_def set_replies_def enlist_def)

lemma rt_frame [simp]:
  "rt_actors (set_net n s) = rt_actors s" "rt_actors (set_replies st s) = rt_actors s"
  "rt_actors_poisoned (set_net n s) = rt_actors_poisoned s"
  "rt_actors_poisoned (set_replies st s) = rt_actors_poisoned s"
  "rt_actors_poisoned (enlist i m s) = rt_actors_poisoned s"
  "rt_request_counter (set_net n s) = rt_request_counter s"
  "rt_request_counter (set_replies st s) = rt_request_counter s"
  "sh_replies (rt_shared (set_net n s)) = sh_replies (rt_shared s)"
  "sh_replies (rt_shared (set_replies st s)) = st"
  by (simp_all add: set_net_def set_replies_def enlist_def)

section \<open>Actor ids\<close>

text \<open>
  The operations that use the runtime between its creation and its shutdown. The state of
  a spawned actor is in its loop, not in the runtime, so its value does not matter here.
\<close>

inductive rt_step ::
  "('c, 'v envelope) chan_api \<Rightarrow> ('r, 'v any) chan_api \<Rightarrow> ('q, 'v task) chan_api
    \<Rightarrow> ('c, 'r, 'q, 'p, 'v) runtime \<Rightarrow> ('c, 'r, 'q, 'p, 'v) runtime \<Rightarrow> bool"
  for api rapi qapi where
  spawned: "rt_spawn api qapi () s = (r, t, lp) \<Longrightarrow> rt_step api rapi qapi s t"
| supervisor: "rt_spawn_supervisor st children s = (r, t) \<Longrightarrow> rt_step api rapi qapi s t"
| sent: "rt_send api target m s = (r, t) \<Longrightarrow> rt_step api rapi qapi s t"
| sent_blocking: "rt_send_blocking api target m s = Some (r, t) \<Longrightarrow> rt_step api rapi qapi s t"
| requested: "rt_request api rapi target m s = (r, t) \<Longrightarrow> rt_step api rapi qapi s t"
| timer: "rt_schedule_timer now d target m s = (r, t) \<Longrightarrow> rt_step api rapi qapi s t"
| interval: "rt_schedule_interval now d target m s = (r, t) \<Longrightarrow> rt_step api rapi qapi s t"
| cancelled: "rt_cancel_timer i s = (u, t) \<Longrightarrow> rt_step api rapi qapi s t"
| others: "rt_step api rapi qapi s (s\<lparr>rt_shared := w, rt_scheduler := sc, rt_compute := pool, rt_timers := ts\<rparr>)"

definition rt_init :: "('q, 'v task) chan_api \<Rightarrow> ('c, 'r, 'q, 'p, 'v) runtime \<Rightarrow> bool" where
  "rt_init qapi s \<longleftrightarrow> (\<exists>par ti ci config. with_config qapi par ti ci config = Inr s)"

definition actor_ids :: "nat \<Rightarrow> actor_id list" where
  "actor_ids n = map (\<lambda>k. ActorId (of_nat (Suc k))) [0..<n]"

definition roster_ok :: "('c, 'r, 'q, 'p, 'v) runtime \<Rightarrow> bool" where
  "roster_ok s \<longleftrightarrow> (Suc (length (rt_actors s)) < 2 ^ 64 \<longrightarrow>
     map fst (rt_actors s) = actor_ids (length (rt_actors s)))
     \<and> (\<forall>(i, a) \<in> set (rt_actors s). ai_id a = i \<and> ai_mailbox_depth a = 0)"

lemma actor_ids_Suc: "actor_ids (Suc n) = actor_ids n @ [ActorId (of_nat (Suc n))]"
  by (simp add: actor_ids_def)

lemma actor_ids_fresh: "Suc n < 2 ^ 64 \<Longrightarrow> ActorId (of_nat (Suc n)) \<notin> set (actor_ids n)"
proof
  assume n: "Suc n < 2 ^ 64" and "ActorId (of_nat (Suc n)) \<in> set (actor_ids n)"
  then obtain k where "k < n" "(of_nat (Suc n) :: u64) = of_nat (Suc k)" by (auto simp: actor_ids_def)
  then show False using of_nat_u64_inj [of "Suc n" "Suc k"] n by simp
qed

lemma actor_ids_distinct: "n < 2 ^ 64 \<Longrightarrow> distinct (actor_ids n)"
  using of_nat_u64_inj by (fastforce simp: actor_ids_def distinct_map inj_on_def)

lemma next_id_eq: "next_actor_id s = ActorId (of_nat (Suc (length (rt_actors s))))"
  by (simp add: next_actor_id_def actor_id_new_def add.commute)

lemma update_fresh: "k \<notin> fst ` set al \<Longrightarrow> AList.update k v al = al @ [(k, v)]"
  by (induction al) auto

lemma length_update_ge: "length al \<le> length (AList.update k v al)"
  by (induction al) auto

lemma set_update_subset: "set (AList.update k v al) \<subseteq> insert (k, v) (set al)"
  by (induction al) auto

lemma next_id_fresh:
  assumes "roster_ok s" and "Suc (length (rt_actors s)) < 2 ^ 64"
  shows "next_actor_id s \<notin> fst ` set (rt_actors s)"
proof -
  have "map fst (rt_actors s) = actor_ids (length (rt_actors s))" using assms by (simp add: roster_ok_def)
  then have "fst ` set (rt_actors s) = set (actor_ids (length (rt_actors s)))" by (metis set_map)
  then show ?thesis using actor_ids_fresh [OF assms(2)] by (simp add: next_id_eq)
qed

lemma enlist_ok:
  assumes "roster_ok s"
  shows "roster_ok (enlist (next_actor_id s) m s)"
proof -
  let ?i = "next_actor_id s"
  let ?v = "\<lparr>ai_id = ?i, ai_name = m, ai_mailbox_depth = 0\<rparr>"
  have e: "rt_actors (enlist ?i m s) = AList.update ?i ?v (rt_actors s)" by (simp add: enlist_def)
  have "\<forall>(i, a) \<in> set (rt_actors (enlist ?i m s)). ai_id a = i \<and> ai_mailbox_depth a = 0"
    using assms set_update_subset [of ?i ?v "rt_actors s"] by (fastforce simp: roster_ok_def e)
  moreover have "map fst (rt_actors (enlist ?i m s)) = actor_ids (length (rt_actors (enlist ?i m s)))"
    if l: "Suc (length (rt_actors (enlist ?i m s))) < 2 ^ 64"
  proof -
    have n: "Suc (length (rt_actors s)) < 2 ^ 64"
      using l length_update_ge [of "rt_actors s" ?i ?v] by (simp add: e)
    then have "map fst (rt_actors s) = actor_ids (length (rt_actors s))"
      using assms by (simp add: roster_ok_def)
    then show ?thesis
      unfolding e using next_id_fresh [OF assms n] by (simp add: update_fresh actor_ids_Suc next_id_eq)
  qed
  ultimately show ?thesis by (simp add: roster_ok_def)
qed

lemma roster_frame: "rt_actors t = rt_actors s \<Longrightarrow> roster_ok s \<Longrightarrow> roster_ok t"
  by (simp add: roster_ok_def)

lemma rt_spawn_roster:
  assumes "rt_spawn api qapi actor s = (r, t, lp)"
  shows "rt_actors t = rt_actors s \<or> rt_actors t = rt_actors (enlist (next_actor_id s) None s)"
  using assms by (auto simp: rt_spawn_def Let_def split: if_splits prod.splits)

lemma roster_step: "roster_ok s \<Longrightarrow> rt_step api rapi qapi s t \<Longrightarrow> roster_ok t"
proof (erule rt_step.cases)
  fix u r v lp
  assume ok: "roster_ok s" and "s = u" "t = v" and sp: "rt_spawn api qapi () u = (r, v, lp)"
  then show "roster_ok t"
    using rt_spawn_roster [OF sp] enlist_ok [OF ok] roster_frame [OF _ ok] roster_frame [of t "enlist (next_actor_id s) None s"]
    by auto
qed (auto simp: rt_spawn_supervisor_def supervisor_pick_def supervisor_insert_def Let_def rt_send_def
      rt_send_blocking_def rt_request_def rt_schedule_timer_def rt_schedule_interval_def
      rt_cancel_timer_def rt_timer_def
      intro: enlist_ok roster_frame split: if_splits prod.splits sum.splits)

lemma roster_init: "rt_init qapi s \<Longrightarrow> roster_ok s"
  by (auto simp: rt_init_def with_config_def compute_new_def Let_def roster_ok_def actor_ids_def)

interpretation roster: invariant_of "rt_init qapi" "rt_step api rapi qapi" roster_ok
  by unfold_locales (auto intro: roster_init roster_step)


section \<open>Supervisors\<close>

text \<open>
  \<open>spawn_supervisor\<close> creates no actor that can be reached: it answers with an id and
  lists it, but nothing is scheduled and no mailbox exists for it, so every message to it
  fails with \<open>ActorNotFound\<close>; neither the strategy nor the children leave a trace.
\<close>

theorem spawned_supervisor_is_unreachable:
  assumes "\<not> rt_actors_poisoned s" and "\<not> nt_poisoned (rt_net s)"
    and "nt_senders (rt_net s) (next_actor_id s) = None"
  shows "\<exists>i t. rt_spawn_supervisor st children s = (Inr i, t)
    \<and> inspect_actor i t = Inr (Some \<lparr>ai_id = i, ai_name = Some ''supervisor'', ai_mailbox_depth = 0\<rparr>)
    \<and> fst (rt_send api i m t) = Inl (ActorNotFound i)
    \<and> fst (rt_request api rapi i m t) = Inl (ActorNotFound i)
    \<and> rt_scheduler t = rt_scheduler s
    \<and> rt_spawn_supervisor st' children' s = (Inr i, t)"
  using assms
  by (simp add: rt_spawn_supervisor_def supervisor_pick_def supervisor_insert_def Let_def
      rt_send_def rt_request_def net_try_send_def find_sender_def inspect_actor_def fetch_add1_def
      split: prod.splits)
     (simp add: enlist_def rt_net_def set_net_def set_replies_def update_conv')

text \<open>
  Two threads that call \<open>spawn_supervisor\<close> at the same time, or one that does while
  another spawns its actor entry, can get the same id: both pick it before either has
  inserted its entry, and the second entry replaces the first.
\<close>

theorem racing_supervisors_share_an_id:
  assumes "\<not> rt_actors_poisoned s"
  shows "\<exists>i t u. supervisor_pick s = Inr i \<and> supervisor_insert i s = (Inr i, t)
    \<and> supervisor_insert i t = (Inr i, u) \<and> length (rt_actors u) = length (rt_actors t)"
proof -
  have "length (AList.update k v (AList.update k v al)) = length (AList.update k v al)"
    for k v and al :: "(actor_id \<times> actor_info) list"
    by (induction al) auto
  then show ?thesis using assms by (simp add: supervisor_pick_def supervisor_insert_def) (simp add: enlist_def)
qed

section \<open>Sending\<close>

text \<open>
  C27: \<open>Runtime::send\<close> never waits and reports what happened: \<open>ActorNotFound\<close> exactly for
  an id without a mailbox, \<open>MailboxFull\<close> exactly when as many messages wait as the
  mailbox holds, \<open>RuntimeStopped\<close> when the actor's loop is gone; otherwise the message
  is appended to the mailbox, and no other mailbox changes.
\<close>

theorem send_outcomes:
  assumes "chan api view" and "\<not> nt_poisoned (rt_net s)" and "net_ok (rt_net s)"
    and "\<forall>r c. st_map (nt_store (rt_net s)) r = Some c \<longrightarrow> buffered (view c)"
  shows "case mailbox_of view (rt_net s) target of
      None \<Rightarrow> rt_send api target m s = (Inl (ActorNotFound target), set_net (rt_net s) s)
    | Some v \<Rightarrow>
        if cv_receivers v = 0 then fst (rt_send api target m s) = Inl RuntimeStopped
        else if cv_full v then fst (rt_send api target m s) = Inl (MailboxFull target)
        else fst (rt_send api target m s) = Inr ()
          \<and> mailbox_of view (rt_net (snd (rt_send api target m s))) target
            = Some (v\<lparr>cv_queue := cv_queue v @ [Message m]\<rparr>)
          \<and> (\<forall>other. nt_senders (rt_net s) other \<noteq> nt_senders (rt_net s) target \<longrightarrow>
              mailbox_of view (rt_net (snd (rt_send api target m s))) other
                = mailbox_of view (rt_net s) other)"
proof (cases "nt_senders (rt_net s) target")
  case None
  then show ?thesis
    using assms(2) by (simp add: mailbox_of_def rt_send_def net_try_send_def find_sender_def)
next
  case (Some r)
  then obtain c where f: "find_sender target (rt_net s) = Inr (r, c)"
    using find_sender_known [OF assms(3) Some assms(2)] find_sender_Inr_iff by metis
  then have c: "st_map (nt_store (rt_net s)) r = Some c" by (simp add: find_sender_Inr_iff)
  with assms(4) have "buffered (view c)" by blast
  note sends = net_try_send_cases [OF assms(1) f this, of "Message m"]
  have v: "mailbox_of view (rt_net s) target = Some (view c)" using Some c by (simp add: mailbox_of_def)
  show ?thesis
  proof (cases "cv_receivers (view c) = 0 \<or> cv_full (view c)")
    case True
    then show ?thesis using sends by (auto simp: v rt_send_def split: if_splits)
  next
    case False
    then obtain c' where s: "net_try_send api target (Message m) (rt_net s) = (Inr (), put_channel r c' (rt_net s))"
      and c': "view c' = (view c)\<lparr>cv_queue := cv_queue (view c) @ [Message m]\<rparr>"
      using sends by auto
    have "mailbox_of view (put_channel r c' (rt_net s)) other = mailbox_of view (rt_net s) other"
      if "nt_senders (rt_net s) other \<noteq> nt_senders (rt_net s) target" for other
      using that Some by (cases "nt_senders (rt_net s) other") (auto simp: mailbox_of_def)
    then show ?thesis using False s c' Some by (simp add: v rt_send_def) (simp add: mailbox_of_def)
  qed
qed

section \<open>Requests\<close>

text \<open>The loop of the target handles one envelope while the caller waits.\<close>

definition serve ::
  "('c, 'v envelope) chan_api \<Rightarrow> ('r, 'v any) chan_api \<Rightarrow> type_id
    \<Rightarrow> ('v, 's, ('c, 'r) shared) handler \<Rightarrow> bool \<Rightarrow> 's actor_loop
    \<Rightarrow> ('c, 'r, 'q, 'p, 'v) runtime \<Rightarrow> ('c, 'r, 'q, 'p, 'v) runtime" where
  "serve api rapi ty handle stop lp s =
     (case loop_step api rapi ty handle stop lp (rt_shared s) of
        None \<Rightarrow> s
      | Some (out, lp', w) \<Rightarrow> s\<lparr>rt_shared := w\<rparr>)"

lemma reply_first:
  assumes "chan rapi rview" and "cx_reply_sender cx = Some r" and "st_map st r = Some c"
    and "cv_bound (rview c) = Some 1" "cv_queue (rview c) = []" "0 < cv_receivers (rview c)"
  shows "\<exists>c'. reply rapi cx m st = Some (Inr (), store_set r c' st)
    \<and> rview c' = (rview c)\<lparr>cv_queue := [m]\<rparr>"
  using chan.send_accepts [OF assms(1), of c m] assms(2-6) by (auto simp: reply_def cv_full_def)

lemma reply_read:
  assumes "chan rapi rview" and "cv_queue (rview c) = [m]"
  shows "\<exists>c'. request_recv rapi c = Some (Inr m, c')" "\<exists>c'. request_recv_timeout rapi c = (Inr m, c')"
    "\<exists>c'. request_try_recv rapi c = (Inr m, c')"
  using chan.recv_takes [OF assms] chan.recv_timeout_takes [OF assms] chan.try_recv_takes [OF assms]
  by (auto simp: request_recv_def request_recv_timeout_def request_try_recv_def)

text \<open>A handler that answers each message with a value and takes a new state.\<close>

definition answering ::
  "('r, 'v any) chan_api \<Rightarrow> 'v \<Rightarrow> ('s \<Rightarrow> 'v any) \<Rightarrow> ('s \<Rightarrow> 's)
    \<Rightarrow> ('v, 's, ('c, 'r) shared) handler \<Rightarrow> bool" where
  "answering rapi v ans f handle \<longleftrightarrow>
     (\<forall>cx a w. handle v cx a w = answer rapi cx (Some (ans a)) (Inr (), f a) w)"

lemma served_request:
  assumes ch: "chan api view" and rch: "chan rapi rview" and an: "answering rapi v ans f handle"
    and env: "st_map (nt_store (sh_net w)) (al_rx lp) = Some c" "cv_queue (view c) = [Request i (Any ty v) r]"
    and rep: "st_map (sh_replies w) r = Some d" "cx_reply_sender (al_ctx lp) \<noteq> Some r"
      "rview d = \<lparr>cv_queue = [], cv_bound = Some 1, cv_senders = 1, cv_receivers = 1\<rparr>"
  shows "\<exists>lp' w' d'. loop_step api rapi ty handle stop lp w = Some (LoopOn, lp', w')
    \<and> al_actor lp' = f (al_actor lp)
    \<and> st_map (sh_replies w') r = Some d' \<and> cv_queue (rview d') = [ans (al_actor lp)]"
proof -
  obtain c1 c2 where t: "ch_try_recv api c = Inr (Request i (Any ty v) r, c1)"
      "ch_recv_timeout api c = Inr (Request i (Any ty v) r, c2)"
    using chan.try_recv_takes [OF ch env(2)] chan.recv_timeout_takes [OF ch env(2)] by blast
  define c' where "c' = (if stop then c1 else c2)"
  let ?cx = "set_reply_sender (Some r) (al_ctx lp)"
  let ?w = "drop_reply rapi (cx_reply_sender (al_ctx lp)) (w\<lparr>sh_net := put_channel (al_rx lp) c' (sh_net w)\<rparr>)"
  have d: "st_map (sh_replies ?w) r = Some d"
    using rep(1,2) by (auto simp: drop_reply_def split: option.splits)
  obtain d' where reply: "reply rapi ?cx (ans (al_actor lp)) (sh_replies ?w)
        = Some (Inr (), store_set r d' (sh_replies ?w))"
    and d': "rview d' = (rview d)\<lparr>cv_queue := [ans (al_actor lp)]\<rparr>"
    using reply_first [OF rch _ d, of ?cx "ans (al_actor lp)"] rep(3) by (auto simp: set_reply_sender_def)
  let ?lp = "lp\<lparr>al_ctx := ?cx, al_actor := f (al_actor lp)\<rparr>"
  have "handle_envelope rapi ty handle (Request i (Any ty v) r) lp
      (w\<lparr>sh_net := put_channel (al_rx lp) c' (sh_net w)\<rparr>)
      = Some (LoopOn, ?lp, ?w\<lparr>sh_replies := store_set r d' (sh_replies ?w)\<rparr>)"
    using an reply by (simp add: handle_envelope_def run_handler_def Let_def answering_def answer_def)
  then show ?thesis
    using env(1) t d' by (cases stop) (auto simp: loop_step_def c'_def after_envelope_def)
qed

text \<open>
  C9: a request makes the round trip: when the target is idle and its handler answers,
  \<open>request_blocking\<close> returns the value the handler replied with for this message, at the
  type it replied with, with or without a timeout; the reply channel was fresh, so no
  other request can receive it.
\<close>

theorem request_reply_roundtrip:
  assumes ch: "chan api view" and rch: "chan rapi rview"
    and an: "answering rapi v (\<lambda>a. Any tyr (ans a)) f handle"
    and net: "\<not> nt_poisoned (rt_net s)" "nt_senders (rt_net s) target = Some (al_rx lp)"
      "st_map (nt_store (rt_net s)) (al_rx lp) = Some c"
    and idle: "cv_queue (view c) = []" "0 < cv_receivers (view c)" "cv_bound (view c) = Some k" "0 < k"
    and replies: "store_ok (sh_replies (rt_shared s))"
      "\<forall>r. cx_reply_sender (al_ctx lp) = Some r \<longrightarrow> st_map (sh_replies (rt_shared s)) r \<noteq> None"
  shows "\<exists>t. rt_request_blocking api rapi tyr target (Any ty v) timeout
      (serve api rapi ty handle stop lp) s = Some (Inr (ans (al_actor lp)), t)"
proof -
  let ?r = "fst (store_new (ch_bounded rapi 1) (sh_replies (rt_shared s)))"
  let ?st = "snd (store_new (ch_bounded rapi 1) (sh_replies (rt_shared s)))"
  let ?env = "Request (rt_request_counter s) (Any ty v) ?r"
  have f: "find_sender target (rt_net s) = Inr (al_rx lp, c)" using net by (simp add: find_sender_Inr_iff)
  have "buffered (view c)" "\<not> cv_full (view c)" using idle by (simp_all add: buffered_def cv_full_def)
  then obtain c' where sent: "net_try_send api target ?env (rt_net s) = (Inr (), put_channel (al_rx lp) c' (rt_net s))"
    and c': "cv_queue (view c') = [?env]"
    using net_try_send_cases [OF ch f, of ?env] idle by auto
  define s1 where "s1 = set_replies ?st (set_net (put_channel (al_rx lp) c' (rt_net s))
    (s\<lparr>rt_request_counter := rt_request_counter s + 1\<rparr>))"
  have req: "rt_request api rapi target (Any ty v) s = (Inr \<lparr>rq_id = rt_request_counter s, rq_receiver = ?r\<rparr>, s1)"
    using sent by (simp add: rt_request_def fetch_add1_def Let_def split_beta s1_def)
  have w: "st_map (nt_store (sh_net (rt_shared s1))) (al_rx lp) = Some c'"
    "st_map (sh_replies (rt_shared s1)) ?r = Some (ch_bounded rapi 1)"
    by (simp_all add: s1_def set_replies_def set_net_def)
  have "st_map (sh_replies (rt_shared s)) ?r = None" using replies(1) by (rule store_new_fresh)
  then have other: "cx_reply_sender (al_ctx lp) \<noteq> Some ?r" using replies(2) by auto
  have fresh: "rview (ch_bounded rapi 1) = \<lparr>cv_queue = [], cv_bound = Some 1, cv_senders = 1, cv_receivers = 1\<rparr>"
    using chan.bounded_view [OF rch, of 1] by simp
  obtain lp' w' d' where "loop_step api rapi ty handle stop lp (rt_shared s1) = Some (LoopOn, lp', w')"
    and d': "st_map (sh_replies w') ?r = Some d'" "cv_queue (rview d') = [Any tyr (ans (al_actor lp))]"
    using served_request [OF ch rch an w(1) c' w(2) other fresh] by blast
  then have served: "serve api rapi ty handle stop lp s1 = s1\<lparr>rt_shared := w'\<rparr>" by (simp add: serve_def)
  obtain e1 e2 where "request_recv rapi d' = Some (Inr (Any tyr (ans (al_actor lp))), e1)"
    "request_recv_timeout rapi d' = (Inr (Any tyr (ans (al_actor lp))), e2)"
    using reply_read [OF rch d'(2)] by blast
  then show ?thesis
    using d'(1) by (simp add: rt_request_blocking_def req served Let_def reply_as_def split: option.splits)
qed

section \<open>A concrete runtime\<close>

text \<open>Two scheduler workers, one compute worker, mailboxes of two places, a counter at five.\<close>

type_synonym demo_runtime = "(runact_value envelope chan_view, runact_value any chan_view,
  runact_value task chan_view, runact_value compute_result chan_view, runact_value) runtime"

definition demo_config :: runtime_config where
  "demo_config = \<lparr>cfg_compute = \<lparr>cc_max_workers = 1, cc_queue_capacity = 1, cc_task_timeout = None\<rparr>,
     cfg_mailbox_capacity = 2, cfg_shutdown_timeout = 50\<rparr>"

definition demo_start :: demo_runtime where
  "demo_start = projr (with_config ref_api (Some 2) 0 0 demo_config)"

definition demo_rt :: demo_runtime where
  "demo_rt = fst (snd (rt_spawn ref_api ref_api (5::u64) demo_start))"

definition demo_loop :: "u64 actor_loop" where
  "demo_loop = \<lparr>al_rx = 0, al_actor = 5, al_ctx = actor_start_context (ActorId 1) 0 True, al_reductions = rc_new\<rparr>"

definition demo_mailbox :: "runact_value envelope list \<Rightarrow> runact_value envelope chan_view" where
  "demo_mailbox q = \<lparr>cv_queue = q, cv_bound = Some 2, cv_senders = 2, cv_receivers = 1\<rparr>"

lemma demo_with_config: "with_config ref_api (Some 2) 0 0 demo_config = Inr demo_start"
  by (simp add: demo_start_def with_config_def compute_new_def Let_def)

lemma demo_start_sel [simp]:
  "rt_net demo_start = net_empty" "sh_replies (rt_shared demo_start) = store_empty"
  "rt_actors demo_start = []" "\<not> rt_actors_poisoned demo_start" "rt_request_counter demo_start = 0"
  "rt_mailbox_capacity demo_start = 2" "rt_shutdown_timeout demo_start = 50"
  "cp_sender (rt_compute demo_start)" "rt_scheduler demo_start = scheduler_new 2"
  by (simp_all add: demo_start_def with_config_def compute_new_def Let_def rt_net_def demo_config_def
      num_workers_def)

lemma demo_rt_spawn:
  "rt_spawn ref_api ref_api 5 demo_start = (Inr (ActorId 1), demo_rt, Some demo_loop)"
  by (simp add: demo_rt_def rt_spawn_def Let_def next_id_eq open_mailbox_def net_empty_def demo_loop_def
      store_new_def store_empty_def)

lemma demo_rt_sel [simp]:
  "nt_senders (rt_net demo_rt) = [ActorId 1 \<mapsto> 0]" "\<not> nt_poisoned (rt_net demo_rt)"
  "nt_store (rt_net demo_rt) = \<lparr>st_map = [0 \<mapsto> demo_mailbox []], st_next = 1\<rparr>"
  "sh_replies (rt_shared demo_rt) = store_empty"
  "rt_actors demo_rt = [(ActorId 1, \<lparr>ai_id = ActorId 1, ai_name = None, ai_mailbox_depth = 0\<rparr>)]"
  "\<not> rt_actors_poisoned demo_rt" "rt_shutdown_timeout demo_rt = 50"
  by (simp_all add: demo_rt_def rt_spawn_def Let_def next_id_eq open_mailbox_def net_empty_def
      store_new_def store_empty_def set_net_def enlist_def rt_net_def [of "_\<lparr>rt_compute := _, rt_scheduler := _\<rparr>"]
      demo_mailbox_def ref_api_def eval_nat_numeral)

lemma demo_rt_reachable: "reachable (rt_init ref_api) (rt_step ref_api ref_api ref_api) demo_rt"
proof (rule reach_step)
  show "reachable (rt_init ref_api) (rt_step ref_api ref_api ref_api) demo_start"
    by (rule reach_init) (use demo_with_config in \<open>auto simp: rt_init_def\<close>)
  have "fst (snd (rt_spawn ref_api ref_api () demo_start)) = demo_rt"
    by (simp add: demo_rt_def rt_spawn_def Let_def split: prod.splits)
  then show "rt_step ref_api ref_api ref_api demo_start demo_rt"
    by (metis rt_step.spawned prod.collapse)
qed


theorem spawned_supervisor_is_unreachable_witness:
  "\<exists>t. rt_spawn_supervisor restart_strategy_default [child_spec_new ''w''] demo_rt = (Inr (ActorId 2), t)
    \<and> fst (rt_send ref_api (ActorId 2) (Any 1 (SupMsg GetStatus)) t) = Inl (ActorNotFound (ActorId 2))"
proof -
  have i: "next_actor_id demo_rt = ActorId 2" by (simp add: next_id_eq)
  have p: "\<not> rt_actors_poisoned demo_rt" "\<not> nt_poisoned (rt_net demo_rt)"
    "nt_senders (rt_net demo_rt) (next_actor_id demo_rt) = None"
    by (simp_all add: i)
  have "rt_spawn_supervisor restart_strategy_default [child_spec_new ''w''] demo_rt = (Inr (ActorId 2),
      enlist (ActorId 2) (Some ''supervisor'') demo_rt)"
    by (simp add: rt_spawn_supervisor_def supervisor_pick_def supervisor_insert_def i)
  with spawned_supervisor_is_unreachable [OF p, of restart_strategy_default "[child_spec_new ''w'']"
      ref_api "Any 1 (SupMsg GetStatus)" ref_api restart_strategy_default "[]"]
  show ?thesis by auto
qed

theorem racing_supervisors_share_an_id_witness:
  "\<exists>i t u. supervisor_pick demo_rt = Inr i \<and> supervisor_insert i demo_rt = (Inr i, t)
    \<and> supervisor_insert i t = (Inr i, u) \<and> length (rt_actors u) = length (rt_actors t)"
proof -
  have "\<not> rt_actors_poisoned demo_rt" by simp
  then show ?thesis by (rule racing_supervisors_share_an_id)
qed

theorem send_outcomes_witness:
  "fst (rt_send ref_api (ActorId 1) (Any 2 (CounterMsg Increment)) demo_rt) = Inr ()
    \<and> fst (rt_send ref_api (ActorId 9) (Any 2 (CounterMsg Increment)) demo_rt) = Inl (ActorNotFound (ActorId 9))"
proof -
  have p: "\<not> nt_poisoned (rt_net demo_rt)" "net_ok (rt_net demo_rt)"
    "\<forall>r c. st_map (nt_store (rt_net demo_rt)) r = Some c \<longrightarrow> buffered c"
    by (auto simp: net_ok_def store_ok_def buffered_def demo_mailbox_def split: if_splits)
  have m: "mailbox_of (\<lambda>v. v) (rt_net demo_rt) (ActorId 1) = Some (demo_mailbox [])"
    "mailbox_of (\<lambda>v. v) (rt_net demo_rt) (ActorId 9) = None"
    by (simp_all add: mailbox_of_def)
  show ?thesis
    using send_outcomes [OF chan_ref p, of "ActorId 1" "Any 2 (CounterMsg Increment)"]
      send_outcomes [OF chan_ref p, of "ActorId 9" "Any 2 (CounterMsg Increment)"] m
    by (simp add: demo_mailbox_def cv_full_def)
qed

theorem request_reply_roundtrip_witness:
  "\<exists>t. rt_request_blocking ref_api ref_api count_type (ActorId 1) (Any counter_message_type (CounterMsg GetValue))
      (Some 1000) (serve ref_api ref_api counter_message_type (counter_handler ref_api) False demo_loop)
      demo_rt = Some (Inr (Count 5), t)"
proof -
  have an: "answering ref_api (CounterMsg GetValue) (\<lambda>a. Any count_type (Count a)) (\<lambda>a. a)
      (counter_handler ref_api)"
    by (simp add: answering_def counter_handler_def)
  have net: "\<not> nt_poisoned (rt_net demo_rt)" "nt_senders (rt_net demo_rt) (ActorId 1) = Some (al_rx demo_loop)"
      "st_map (nt_store (rt_net demo_rt)) (al_rx demo_loop) = Some (demo_mailbox [])"
    and idle: "cv_queue (demo_mailbox []) = []" "0 < cv_receivers (demo_mailbox [])"
      "cv_bound (demo_mailbox []) = Some 2" "(0::nat) < 2"
    and replies: "store_ok (sh_replies (rt_shared demo_rt))"
      "\<forall>r. cx_reply_sender (al_ctx demo_loop) = Some r \<longrightarrow> st_map (sh_replies (rt_shared demo_rt)) r \<noteq> None"
    by (simp_all add: demo_loop_def demo_mailbox_def actor_start_context_def context_new_def
        set_timer_handle_def set_senders_def set_compute_sender_def)
  have "al_actor demo_loop = 5" by (simp add: demo_loop_def)
  with request_reply_roundtrip [OF chan_ref chan_ref an net idle replies, of counter_message_type "Some 1000" False]
  show ?thesis by simp
qed

section \<open>Request ids and pending replies\<close>

fun rt_requests ::
  "('c, 'v envelope) chan_api \<Rightarrow> ('r, 'v any) chan_api \<Rightarrow> (actor_id \<times> 'v any) list
    \<Rightarrow> ('c, 'r, 'q, 'p, 'v) runtime
    \<Rightarrow> (request_handle, runtime_error) result list \<times> ('c, 'r, 'q, 'p, 'v) runtime" where
  "rt_requests api rapi [] s = ([], s)"
| "rt_requests api rapi ((target, m) # xs) s =
     (let r = rt_request api rapi target m s; q = rt_requests api rapi xs (snd r)
      in (fst r # fst q, snd q))"

lemma rt_request_id:
  "rt_request_counter (snd (rt_request api rapi target m s)) = rt_request_counter s + 1
   \<and> (\<forall>h. fst (rt_request api rapi target m s) = Inr h \<longrightarrow> rq_id h = rt_request_counter s)"
  by (auto simp: rt_request_def fetch_add1_def Let_def split: prod.splits sum.splits)

text \<open>A request whose outcome is ignored hands out the ids of the counter in turn.\<close>

interpretation request_ids: id_source
  "\<lambda>s. (rt_request_counter s, snd (rt_request api rapi target m s))" rt_request_counter "\<lambda>i. i"
  by unfold_locales (simp_all add: rt_request_id)

text \<open>
  Request ids count the attempts: the k-th call of \<open>request\<close> carries the k-th value
  of the counter if it succeeds, the failing calls use up an id as well, and
  \<open>stats().request_count\<close> reports attempts, not requests sent. Up to \<open>2^64\<close> calls no id
  comes twice.
\<close>

theorem request_ids_count_attempts:
  "st_request_count (runtime_stats_of (snd (rt_requests api rapi xs s)))
      = rt_request_counter s + of_nat (length xs)
   \<and> (\<forall>k h. k < length xs \<and> fst (rt_requests api rapi xs s) ! k = Inr h
       \<longrightarrow> rq_id h = rt_request_counter s + of_nat k)
   \<and> (\<forall>j k g h. length xs \<le> 2 ^ 64 \<and> j < k \<and> k < length xs
       \<and> fst (rt_requests api rapi xs s) ! j = Inr g \<and> fst (rt_requests api rapi xs s) ! k = Inr h
       \<longrightarrow> rq_id g \<noteq> rq_id h)"
proof -
  have counts: "rt_request_counter (snd (rt_requests api rapi xs s)) = rt_request_counter s + of_nat (length xs)
    \<and> (\<forall>k h. k < length xs \<and> fst (rt_requests api rapi xs s) ! k = Inr h
       \<longrightarrow> rq_id h = rt_request_counter s + of_nat k)"
  proof (induction xs arbitrary: s)
    case Nil
    then show ?case by simp
  next
    case (Cons x xs)
    obtain target m where x: "x = (target, m)" by fastforce
    let ?r = "rt_request api rapi target m s"
    have "rq_id h = rt_request_counter s + of_nat k"
      if "k < length (x # xs)" "fst (rt_requests api rapi (x # xs) s) ! k = Inr h" for k h
      using that Cons.IH [of "snd ?r"] rt_request_id [of api rapi target m s]
      by (cases k) (auto simp: x Let_def)
    then show ?case
      using Cons.IH [of "snd ?r"] rt_request_id [of api rapi target m s] by (simp add: x Let_def)
  qed
  have "rq_id g \<noteq> rq_id h"
    if "length xs \<le> 2 ^ 64" "j < k" "k < length xs" "fst (rt_requests api rapi xs s) ! j = Inr g"
      "fst (rt_requests api rapi xs s) ! k = Inr h" for j k g h
  proof
    assume same: "rq_id g = rq_id h"
    have "j < length xs" using that(2,3) by simp
    then have "rq_id g = rt_request_counter s + of_nat j" "rq_id h = rt_request_counter s + of_nat k"
      using counts that(3-5) by blast+
    with same have "(of_nat j :: u64) = of_nat k" by simp
    then show False using of_nat_u64_inj [of j k] that by simp
  qed
  with counts show ?thesis by (auto simp: runtime_stats_of_def)
qed

theorem request_ids_count_attempts_witness:
  "st_request_count (runtime_stats_of (snd (rt_requests ref_api ref_api
      [(ActorId 9, Any 2 (CounterMsg GetValue)), (ActorId 1, Any 2 (CounterMsg GetValue))] demo_start))) = 2"
  using request_ids_count_attempts [of ref_api ref_api
      "[(ActorId 9, Any 2 (CounterMsg GetValue)), (ActorId 1, Any 2 (CounterMsg GetValue))]" demo_start]
  by simp

text \<open>
  \<open>try_recv\<close> and \<open>recv_timeout\<close> do not tell a request that is still being handled from
  one that will never be answered: both are \<open>RuntimeStopped\<close>. Only \<open>recv\<close> does, by
  waiting in the first case.
\<close>

theorem pending_request_reads_stopped:
  assumes "chan rapi rview"
    and "rview asked = \<lparr>cv_queue = [], cv_bound = Some 1, cv_senders = 1, cv_receivers = 1\<rparr>"
    and "rview lost = \<lparr>cv_queue = [], cv_bound = Some 1, cv_senders = 0, cv_receivers = 1\<rparr>"
  shows "request_try_recv rapi asked = (Inl RuntimeStopped, asked)
    \<and> request_try_recv rapi lost = (Inl RuntimeStopped, lost)
    \<and> request_recv_timeout rapi asked = (Inl RuntimeStopped, asked)
    \<and> request_recv_timeout rapi lost = (Inl RuntimeStopped, lost)
    \<and> request_recv rapi asked = None
    \<and> request_recv rapi lost = Some (Inl RuntimeStopped, lost)"
  using chan.reads_empty [OF assms(1), of asked] chan.reads_empty [OF assms(1), of lost] assms(2,3)
  by (simp add: request_try_recv_def request_recv_timeout_def request_recv_def buffered_def)

theorem pending_request_reads_stopped_witness:
  "fst (request_try_recv ref_api (ch_bounded ref_api 1))
      = (Inl RuntimeStopped :: (bool any, runtime_error) result)
    \<and> request_recv ref_api (ch_bounded ref_api 1 :: bool any chan_view) = None"
proof -
  have p: "(ch_bounded ref_api 1 :: bool any chan_view)
      = \<lparr>cv_queue = [], cv_bound = Some 1, cv_senders = 1, cv_receivers = 1\<rparr>"
    and d: "(ch_drop_sender ref_api (ch_bounded ref_api 1) :: bool any chan_view)
      = \<lparr>cv_queue = [], cv_bound = Some 1, cv_senders = 0, cv_receivers = 1\<rparr>"
    by (simp_all add: ref_defs)
  show ?thesis
    using pending_request_reads_stopped [OF chan_ref p d] unfolding p by (elim conjE) (intro conjI, simp_all only: fst_conv)
qed

section \<open>Shutting down\<close>

lemma wait_deadline_reading:
  "wait_deadline d ts = Some k \<Longrightarrow> k < length ts \<and> d \<le> ts ! k \<and> (\<forall>j < k. ts ! j < d)"
proof (induction ts arbitrary: k)
  case (Cons t ts)
  show ?case
  proof (cases "t < d")
    case True
    then obtain n where "wait_deadline d ts = Some n" "k = Suc n" using Cons.prems by auto
    with Cons.IH [of n] True show ?thesis by (auto simp: less_Suc_eq_0_disj)
  next
    case False
    then show ?thesis using Cons.prems by simp
  qed
qed simp

text \<open>
  \<open>shutdown\<close> always waits for the whole timeout, even when every actor is done at
  once: it returns normally only after a clock reading at or past the deadline, and all
  earlier readings were before it; a timeout that does not fit an \<open>Instant\<close> panics.
\<close>

theorem shutdown_waits_full_timeout:
  assumes "rt_shutdown api qapi now readings s = Some (r, t)"
  shows "rt_stop t
    \<and> (if instant_max < now + rt_shutdown_timeout s then r = Panicked
       else r \<noteq> Panicked \<and> (\<exists>k < length readings. now + rt_shutdown_timeout s \<le> readings ! k
         \<and> (\<forall>j < k. readings ! j < now + rt_shutdown_timeout s)))"
proof -
  have stop: "rt_stop (snd (shutdown_services api qapi (s\<lparr>rt_stop := True\<rparr>)))"
    by (simp add: shutdown_services_def Let_def set_net_def)
  show ?thesis
  proof (cases "instant_max < now + rt_shutdown_timeout s")
    case True
    then show ?thesis using assms by (auto simp: rt_shutdown_def instant_add_def Let_def)
  next
    case False
    then obtain k where k: "wait_deadline (now + rt_shutdown_timeout s) readings = Some k"
      using assms by (auto simp: rt_shutdown_def instant_add_def Let_def split: option.splits)
    then have "r \<noteq> Panicked" "rt_stop t"
      using assms stop False by (auto simp: rt_shutdown_def instant_add_def Let_def split: prod.splits)
    then show ?thesis using False wait_deadline_reading [OF k] by auto
  qed
qed

text \<open>
  C36: succeeded the runtime is empty: no actor is listed, every send
  and request fails with \<open>ActorNotFound\<close>, a compute job panics the submitter; and the next
  spawn takes the id 1 again, although an actor had it before.
\<close>

theorem shutdown_empties_and_reuses_ids:
  assumes "rt_shutdown api qapi now readings s = Some (Ret (Inr ()), t)"
  shows "rt_actors t = [] \<and> fst (rt_send api target m t) = Inl (ActorNotFound target)
    \<and> fst (rt_request api rapi target m t) = Inl (ActorNotFound target)
    \<and> sc_stop (rt_scheduler t) \<and> rt_timer_stop t
    \<and> map_option fst (compute_spawn qapi papi now job (rt_compute t)) = Some Panicked
    \<and> fst (rt_spawn api qapi actor t) = Inr (ActorId 1)"
proof -
  have sh: "shutdown_services api qapi (s\<lparr>rt_stop := True\<rparr>) = (Inr (), t)"
    using assms by (auto simp: rt_shutdown_def Let_def split: rust.splits option.splits prod.splits)
  then have p: "\<not> nt_poisoned (rt_net s)" "\<not> rt_actors_poisoned s"
    by (auto simp: shutdown_services_def Let_def rt_net_def split: if_splits)
  then have t: "t = (set_net (clear_senders api (rt_net s)) (s\<lparr>rt_stop := True\<rparr>))\<lparr>rt_actors := [],
      rt_timer_stop := True, rt_scheduler := sched_stop (rt_scheduler s),
      rt_compute := pool_take_sender qapi (pool_raise_stop (rt_compute s))\<rparr>"
    using sh by (simp add: shutdown_services_def Let_def rt_net_def)
  have n: "rt_net t = clear_senders api (rt_net s)" "rt_actors t = []" "\<not> rt_actors_poisoned t"
    "sc_stop (rt_scheduler t)" "rt_timer_stop t" "\<not> cp_sender (rt_compute t)"
    using p by (simp_all add: t set_net_def rt_net_def sched_stop_def pool_take_sender_def pool_raise_stop_def)
  have f: "find_sender x (rt_net t) = Inl (ActorNotFound x)" for x
    using p by (simp add: n find_sender_def clear_senders_def)
  have "fst (rt_send api target m t) = Inl (ActorNotFound target)"
    "fst (rt_request api rapi target m t) = Inl (ActorNotFound target)"
    by (simp_all add: rt_send_def rt_request_def net_try_send_def f fetch_add1_def Let_def split: prod.splits)
  moreover have "fst (rt_spawn api qapi actor t) = Inr (ActorId 1)"
    using p n by (simp add: rt_spawn_def Let_def next_id_eq clear_senders_def split: prod.splits)
  moreover have "map_option fst (compute_spawn qapi papi now job (rt_compute t)) = Some Panicked"
  proof -
    obtain k s1 where mk: "make_task papi now job (rt_compute t) = (k, s1)" by fastforce
    have "\<not> cp_sender s1" using make_task_eqs [OF mk] n(6) by simp
    then show ?thesis by (simp add: compute_spawn_def mk)
  qed
  ultimately show ?thesis using n by simp
qed

theorem shutdown_waits_full_timeout_witness:
  "\<exists>r t. rt_shutdown ref_api ref_api 100 [100, 120, 155] demo_rt = Some (r, t) \<and> rt_stop t \<and> r \<noteq> Panicked"
proof -
  obtain x y where "shutdown_services ref_api ref_api (demo_rt\<lparr>rt_stop := True\<rparr>) = (x, y)" by fastforce
  then have "rt_shutdown ref_api ref_api 100 [100, 120, 155] demo_rt = Some (Ret x, y)"
    by (simp add: rt_shutdown_def Let_def time_defs)
  then obtain r t where r: "rt_shutdown ref_api ref_api 100 [100, 120, 155] demo_rt = Some (r, t)" by blast
  have "\<not> instant_max < 100 + rt_shutdown_timeout demo_rt" by (simp add: time_defs)
  with shutdown_waits_full_timeout [OF r] r show ?thesis by auto
qed

theorem shutdown_empties_and_reuses_ids_witness:
  "\<exists>t. rt_shutdown ref_api ref_api 100 [150] demo_rt = Some (Ret (Inr ()), t)
    \<and> fst (rt_spawn ref_api ref_api (0::u64) t) = Inr (ActorId 1)
    \<and> fst (rt_spawn ref_api ref_api (0::u64) demo_start) = Inr (ActorId 1)"
proof -
  have "\<exists>t. rt_shutdown ref_api ref_api 100 [150] demo_rt = Some (Ret (Inr ()), t)"
    using demo_rt_sel(2,6,7)
    by (simp add: rt_shutdown_def Let_def instant_add_def instant_max_def nanos_per_sec_def
        shutdown_services_def rt_net_def [symmetric] rt_net_def [of "demo_rt\<lparr>rt_stop := True\<rparr>"])
  then obtain t where t: "rt_shutdown ref_api ref_api 100 [150] demo_rt = Some (Ret (Inr ()), t)" ..
  from shutdown_empties_and_reuses_ids [OF t, where actor = "0::u64"]
  have "fst (rt_spawn ref_api ref_api (0::u64) t) = Inr (ActorId 1)" by blast
  moreover have "fst (rt_spawn ref_api ref_api (0::u64) demo_start) = Inr (ActorId 1)"
    by (simp add: rt_spawn_def Let_def next_id_eq net_empty_def split: prod.splits)
  ultimately show ?thesis using t by blast
qed

section \<open>Actors and workers\<close>

lemma handle_envelope_outcome:
  "handle_envelope rapi ty handle env lp w = Some (out, lp', w') \<Longrightarrow> out \<noteq> LoopEnded"
  by (auto simp: handle_envelope_def run_handler_def Let_def
      split: envelope.splits sum.splits option.splits rust.splits)

lemma after_envelope_outcome:
  "after_envelope counted (out, lp, w) = (out', lp', w') \<Longrightarrow> out' = out"
  by (auto simp: after_envelope_def split: if_splits)

text \<open>
  An actor's loop never ends before the runtime is stopping: its own context keeps a
  sender of its mailbox alive, so \<open>recv_timeout\<close> never reports a disconnected mailbox,
  even after its entry was removed from the map of senders. It goes on, or its handler
  panics.
\<close>

theorem actor_loop_never_ends_by_itself:
  assumes "chan api view" and "st_map (nt_store (sh_net w)) (al_rx lp) = Some c"
    and "cv_bound (view c) \<noteq> Some 0" and "0 < cv_senders (view c)"
    and "loop_step api rapi ty handle False lp w = Some (out, lp', w')"
  shows "out = LoopOn \<or> out = LoopPanicked"
proof -
  have "ch_recv_timeout api c \<noteq> Inl RecvTimeoutDisconnected"
  proof (cases "cv_queue (view c)")
    case Nil
    then show ?thesis
      using chan.reads_empty(3) [OF assms(1) Nil] assms(3,4) by (simp add: buffered_def)
  next
    case (Cons m ms)
    then show ?thesis using chan.recv_timeout_takes [OF assms(1) Cons] by auto
  qed
  then have "out \<noteq> LoopEnded"
    using assms(2,5)
    by (auto simp: loop_step_def dest!: after_envelope_outcome dest: handle_envelope_outcome
        split: sum.splits recv_timeout_error.splits)
  then show ?thesis by (cases out) simp_all
qed

theorem actor_loop_never_ends_by_itself_witness:
  "\<exists>out lp' w'. loop_step ref_api ref_api counter_message_type (counter_handler ref_api) False
      demo_loop (rt_shared demo_rt) = Some (out, lp', w') \<and> (out = LoopOn \<or> out = LoopPanicked)"
proof -
  have c: "st_map (nt_store (sh_net (rt_shared demo_rt))) (al_rx demo_loop) = Some (demo_mailbox [])"
    using demo_rt_sel(3) by (simp add: rt_net_def demo_loop_def)
  have b: "cv_bound (demo_mailbox []) \<noteq> Some 0" "0 < cv_senders (demo_mailbox [])"
    by (simp_all add: demo_mailbox_def)
  obtain out lp' w' where s: "loop_step ref_api ref_api counter_message_type (counter_handler ref_api)
      False demo_loop (rt_shared demo_rt) = Some (out, lp', w')"
    using c by (simp add: loop_step_def demo_mailbox_def ref_api_def)
  from actor_loop_never_ends_by_itself [OF chan_ref c b s] s show ?thesis by blast
qed

text \<open>A step of the scheduler in which no running task ends.\<close>

definition step_none_ends :: "'t sched \<Rightarrow> 't sched \<Rightarrow> bool" where
  "step_none_ends s t \<longleftrightarrow> sched_step s t \<and> sc_done t = sc_done s \<and> sc_panicked t = sc_panicked s"

lemma occupied_step:
  assumes "step_none_ends s t" and "\<forall>p \<in> set (sc_workers s). \<exists>k. p = Running k"
  shows "sc_workers t = sc_workers s \<and> length (sc_queues t) = length (sc_queues s)
    \<and> (\<forall>q < length (sc_queues s). \<exists>new. sc_queues t ! q = sc_queues s ! q @ new)"
proof -
  have step: "sched_step s t" and quiet: "sc_done t = sc_done s" "sc_panicked t = sc_panicked s"
    using assms(1) by (simp_all add: step_none_ends_def)
  show ?thesis
    using step
  proof cases
    case (spawn k)
    have "\<exists>new. (sc_queues s)[i := sc_queues s ! i @ [k]] ! q = sc_queues s ! q @ new"
      if "q < length (sc_queues s)" for i q
      using that by (cases "i = q") auto
    then show ?thesis using spawn by (simp add: sched_spawn_def Let_def rq_push_def)
  next
    case (work i)
    then obtain k where "sc_workers s ! i = Running k" using assms(2) nth_mem by blast
    then show ?thesis using work by (simp add: worker_step_def)
  qed (use quiet in \<open>auto simp: sched_stop_def\<close>)
qed


definition crowded :: "actor_id sched" where
  "crowded = \<lparr>sc_queues = [[ActorId 2]], sc_next = 2, sc_stop = False,
     sc_workers = [Running (ActorId 1)], sc_spawned = [ActorId 1, ActorId 2], sc_done = [], sc_panicked = []\<rparr>"

lemma crowded_reachable: "reachable sched_init sched_step crowded"
proof -
  have "sched_run [Spawn (ActorId 1), Spawn (ActorId 2), Work 0, Work 0] (scheduler_new 1) = Some crowded"
    by (simp add: crowded_def sched_eval)
  then show ?thesis by (rule sched_run_reachable) (simp add: scheduler_new_reachable)
qed


end
