(* ===== verification/Conversation.thy ===== *)
theory Conversation
  imports RuntimeProps
begin

text \<open>
  A client that talks to a supervising actor through the runtime, as the tests of
  \<open>src/supervision/supervisor_actor.rs\<close> do: it sends a report, lets the actor handle it,
  and asks for the status with a request. What it reads is what the actor computes, and
  the tests and the example program of the crate are conversations of this kind.
\<close>

section \<open>The client\<close>

record ('c, 'r, 'q, 'p) bench =
  bn_rt :: "('c, 'r, 'q, 'p, runact_value) runtime"
  bn_loop :: "supervisor_actor actor_loop"

type_synonym sa_readings = "instant \<times> instant \<times> actor_id list"

text \<open>One round of the supervisor's loop, with what the environment supplies to it.\<close>

definition sup_round ::
  "('c, runact_value envelope) chan_api \<Rightarrow> ('r, runact_value any) chan_api \<Rightarrow> sa_readings
    \<Rightarrow> ('c, 'r, 'q, 'p) bench \<Rightarrow> ('c, 'r, 'q, 'p) bench option" where
  "sup_round api rapi inp b =
     (case loop_step api rapi supervisor_message_type (supervisor_handler rapi (\<lambda>_. inp)) False
        (bn_loop b) (rt_shared (bn_rt b)) of
        Some (LoopOn, lp, w) \<Rightarrow> Some (b\<lparr>bn_rt := (bn_rt b)\<lparr>rt_shared := w\<rparr>, bn_loop := lp\<rparr>)
      | _ \<Rightarrow> None)"

text \<open>\<open>runtime.send(id, m).expect(...)\<close> and the time the test sleeps afterwards.\<close>

definition tell ::
  "('c, runact_value envelope) chan_api \<Rightarrow> ('r, runact_value any) chan_api \<Rightarrow> actor_id \<Rightarrow> sa_readings
    \<Rightarrow> supervisor_message \<Rightarrow> ('c, 'r, 'q, 'p) bench \<Rightarrow> ('c, 'r, 'q, 'p) bench option" where
  "tell api rapi target inp m b =
     (case rt_send api target (Any supervisor_message_type (SupMsg m)) (bn_rt b) of
        (Inl e, s) \<Rightarrow> None
      | (Inr _, s) \<Rightarrow> sup_round api rapi inp (b\<lparr>bn_rt := s\<rparr>))"

text \<open>
  \<open>runtime.request(id, GetStatus)\<close>, \<open>recv_timeout\<close> on the handle and the downcast of the
  reply, each expected to succeed; the handle is dropped at the end.
\<close>

definition ask ::
  "('c, runact_value envelope) chan_api \<Rightarrow> ('r, runact_value any) chan_api \<Rightarrow> actor_id \<Rightarrow> sa_readings
    \<Rightarrow> ('c, 'r, 'q, 'p) bench \<Rightarrow> (child_status list \<times> ('c, 'r, 'q, 'p) bench) option" where
  "ask api rapi target inp b =
     (case rt_request api rapi target (Any supervisor_message_type (SupMsg GetStatus)) (bn_rt b) of
        (Inl e, s) \<Rightarrow> None
      | (Inr h, s) \<Rightarrow>
          (case sup_round api rapi inp (b\<lparr>bn_rt := s\<rparr>) of
             None \<Rightarrow> None
           | Some b' \<Rightarrow>
               (case st_map (sh_replies (rt_shared (bn_rt b'))) (rq_receiver h) of
                  None \<Rightarrow> None
                | Some c \<Rightarrow>
                    (case request_recv_timeout rapi c of
                       (Inr (Any t (Statuses sts)), c') \<Rightarrow>
                         if t = statuses_type
                         then Some (sts, b'\<lparr>bn_rt := set_replies (store_set (rq_receiver h)
                           (ch_drop_receiver rapi c') (sh_replies (rt_shared (bn_rt b')))) (bn_rt b')\<rparr>)
                         else None
                     | _ \<Rightarrow> None))))"

text \<open>A script of reports and status requests, and what the client reads.\<close>

fun converse ::
  "('c, runact_value envelope) chan_api \<Rightarrow> ('r, runact_value any) chan_api \<Rightarrow> actor_id
    \<Rightarrow> (sa_readings \<times> supervisor_message) list \<Rightarrow> ('c, 'r, 'q, 'p) bench
    \<Rightarrow> (child_status list list \<times> ('c, 'r, 'q, 'p) bench) option" where
  "converse api rapi target [] b = Some ([], b)"
| "converse api rapi target ((inp, m) # cs) b =
     (if m = GetStatus
      then (case ask api rapi target inp b of
              None \<Rightarrow> None
            | Some (sts, b') \<Rightarrow>
                map_option (\<lambda>(rs, b''). (sts # rs, b'')) (converse api rapi target cs b'))
      else (case tell api rapi target inp m b of
              None \<Rightarrow> None
            | Some b' \<Rightarrow> converse api rapi target cs b'))"

text \<open>The same script on the actor alone, without a runtime; \<open>None\<close> if its handler panics.\<close>

fun replies_of ::
  "(sa_readings \<times> supervisor_message) list \<Rightarrow> supervisor_actor \<Rightarrow> child_status list list option" where
  "replies_of [] a = Some []"
| "replies_of (((now, now', order), m) # cs) a =
     (case sa_handle now now' order m a of
        Panicked \<Rightarrow> None
      | Ret (res, None, a') \<Rightarrow> replies_of cs a'
      | Ret (res, Some sts, a') \<Rightarrow> map_option ((#) sts) (replies_of cs a'))"

section \<open>The runtime is transparent\<close>

definition at_rest ::
  "('c \<Rightarrow> runact_value envelope chan_view) \<Rightarrow> actor_id \<Rightarrow> ('c, 'r, 'q, 'p) bench \<Rightarrow> bool" where
  "at_rest view target b \<longleftrightarrow> (let n = rt_net (bn_rt b); rx = al_rx (bn_loop b) in
     \<not> nt_poisoned n \<and> nt_senders n target = Some rx
     \<and> (\<exists>c k. st_map (nt_store n) rx = Some c \<and> cv_queue (view c) = [] \<and> cv_bound (view c) = Some k
          \<and> 0 < k \<and> 0 < cv_receivers (view c))
     \<and> store_ok (sh_replies (rt_shared (bn_rt b)))
     \<and> (\<forall>r. cx_reply_sender (al_ctx (bn_loop b)) = Some r \<longrightarrow>
          st_map (sh_replies (rt_shared (bn_rt b))) r \<noteq> None))"

lemma rest_accepts:
  assumes "chan api view" and "at_rest view target b"
  shows "\<exists>c'. net_try_send api target env (rt_net (bn_rt b)) = (Inr (), put_channel (al_rx (bn_loop b)) c' (rt_net (bn_rt b)))
    \<and> cv_queue (view c') = [env] \<and> (\<exists>k. cv_bound (view c') = Some k \<and> 0 < k) \<and> 0 < cv_receivers (view c')"
proof -
  obtain c k where c: "st_map (nt_store (rt_net (bn_rt b))) (al_rx (bn_loop b)) = Some c"
    "cv_queue (view c) = []" "cv_bound (view c) = Some k" "0 < k" "0 < cv_receivers (view c)"
    and f: "find_sender target (rt_net (bn_rt b)) = Inr (al_rx (bn_loop b), c)"
    using assms(2) by (auto simp: at_rest_def Let_def find_sender_Inr_iff)
  have "buffered (view c)" "\<not> cv_full (view c)" using c by (simp_all add: buffered_def cv_full_def)
  then show ?thesis using net_try_send_cases [OF assms(1) f, of env] c by auto
qed

lemma round_takes:
  assumes "chan api view" and "st_map (nt_store (sh_net w)) (al_rx lp) = Some c" and "cv_queue (view c) = [env]"
  shows "\<exists>c'. view c' = (view c)\<lparr>cv_queue := []\<rparr> \<and> loop_step api rapi ty handle False lp w
    = map_option (after_envelope True) (handle_envelope rapi ty handle env lp
        (w\<lparr>sh_net := put_channel (al_rx lp) c' (sh_net w)\<rparr>))"
  using chan.recv_timeout_takes [OF assms(1,3)] assms(2) by (auto simp: loop_step_def)

lemma tell_works:
  assumes ch: "chan api view" and rest: "at_rest view target b"
    and h: "sa_handle now now' order m (al_actor (bn_loop b)) = Ret (res, None, a')"
  shows "\<exists>b'. tell api rapi target (now, now', order) m b = Some b' \<and> at_rest view target b'
    \<and> al_actor (bn_loop b') = a'"
proof -
  let ?env = "Message (Any supervisor_message_type (SupMsg m))" and ?rx = "al_rx (bn_loop b)"
  obtain c' where sent: "net_try_send api target ?env (rt_net (bn_rt b)) = (Inr (), put_channel ?rx c' (rt_net (bn_rt b)))"
    and c': "cv_queue (view c') = [?env]" "\<exists>k. cv_bound (view c') = Some k \<and> 0 < k" "0 < cv_receivers (view c')"
    using rest_accepts [OF ch rest] by blast
  define s where "s = set_net (put_channel ?rx c' (rt_net (bn_rt b))) (bn_rt b)"
  have s: "rt_send api target (Any supervisor_message_type (SupMsg m)) (bn_rt b) = (Inr (), s)"
    using sent by (simp add: rt_send_def s_def)
  have "st_map (nt_store (sh_net (rt_shared s))) ?rx = Some c'" by (simp add: s_def set_net_def)
  from round_takes [OF ch this c'(1), of rapi supervisor_message_type "supervisor_handler rapi (\<lambda>_. (now, now', order))"]
  obtain c2 where c2: "view c2 = (view c')\<lparr>cv_queue := []\<rparr>"
    and step: "loop_step api rapi supervisor_message_type (supervisor_handler rapi (\<lambda>_. (now, now', order))) False
        (bn_loop b) (rt_shared s)
      = map_option (after_envelope True) (handle_envelope rapi supervisor_message_type
          (supervisor_handler rapi (\<lambda>_. (now, now', order))) ?env (bn_loop b)
          ((rt_shared s)\<lparr>sh_net := put_channel ?rx c2 (sh_net (rt_shared s))\<rparr>))"
    by blast
  let ?w = "drop_reply rapi (cx_reply_sender (al_ctx (bn_loop b)))
      ((rt_shared s)\<lparr>sh_net := put_channel ?rx c2 (sh_net (rt_shared s))\<rparr>)"
  let ?lp = "(bn_loop b)\<lparr>al_ctx := set_reply_sender None (al_ctx (bn_loop b)), al_actor := a',
      al_reductions := snd (reduction_tick (al_reductions (bn_loop b)))\<rparr>"
  have "sup_round api rapi (now, now', order) (b\<lparr>bn_rt := s\<rparr>)
      = Some (b\<lparr>bn_rt := s\<lparr>rt_shared := ?w\<rparr>, bn_loop := ?lp\<rparr>)"
    using h by (simp add: sup_round_def step handle_envelope_def run_handler_def supervisor_handler_def
        answer_def after_envelope_def)
  then have t: "tell api rapi target (now, now', order) m b
      = Some (b\<lparr>bn_rt := s\<lparr>rt_shared := ?w\<rparr>, bn_loop := ?lp\<rparr>)"
    by (simp add: tell_def s)
  have "sh_net ?w = put_channel ?rx c2 (put_channel ?rx c' (rt_net (bn_rt b)))"
    by (simp add: s_def set_net_def)
  moreover have "store_ok (sh_replies ?w)"
    using rest by (auto simp: at_rest_def Let_def drop_reply_def s_def set_net_def store_ok_upd split: option.splits)
  ultimately have "at_rest view target (b\<lparr>bn_rt := s\<lparr>rt_shared := ?w\<rparr>, bn_loop := ?lp\<rparr>)"
    using rest c' c2 by (auto simp: at_rest_def Let_def rt_net_def set_reply_sender_def)
  with t show ?thesis by auto
qed


lemma ask_works:
  assumes ch: "chan api view" and rch: "chan rapi rview" and rest: "at_rest view target b"
    and h: "sa_handle now now' order GetStatus (al_actor (bn_loop b)) = Ret (res, Some sts, a')"
  shows "\<exists>b'. ask api rapi target (now, now', order) b = Some (sts, b') \<and> at_rest view target b'
    \<and> al_actor (bn_loop b') = a'"
proof -
  let ?rx = "al_rx (bn_loop b)" and ?reps = "sh_replies (rt_shared (bn_rt b))"
  obtain r st where new: "store_new (ch_bounded rapi 1) ?reps = (r, st)" by fastforce
  have ok0: "store_ok ?reps" using rest by (simp add: at_rest_def Let_def)
  have st: "store_ok st" "st_map st r = Some (ch_bounded rapi 1)" "st_map ?reps r = None"
    "\<And>x. st_map ?reps x \<noteq> None \<Longrightarrow> st_map st x \<noteq> None"
    using store_ok_new [OF ok0, of "ch_bounded rapi 1"] store_new_fresh [OF ok0, of "ch_bounded rapi 1"]
      store_new_map [of "ch_bounded rapi 1" ?reps] new by (simp_all del: One_nat_def store_new_map)
  let ?env = "Request (rt_request_counter (bn_rt b)) (Any supervisor_message_type (SupMsg GetStatus)) r"
  let ?h = "supervisor_handler rapi (\<lambda>_. (now, now', order))"
  obtain c' where sent: "net_try_send api target ?env (rt_net (bn_rt b)) = (Inr (), put_channel ?rx c' (rt_net (bn_rt b)))"
    and c': "cv_queue (view c') = [?env]" "\<exists>k. cv_bound (view c') = Some k \<and> 0 < k" "0 < cv_receivers (view c')"
    using rest_accepts [OF ch rest] by blast
  define s where "s = set_replies st (set_net (put_channel ?rx c' (rt_net (bn_rt b)))
    ((bn_rt b)\<lparr>rt_request_counter := rt_request_counter (bn_rt b) + 1\<rparr>))"
  have req: "rt_request api rapi target (Any supervisor_message_type (SupMsg GetStatus)) (bn_rt b)
      = (Inr \<lparr>rq_id = rt_request_counter (bn_rt b), rq_receiver = r\<rparr>, s)"
    using sent new by (simp add: rt_request_def fetch_add1_def Let_def s_def)
  have sh: "rt_shared s = \<lparr>sh_net = put_channel ?rx c' (rt_net (bn_rt b)), sh_replies = st\<rparr>"
    by (simp add: s_def set_net_def set_replies_def)
  have "st_map (nt_store (sh_net (rt_shared s))) ?rx = Some c'" by (simp add: sh)
  from round_takes [OF ch this c'(1), of rapi supervisor_message_type ?h]
  obtain c2 where c2: "view c2 = (view c')\<lparr>cv_queue := []\<rparr>"
    and step: "loop_step api rapi supervisor_message_type ?h False (bn_loop b) (rt_shared s)
      = map_option (after_envelope True) (handle_envelope rapi supervisor_message_type ?h ?env (bn_loop b)
          ((rt_shared s)\<lparr>sh_net := put_channel ?rx c2 (sh_net (rt_shared s))\<rparr>))"
    by blast
  let ?w = "drop_reply rapi (cx_reply_sender (al_ctx (bn_loop b)))
      ((rt_shared s)\<lparr>sh_net := put_channel ?rx c2 (sh_net (rt_shared s))\<rparr>)"
  let ?cx = "set_reply_sender (Some r) (al_ctx (bn_loop b))"
  have old: "cx_reply_sender (al_ctx (bn_loop b)) \<noteq> Some r"
    using rest st(3) by (auto simp: at_rest_def Let_def)
  have "store_ok st" by (rule st(1))
  then have okw: "store_ok (sh_replies ?w)"
    by (auto simp: drop_reply_def sh store_ok_upd split: option.splits)
  have cell: "st_map (sh_replies ?w) r = Some (ch_bounded rapi 1)"
    using old st(2) by (auto simp: drop_reply_def sh split: option.splits)
  have fresh: "rview (ch_bounded rapi 1) = \<lparr>cv_queue = [], cv_bound = Some 1, cv_senders = 1, cv_receivers = 1\<rparr>"
    using chan.bounded_view [OF rch, of 1] by simp
  obtain d where reply: "reply rapi ?cx (Any statuses_type (Statuses sts)) (sh_replies ?w)
        = Some (Inr (), store_set r d (sh_replies ?w))"
    and d: "cv_queue (rview d) = [Any statuses_type (Statuses sts)]"
    using reply_first [OF rch _ cell, of ?cx "Any statuses_type (Statuses sts)"] fresh
    by (simp add: set_reply_sender_def del: One_nat_def) force
  obtain e where e: "request_recv_timeout rapi d = (Inr (Any statuses_type (Statuses sts)), e)"
    using reply_read(2) [OF rch d] by blast
  let ?w2 = "?w\<lparr>sh_replies := store_set r d (sh_replies ?w)\<rparr>"
  let ?lp = "(bn_loop b)\<lparr>al_ctx := ?cx, al_actor := a',
      al_reductions := snd (reduction_tick (al_reductions (bn_loop b)))\<rparr>"
  let ?b = "b\<lparr>bn_rt := s\<lparr>rt_shared := ?w2\<rparr>, bn_loop := ?lp\<rparr>"
  let ?b' = "?b\<lparr>bn_rt := set_replies (store_set r (ch_drop_receiver rapi e) (sh_replies ?w2)) (bn_rt ?b)\<rparr>"
  have "?h (SupMsg GetStatus) ?cx (al_actor (bn_loop b)) ?w = Some (Ret (res, a'), ?w2)"
    unfolding supervisor_handler_def using h reply by (simp add: answer_def)
  then have "handle_envelope rapi supervisor_message_type ?h ?env (bn_loop b)
      ((rt_shared s)\<lparr>sh_net := put_channel ?rx c2 (sh_net (rt_shared s))\<rparr>)
      = Some (LoopOn, (bn_loop b)\<lparr>al_ctx := ?cx, al_actor := a'\<rparr>, ?w2)"
    by (simp add: handle_envelope_def run_handler_def)
  then have "sup_round api rapi (now, now', order) (b\<lparr>bn_rt := s\<rparr>) = Some ?b"
    by (simp add: sup_round_def step after_envelope_def)
  then have "ask api rapi target (now, now', order) b = Some (sts, ?b')"
    by (simp add: ask_def req e)
  moreover have "at_rest view target ?b'"
  proof -
    have "sh_net ?w = put_channel ?rx c2 (put_channel ?rx c' (rt_net (bn_rt b)))" by (simp add: sh)
    moreover have "store_ok (store_set r (ch_drop_receiver rapi e) (store_set r d (sh_replies ?w)))"
      using okw cell by (simp add: store_ok_set)
    ultimately show ?thesis
      using rest c' c2 by (auto simp: at_rest_def Let_def rt_net_def set_reply_sender_def set_replies_def)
  qed
  ultimately show ?thesis by auto
qed

lemma sa_handle_replies:
  assumes "sa_handle now now' order m a = Ret (res, rep, a')"
  shows "rep = None \<longleftrightarrow> m \<noteq> GetStatus"
  using assms
  by (auto simp: sa_handle_def Let_def split: supervisor_message.splits rust.splits option.splits)

lemma conversation_runs:
  assumes "chan api view" and "chan rapi rview" and "at_rest view target b"
    and "replies_of cs (al_actor (bn_loop b)) = Some rs"
  shows "\<exists>b'. converse api rapi target cs b = Some (rs, b') \<and> at_rest view target b'"
  using assms(3,4)
proof (induction cs arbitrary: b rs)
  case Nil
  then show ?case by simp
next
  case (Cons x cs)
  obtain now now' order m where x: "x = ((now, now', order), m)" by (metis prod_cases3 surj_pair)
  obtain res rep a' where h: "sa_handle now now' order m (al_actor (bn_loop b)) = Ret (res, rep, a')"
    using Cons.prems(2) x by (auto split: rust.splits)
  show ?case
  proof (cases rep)
    case None
    then have m: "m \<noteq> GetStatus" using sa_handle_replies [OF h] by simp
    obtain b' where b': "tell api rapi target (now, now', order) m b = Some b'" "at_rest view target b'"
      "al_actor (bn_loop b') = a'"
      using tell_works [OF assms(1) Cons.prems(1)] h None by blast
    then show ?thesis using Cons.IH [of b' rs] Cons.prems(2) h None m x by simp
  next
    case (Some sts)
    then have m: "m = GetStatus" using sa_handle_replies [OF h] by simp
    obtain rs' where rs: "rs = sts # rs'" "replies_of cs a' = Some rs'"
      using Cons.prems(2) x h Some by auto
    obtain b' where b': "ask api rapi target (now, now', order) b = Some (sts, b')" "at_rest view target b'"
      "al_actor (bn_loop b') = a'"
      using ask_works [OF assms(1,2) Cons.prems(1)] h Some m by blast
    then show ?thesis using Cons.IH [of b' rs'] rs m x by auto
  qed
qed



text \<open>A supervisor that is told of a child and then asked.\<close>

definition demo_bench :: "(runact_value envelope chan_view, runact_value any chan_view,
    runact_value task chan_view, runact_value compute_result chan_view) bench" where
  "demo_bench = \<lparr>bn_rt = set_net \<lparr>nt_senders = [ActorId 1 \<mapsto> 0], nt_poisoned = False,
       nt_store = \<lparr>st_map = [0 \<mapsto> demo_mailbox []], st_next = 1\<rparr>\<rparr> demo_start,
     bn_loop = actor_start (supervisor_actor_new restart_strategy_default)\<rparr>"


end
