(* ===== verification/CrateTests.thy ===== *)
theory CrateTests
  imports Conversation
begin

text \<open>
  The tests of \<open>src/supervision/supervisor_actor.rs\<close> as conversations: each spawns a
  supervisor and some counters in a new runtime, sends crash reports, and asserts what the
  status requests read.
\<close>

section \<open>The set-up\<close>

fun spawn_counters ::
  "('c, runact_value envelope) chan_api \<Rightarrow> ('q, runact_value task) chan_api \<Rightarrow> nat
    \<Rightarrow> ('c, 'r, 'q, 'p, runact_value) runtime
    \<Rightarrow> (actor_id list \<times> ('c, 'r, 'q, 'p, runact_value) runtime) option" where
  "spawn_counters api qapi 0 s = Some ([], s)"
| "spawn_counters api qapi (Suc n) s =
     (case rt_spawn api qapi (0 :: u64) s of
        (Inr i, t, lp) \<Rightarrow> map_option (\<lambda>(ids, u). (i # ids, u)) (spawn_counters api qapi n t)
      | (Inl e, t, lp) \<Rightarrow> None)"

definition run_test ::
  "('c, runact_value envelope) chan_api \<Rightarrow> ('r, runact_value any) chan_api
    \<Rightarrow> ('q, runact_value task) chan_api \<Rightarrow> 'p itself \<Rightarrow> nat option \<Rightarrow> restart_strategy \<Rightarrow> nat
    \<Rightarrow> (actor_id list \<Rightarrow> (sa_readings \<times> supervisor_message) list) \<Rightarrow> child_status list list option" where
  "run_test api rapi qapi T par st n script =
     (case runtime_new qapi par 0 0 :: (('c, 'r, 'q, 'p, runact_value) runtime, runtime_error) result of
        Inl e \<Rightarrow> None
      | Inr s \<Rightarrow>
          (case rt_spawn api qapi (supervisor_actor_new st) s of
             (Inr sid, t, Some lp) \<Rightarrow>
               (case spawn_counters api qapi n t of
                  None \<Rightarrow> None
                | Some (ids, u) \<Rightarrow>
                    map_option fst (converse api rapi sid (script ids) \<lparr>bn_rt = u, bn_loop = lp\<rparr>))
           | _ \<Rightarrow> None))"

section \<open>The set-up works\<close>

definition ready :: "('c \<Rightarrow> runact_value envelope chan_view) \<Rightarrow> nat \<Rightarrow> ('c, 'r, 'q, 'p) bench \<Rightarrow> bool" where
  "ready view m b \<longleftrightarrow> at_rest view (ActorId 1) b \<and> net_ok (rt_net (bn_rt b))
     \<and> \<not> rt_actors_poisoned (bn_rt b) \<and> roster_ok (bn_rt b) \<and> length (rt_actors (bn_rt b)) = m"

lemma spawn_grows_roster:
  assumes "roster_ok s" and "Suc (length (rt_actors s)) < 2 ^ 64"
    and "rt_spawn api qapi a s = (Inr i, t, Some lp)"
  shows "length (rt_actors t) = Suc (length (rt_actors s))" "roster_ok t"
    "i = ActorId (of_nat (Suc (length (rt_actors s))))"
    "rt_actors_poisoned t = rt_actors_poisoned s"
proof -
  have e: "rt_actors t = rt_actors (enlist (next_actor_id s) None s)"
    and i: "i = next_actor_id s" and p: "rt_actors_poisoned t = rt_actors_poisoned s"
    using assms(3) by (auto simp: rt_spawn_def Let_def enlist_def set_net_def split: if_splits prod.splits)
  then show "length (rt_actors t) = Suc (length (rt_actors s))"
    using next_id_fresh [OF assms(1,2)] by (simp add: enlist_def update_fresh)
  show "roster_ok t" using enlist_ok [OF assms(1)] roster_frame [OF e] by blast
  show "i = ActorId (of_nat (Suc (length (rt_actors s))))" using i by (simp add: next_id_eq)
  show "rt_actors_poisoned t = rt_actors_poisoned s" by (rule p)
qed

lemma open_mailbox_keeps:
  assumes ch: "chan api view" and ok: "net_ok n" and op: "open_mailbox api k i n = (r, n')"
    and c: "st_map (nt_store n) q = Some c"
  shows "\<exists>c'. st_map (nt_store n') q = Some c' \<and> cv_queue (view c') = cv_queue (view c)
      \<and> cv_bound (view c') = cv_bound (view c) \<and> cv_receivers (view c') = cv_receivers (view c)"
    and "net_ok n'" and "j \<noteq> i \<Longrightarrow> nt_senders n' j = nt_senders n j"
    and "nt_poisoned n' = nt_poisoned n"
proof -
  have "q < st_next (nt_store n)" using ok c by (auto simp: net_ok_def store_ok_def)
  then have q: "q \<noteq> st_next (nt_store n)" by simp
  show "\<exists>c'. st_map (nt_store n') q = Some c' \<and> cv_queue (view c') = cv_queue (view c)
      \<and> cv_bound (view c') = cv_bound (view c) \<and> cv_receivers (view c') = cv_receivers (view c)"
    using op q c chan.drop_sender_view [OF ch, of c]
    by (auto simp: open_mailbox_def store_new_def Let_def split: option.splits)
  have d: "dom (st_map (nt_store n')) = insert (st_next (nt_store n)) (dom (st_map (nt_store n)))"
    "st_next (nt_store n') = Suc (st_next (nt_store n))" "nt_senders n' = (nt_senders n)(i \<mapsto> st_next (nt_store n))"
    using op by (auto simp: open_mailbox_def store_new_def Let_def split: option.splits if_splits)
  have "ran (nt_senders n') \<subseteq> insert (st_next (nt_store n)) (ran (nt_senders n))"
    by (auto simp: d(3) ran_def)
  then show "net_ok n'" using ok by (auto simp: net_ok_def store_ok_def d(1,2) less_Suc_eq)
  show "j \<noteq> i \<Longrightarrow> nt_senders n' j = nt_senders n j" "nt_poisoned n' = nt_poisoned n"
    using op by (auto simp: open_mailbox_def store_new_def Let_def split: option.splits)
qed


lemma spawn_parts:
  assumes "\<not> rt_actors_poisoned s" and "\<not> nt_poisoned (rt_net s)"
  obtains i t lp where "rt_spawn api qapi a s = (Inr i, t, Some lp)"
    "open_mailbox api (rt_mailbox_capacity s) i (rt_net s) = (al_rx lp, rt_net t)"
    "sh_replies (rt_shared t) = sh_replies (rt_shared s)" "al_actor lp = a"
    "cx_reply_sender (al_ctx lp) = None"
  using assms
  by (fastforce simp: rt_spawn_def Let_def enlist_def set_net_def rt_net_def actor_start_context_def
      context_new_def set_senders_def set_timer_handle_def set_compute_sender_def split: prod.splits)

lemma small_ids:
  assumes "0 < m" and "Suc m < 2 ^ 64"
  shows "ActorId (of_nat (Suc m)) \<noteq> ActorId 1"
proof -
  have "ActorId (of_nat (Suc 0)) \<in> set (actor_ids m)" using assms(1) unfolding actor_ids_def by force
  then show ?thesis using actor_ids_fresh [OF assms(2)] by force
qed

lemma ready_spawn:
  assumes ch: "chan api view" and r: "ready view m b" and m: "0 < m" "Suc m < 2 ^ 64"
  shows "\<exists>t lp. rt_spawn api qapi a (bn_rt b) = (Inr (ActorId (of_nat (Suc m))), t, Some lp)
    \<and> ready view (Suc m) (b\<lparr>bn_rt := t\<rparr>)"
proof -
  have rest: "at_rest view (ActorId 1) b" and ok: "net_ok (rt_net (bn_rt b))" "roster_ok (bn_rt b)"
    "\<not> rt_actors_poisoned (bn_rt b)" "length (rt_actors (bn_rt b)) = m"
    using r by (simp_all add: ready_def)
  then have np: "\<not> nt_poisoned (rt_net (bn_rt b))" by (simp add: at_rest_def Let_def)
  obtain i t lp where sp: "rt_spawn api qapi a (bn_rt b) = (Inr i, t, Some lp)"
    and op: "open_mailbox api (rt_mailbox_capacity (bn_rt b)) i (rt_net (bn_rt b)) = (al_rx lp, rt_net t)"
    and rep: "sh_replies (rt_shared t) = sh_replies (rt_shared (bn_rt b))"
    using spawn_parts [OF ok(3) np] by metis
  have "Suc (length (rt_actors (bn_rt b))) < 2 ^ 64" using m ok(4) by simp
  note g = spawn_grows_roster [OF ok(2) this sp]
  have i: "i = ActorId (of_nat (Suc m))" using g(3) ok(4) by simp
  then have ne: "ActorId 1 \<noteq> i" using small_ids [OF m] by metis
  obtain c k where c: "st_map (nt_store (rt_net (bn_rt b))) (al_rx (bn_loop b)) = Some c"
    "cv_queue (view c) = []" "cv_bound (view c) = Some k" "0 < k" "0 < cv_receivers (view c)"
    using rest by (auto simp: at_rest_def Let_def)
  note keep = open_mailbox_keeps [OF ch ok(1) op c(1)]
  have "at_rest view (ActorId 1) (b\<lparr>bn_rt := t\<rparr>)"
    using rest keep(1,4) keep(3) [OF ne] c(2-) by (auto simp: at_rest_def Let_def rep)
  then have "ready view (Suc m) (b\<lparr>bn_rt := t\<rparr>)"
    using keep(2) g ok(3,4) by (simp add: ready_def)
  then show ?thesis using sp i by blast
qed

lemma ready_counters:
  assumes "chan api view"
  shows "ready view m b \<Longrightarrow> 0 < m \<Longrightarrow> m + n < 2 ^ 64 \<Longrightarrow>
    \<exists>u. spawn_counters api qapi n (bn_rt b) = Some (map (\<lambda>k. ActorId (of_nat (Suc k))) [m..<m + n], u)
      \<and> ready view (m + n) (b\<lparr>bn_rt := u\<rparr>)"
proof (induction n arbitrary: m b)
  case 0
  then show ?case by simp
next
  case (Suc n)
  obtain t lp where t: "rt_spawn api qapi (0 :: u64) (bn_rt b) = (Inr (ActorId (of_nat (Suc m))), t, Some lp)"
    "ready view (Suc m) (b\<lparr>bn_rt := t\<rparr>)"
    using ready_spawn [OF assms Suc.prems(1,2), of qapi 0] Suc.prems(3) by auto
  obtain u where u: "spawn_counters api qapi n t = Some (map (\<lambda>k. ActorId (of_nat (Suc k))) [Suc m..<Suc m + n], u)"
    "ready view (Suc m + n) (b\<lparr>bn_rt := u\<rparr>)"
    using Suc.IH [OF t(2)] Suc.prems(3) by auto
  have "[m..<m + Suc n] = m # [Suc m..<Suc m + n]" by (simp add: upt_rec)
  then show ?case using t(1) u by (simp del: upt_Suc)
qed

lemma ready_supervisor:
  assumes ch: "chan api view"
    and new: "runtime_new qapi par 0 0 = Inr (s :: ('c, 'r, 'q, 'p, runact_value) runtime)"
  shows "\<exists>t lp. rt_spawn api qapi (supervisor_actor_new st) s = (Inr (ActorId 1), t, Some lp)
    \<and> ready view 1 \<lparr>bn_rt = t, bn_loop = lp\<rparr> \<and> al_actor lp = supervisor_actor_new st"
proof -
  have s: "rt_net s = net_empty" "sh_replies (rt_shared s) = store_empty" "rt_actors s = []"
    "\<not> rt_actors_poisoned s" "rt_mailbox_capacity s = 1000"
    using new by (auto simp: runtime_new_def with_config_def runtime_config_default_def rt_net_def split: sum.splits)
  have ros: "roster_ok s" "Suc (length (rt_actors s)) < 2 ^ 64" by (simp_all add: roster_ok_def s actor_ids_def)
  have np: "\<not> nt_poisoned (rt_net s)" by (simp add: s net_empty_def)
  obtain i t lp where sp: "rt_spawn api qapi (supervisor_actor_new st) s = (Inr i, t, Some lp)"
    and op: "open_mailbox api (rt_mailbox_capacity s) i (rt_net s) = (al_rx lp, rt_net t)"
    and rep: "sh_replies (rt_shared t) = sh_replies (rt_shared s)" "al_actor lp = supervisor_actor_new st"
      "cx_reply_sender (al_ctx lp) = None"
    using spawn_parts [OF s(4) np] by metis
  note g = spawn_grows_roster [OF ros sp]
  have v: "view (ch_clone_sender api (ch_bounded api 1000))
      = \<lparr>cv_queue = [], cv_bound = Some 1000, cv_senders = 2, cv_receivers = 1\<rparr>"
    using chan.clone_sender_view [OF ch] chan.bounded_view [OF ch, of 1000] by simp
  have n: "rt_net t = \<lparr>nt_senders = [i \<mapsto> 0], nt_poisoned = False,
      nt_store = \<lparr>st_map = [0 \<mapsto> ch_clone_sender api (ch_bounded api 1000)], st_next = 1\<rparr>\<rparr>" "al_rx lp = 0"
    using op by (auto simp: s net_empty_def open_mailbox_def store_new_def store_empty_def)
  have "ready view 1 \<lparr>bn_rt = t, bn_loop = lp\<rparr>"
    using g s rep
    by (auto simp: ready_def at_rest_def n v net_ok_def store_ok_def store_empty_def)
  then show ?thesis using sp g(3) rep(2) s(3) by simp
qed

lemma run_test_replies:
  assumes ch: "chan api view" and rch: "chan rapi rview" and n: "Suc n < 2 ^ 64"
    and rs: "replies_of (script (map (\<lambda>k. ActorId (of_nat (Suc k))) [1..<Suc n])) (supervisor_actor_new st) = Some rs"
  shows "run_test api rapi qapi T par st n script = Some rs"
proof -
  obtain s :: "('a, 'b, 'c, 'd, runact_value) runtime" where new: "runtime_new qapi par 0 0 = Inr s"
    by (simp add: runtime_new_def with_config_def compute_new_def Let_def)
  obtain t lp where sp: "rt_spawn api qapi (supervisor_actor_new st) s = (Inr (ActorId 1), t, Some lp)"
    and rd: "ready view 1 \<lparr>bn_rt = t, bn_loop = lp\<rparr>" and a: "al_actor lp = supervisor_actor_new st"
    using ready_supervisor [OF ch new] by blast
  have "0 < (1::nat)" "1 + n < 2 ^ 64" using n by simp_all
  then obtain u where u: "spawn_counters api qapi n t = Some (map (\<lambda>k. ActorId (of_nat (Suc k))) [1..<Suc n], u)"
    "ready view (1 + n) \<lparr>bn_rt = u, bn_loop = lp\<rparr>"
    using ready_counters [OF ch rd, of n qapi] by auto
  have "at_rest view (ActorId 1) \<lparr>bn_rt = u, bn_loop = lp\<rparr>" using u(2) by (simp add: ready_def)
  then obtain b' where "converse api rapi (ActorId 1) (script (map (\<lambda>k. ActorId (of_nat (Suc k))) [1..<Suc n]))
      \<lparr>bn_rt = u, bn_loop = lp\<rparr> = Some (rs, b')"
    using conversation_runs [OF ch rch _ , of "ActorId 1" "\<lparr>bn_rt = u, bn_loop = lp\<rparr>"] rs a by fastforce
  then show ?thesis by (simp add: run_test_def new sp u(1) del: upt_Suc)
qed


section \<open>The five tests\<close>

text \<open>
  \<open>rd k\<close> is what the environment supplies to the \<open>k\<close>-th call of the handler. Each test is
  its script and its assertions; \<open>format!\<close> of a loop index is written out.
\<close>

definition no_backoff :: "usize \<Rightarrow> restart_strategy" where
  "no_backoff limit = OneForOne limit (from_secs 60) (from_millis 0)"

definition script_tracks_children ::
  "(nat \<Rightarrow> sa_readings) \<Rightarrow> actor_id list \<Rightarrow> (sa_readings \<times> supervisor_message) list" where
  "script_tracks_children rd ids =
     [(rd 0, ChildStarted (ids ! 0) ''test_counter''), (rd 1, GetStatus)]"

definition asserts_tracks_children :: "child_status list list \<Rightarrow> bool" where
  "asserts_tracks_children replies =
     (case replies of [statuses] \<Rightarrow>
        length statuses = 1 \<and> cs_name (statuses ! 0) = ''test_counter''
        \<and> cs_restart_count (statuses ! 0) = 0 \<and> cs_alive (statuses ! 0)
      | _ \<Rightarrow> False)"

definition script_handles_crash ::
  "(nat \<Rightarrow> sa_readings) \<Rightarrow> actor_id list \<Rightarrow> (sa_readings \<times> supervisor_message) list" where
  "script_handles_crash rd ids =
     [(rd 0, ChildStarted (ids ! 0) ''crasher''),
      (rd 1, ChildCrashed (ids ! 0) ''test crash''), (rd 2, GetStatus)]"

definition asserts_handles_crash :: "child_status list list \<Rightarrow> bool" where
  "asserts_handles_crash replies =
     (case replies of [statuses] \<Rightarrow>
        length statuses = 1 \<and> cs_restart_count (statuses ! 0) = 1 \<and> cs_alive (statuses ! 0)
      | _ \<Rightarrow> False)"

definition script_max_restarts ::
  "(nat \<Rightarrow> sa_readings) \<Rightarrow> actor_id list \<Rightarrow> (sa_readings \<times> supervisor_message) list" where
  "script_max_restarts rd ids =
     [(rd 0, ChildStarted (ids ! 0) ''persistent_crasher''),
      (rd 1, ChildCrashed (ids ! 0) ''crash 0''), (rd 2, ChildCrashed (ids ! 0) ''crash 1''),
      (rd 3, ChildCrashed (ids ! 0) ''crash 2''), (rd 4, GetStatus)]"

definition asserts_max_restarts :: "child_status list list \<Rightarrow> bool" where
  "asserts_max_restarts replies =
     (case replies of [statuses] \<Rightarrow>
        statuses \<noteq> [] \<and> cs_restart_count (statuses ! 0) = 3 \<and> \<not> cs_alive (statuses ! 0)
      | _ \<Rightarrow> False)"

definition script_multiple_children ::
  "(nat \<Rightarrow> sa_readings) \<Rightarrow> actor_id list \<Rightarrow> (sa_readings \<times> supervisor_message) list" where
  "script_multiple_children rd ids =
     [(rd 0, ChildStarted (ids ! 0) ''child1''), (rd 1, ChildStarted (ids ! 1) ''child2''),
      (rd 2, ChildCrashed (ids ! 0) ''child1 crash''), (rd 3, ChildCrashed (ids ! 0) ''child1 crash''),
      (rd 4, ChildCrashed (ids ! 0) ''child1 crash''), (rd 5, ChildCrashed (ids ! 1) ''child2 crash''),
      (rd 6, GetStatus)]"

definition asserts_multiple_children :: "child_status list list \<Rightarrow> bool" where
  "asserts_multiple_children replies =
     (case replies of [statuses] \<Rightarrow>
        length statuses = 2
        \<and> (case (List.find (\<lambda>s. cs_name s = ''child1'') statuses, List.find (\<lambda>s. cs_name s = ''child2'') statuses) of
             (Some child1, Some child2) \<Rightarrow>
               cs_restart_count child1 = 3 \<and> \<not> cs_alive child1 \<and> cs_restart_count child2 = 1 \<and> cs_alive child2
           | _ \<Rightarrow> False)
      | _ \<Rightarrow> False)"

definition script_backoff ::
  "(nat \<Rightarrow> sa_readings) \<Rightarrow> actor_id list \<Rightarrow> (sa_readings \<times> supervisor_message) list" where
  "script_backoff rd ids =
     [(rd 0, ChildStarted (ids ! 0) ''backoff_child''),
      (rd 1, ChildCrashed (ids ! 0) ''first crash''), (rd 2, GetStatus),
      (rd 3, ChildCrashed (ids ! 0) ''second crash right after''), (rd 4, GetStatus),
      (rd 5, ChildCrashed (ids ! 0) ''third crash after backoff''), (rd 6, GetStatus)]"

definition asserts_backoff :: "child_status list list \<Rightarrow> bool" where
  "asserts_backoff replies =
     (case replies of [first, second, third] \<Rightarrow>
        first \<noteq> [] \<and> cs_alive (first ! 0) \<and> second \<noteq> [] \<and> \<not> cs_alive (second ! 0)
        \<and> third \<noteq> [] \<and> cs_alive (third ! 0)
      | _ \<Rightarrow> False)"

text \<open>What the actor alone answers to the scripts.\<close>

lemma no_backoff_delay: "backoff_delay \<lparr>sa_children = m, sa_strategy = no_backoff k\<rparr> n = Ret 0"
  by (simp add: backoff_delay_eq sa_base_backoff_def no_backoff_def time_defs)

lemma limits: "sa_max_restarts \<lparr>sa_children = m, sa_strategy = no_backoff k\<rparr> = k"
  "sa_max_restarts \<lparr>sa_children = m, sa_strategy = restart_strategy_default\<rparr> = 5"
  by (simp_all add: sa_max_restarts_def no_backoff_def restart_strategy_default_def)

lemma crash_step:
  assumes "backoff_delay \<lparr>sa_children = m, sa_strategy = st\<rparr> (ce_restart_count e + 1) = Ret d" and "m c = Some e"
  shows "sa_handle now now' order (ChildCrashed c why) \<lparr>sa_children = m, sa_strategy = st\<rparr>
    = Ret (Inr (), None, \<lparr>sa_children = m(c \<mapsto> crashed_entry
        (sa_max_restarts \<lparr>sa_children = m, sa_strategy = st\<rparr>) d (ce_restart_count e + 1) now now' e), sa_strategy = st\<rparr>)"
  using assms by (simp add: sa_handle_def Let_def)

lemma replies_started:
  "replies_of ((x, ChildStarted c n) # cs) \<lparr>sa_children = m, sa_strategy = st\<rparr>
    = replies_of cs \<lparr>sa_children = m(c \<mapsto> \<lparr>ce_name = n, ce_restart_count = 0, ce_alive = True,
        ce_last_restart_at = None\<rparr>), sa_strategy = st\<rparr>"
  by (cases x) (simp add: sa_handle_def)

lemma replies_crashed:
  assumes "m c = Some e" and "backoff_delay \<lparr>sa_children = m, sa_strategy = st\<rparr> (ce_restart_count e + 1) = Ret d"
  shows "replies_of ((x, ChildCrashed c why) # cs) \<lparr>sa_children = m, sa_strategy = st\<rparr>
    = replies_of cs \<lparr>sa_children = m(c \<mapsto> crashed_entry (sa_max_restarts \<lparr>sa_children = m, sa_strategy = st\<rparr>) d
        (ce_restart_count e + 1) (fst x) (fst (snd x)) e), sa_strategy = st\<rparr>"
  by (cases x) (simp add: crash_step [OF assms(2,1)])

lemma replies_status:
  "replies_of ((x, GetStatus) # cs) a
    = map_option ((#) (map (\<lambda>c. status_of c (the (sa_children a c))) (snd (snd x)))) (replies_of cs a)"
  by (cases x) (simp add: sa_handle_def)

lemmas replay = replies_started replies_crashed replies_status no_backoff_delay limits crashed_entry_def
  Let_def supervisor_actor_new_def

lemma max_restarts_replies:
  assumes "snd (snd (rd 4)) = [c]"
  shows "\<exists>rs. replies_of (script_max_restarts rd [c]) (supervisor_actor_new (no_backoff 2)) = Some rs
    \<and> asserts_max_restarts rs"
  using assms
  by (simp add: script_max_restarts_def replay elapsed_def asserts_max_restarts_def status_of_def)


lemma tracks_children_replies:
  assumes "snd (snd (rd 1)) = [c]"
  shows "\<exists>rs. replies_of (script_tracks_children rd [c]) (supervisor_actor_new restart_strategy_default) = Some rs
    \<and> asserts_tracks_children rs"
  using assms by (simp add: script_tracks_children_def replay asserts_tracks_children_def status_of_def)

lemma handles_crash_replies:
  assumes "snd (snd (rd 2)) = [c]"
  shows "\<exists>rs. replies_of (script_handles_crash rd [c]) (supervisor_actor_new (no_backoff 3)) = Some rs
    \<and> asserts_handles_crash rs"
  using assms by (simp add: script_handles_crash_def replay asserts_handles_crash_def status_of_def)

lemma two_orders:
  assumes "set xs = {c, d}" and "distinct xs" and "c \<noteq> d"
  shows "xs = [c, d] \<or> xs = [d, c]"
proof -
  have "length xs = 2" using assms distinct_card [OF assms(2)] by simp
  then obtain x y where "xs = [x, y]" by (auto simp: length_Suc_conv numeral_2_eq_2)
  then show ?thesis using assms by (auto simp: doubleton_eq_iff)
qed

lemma multiple_children_replies:
  assumes "snd (snd (rd 6)) = [ActorId 2, ActorId 3] \<or> snd (snd (rd 6)) = [ActorId 3, ActorId 2]"
  shows "\<exists>rs. replies_of (script_multiple_children rd [ActorId 2, ActorId 3]) (supervisor_actor_new (no_backoff 2)) = Some rs
    \<and> asserts_multiple_children rs"
  using assms
  by (elim disjE)
     (simp_all add: script_multiple_children_def replay elapsed_def asserts_multiple_children_def status_of_def)

definition slow_restarts :: restart_strategy where
  "slow_restarts = OneForOne 5 (from_secs 60) (from_millis 200)"

lemma slow_delays:
  "backoff_delay \<lparr>sa_children = m, sa_strategy = slow_restarts\<rparr> 1 = Ret (from_millis 200)"
  "backoff_delay \<lparr>sa_children = m, sa_strategy = slow_restarts\<rparr> 2 = Ret (from_millis 400)"
  "backoff_delay \<lparr>sa_children = m, sa_strategy = slow_restarts\<rparr> 3 = Ret (from_millis 800)"
  "sa_max_restarts \<lparr>sa_children = m, sa_strategy = slow_restarts\<rparr> = 5"
  by (simp_all add: backoff_delay_eq sa_base_backoff_def sa_max_restarts_def slow_restarts_def backoff_shift_def time_defs)

lemma backoff_replies:
  assumes "\<forall>k \<in> {2, 4, 6}. snd (snd (rd k)) = [c]"
    and "fst (rd 3) - fst (snd (rd 1)) < from_millis 400" and "from_millis 800 \<le> fst (rd 5) - fst (snd (rd 1))"
  shows "\<exists>rs. replies_of (script_backoff rd [c]) (supervisor_actor_new slow_restarts) = Some rs
    \<and> asserts_backoff rs"
  using assms
  by (simp add: script_backoff_def replay slow_delays elapsed_def asserts_backoff_def status_of_def)


definition calm_clock :: "actor_id list \<Rightarrow> nat \<Rightarrow> sa_readings" where
  "calm_clock ids k = (k * 300000000, k * 300000000, ids)"



section \<open>The example program\<close>

text \<open>
  \<open>examples/counter.rs\<close>: its actor, and \<open>main\<close> with what every \<open>expect\<close> lets through:
  the two ids and the number of actors listed. The example sends no message.
\<close>

datatype counter_message = CtIncrement | CtDecrement | CtGetValue

definition saturating_pred :: "u64 \<Rightarrow> u64" where
  "saturating_pred n = (if n = 0 then 0 else n - 1)"

definition counter_actor_handle :: "counter_message \<Rightarrow> u64 \<Rightarrow> (unit, actor_error) result \<times> u64" where
  "counter_actor_handle m n =
     (case m of
        CtIncrement \<Rightarrow> (Inr (), n + 1)
      | CtDecrement \<Rightarrow> (Inr (), saturating_pred n)
      | CtGetValue \<Rightarrow> (Inr (), n))"

definition example_main ::
  "('c, 'v envelope) chan_api \<Rightarrow> ('q, 'v task) chan_api \<Rightarrow> nat option \<Rightarrow> instant \<Rightarrow> instant list
    \<Rightarrow> ((actor_id \<times> actor_info) list \<Rightarrow> (actor_id \<times> actor_info) list)
    \<Rightarrow> ('c, 'r, 'q, 'p, 'v) runtime itself \<Rightarrow> (actor_id \<times> actor_id \<times> nat) option" where
  "example_main api qapi par now readings order T =
     (case runtime_new qapi par 0 0 :: (('c, 'r, 'q, 'p, 'v) runtime, runtime_error) result of
        Inl e \<Rightarrow> None
      | Inr s \<Rightarrow>
          (case rt_spawn api qapi (0 :: u64) s of
             (Inl e, s1, lp1) \<Rightarrow> None
           | (Inr actor1, s1, lp1) \<Rightarrow>
               (case rt_spawn api qapi (10 :: u64) s1 of
                  (Inl e, s2, lp2) \<Rightarrow> None
                | (Inr actor2, s2, lp2) \<Rightarrow>
                    (case list_actors (order (rt_actors s2)) s2 of
                       Inl e \<Rightarrow> None
                     | Inr actors \<Rightarrow>
                         (case rt_shutdown api qapi now readings s2 of
                            Some (Ret (Inr u), s3) \<Rightarrow> Some (actor1, actor2, length actors)
                          | _ \<Rightarrow> None)))))"

lemma shutdown_succeeds:
  assumes "\<not> nt_poisoned (rt_net s)" and "\<not> rt_actors_poisoned s"
    and "now + rt_shutdown_timeout s \<le> instant_max"
    and "wait_deadline (now + rt_shutdown_timeout s) readings = Some k"
  shows "\<exists>t. rt_shutdown api qapi now readings s = Some (Ret (Inr ()), t)"
  using assms by (simp add: rt_shutdown_def shutdown_services_def instant_add_def Let_def rt_net_def)

lemma spawn_keeps:
  assumes "rt_spawn api qapi a s = (Inr i, t, Some lp)"
  shows "nt_poisoned (rt_net t) = nt_poisoned (rt_net s)" "rt_shutdown_timeout t = rt_shutdown_timeout s"
  using assms
  by (auto simp: rt_spawn_def Let_def enlist_def set_net_def rt_net_def open_mailbox_def
      split: if_splits prod.splits)

text \<open>
  The example runs to its end when the clock reaches the five seconds its shutdown waits;
  its counters count down to zero and no further.
\<close>

theorem example_runs:
  assumes "\<And>al. mset (order al) = mset al" and "now + from_secs 5 \<le> instant_max"
    and "wait_deadline (now + from_secs 5) readings = Some k"
  shows "example_main api qapi par now readings order (T :: ('c, 'r, 'q, 'p, 'v) runtime itself)
      = Some (ActorId 1, ActorId 2, 2)"
    and "snd (counter_actor_handle CtDecrement (snd (counter_actor_handle CtIncrement n)))
      = (if n = - 1 then 0 else n)"
proof -
  have len: "length (order al) = length al" for al using assms(1) by (metis size_mset)
  obtain s :: "('c, 'r, 'q, 'p, 'v) runtime" where new: "runtime_new qapi par 0 0 = Inr s"
    by (simp add: runtime_new_def with_config_def compute_new_def Let_def)
  have s: "rt_net s = net_empty" "rt_actors s = []" "\<not> rt_actors_poisoned s"
    "rt_shutdown_timeout s = from_secs 5"
    using new by (auto simp: runtime_new_def with_config_def runtime_config_default_def rt_net_def split: sum.splits)
  have ros: "roster_ok s" "Suc (length (rt_actors s)) < 2 ^ 64" by (simp_all add: roster_ok_def s actor_ids_def)
  have np: "\<not> nt_poisoned (rt_net s)" by (simp add: s net_empty_def)
  obtain i1 s1 lp1 where sp1: "rt_spawn api qapi (0 :: u64) s = (Inr i1, s1, Some lp1)"
    using spawn_parts [OF s(3) np] by metis
  note g1 = spawn_grows_roster [OF ros sp1] and k1 = spawn_keeps [OF sp1]
  have p1: "\<not> rt_actors_poisoned s1" "\<not> nt_poisoned (rt_net s1)" using g1(4) k1(1) s(3) np by simp_all
  obtain i2 s2 lp2 where sp2: "rt_spawn api qapi (10 :: u64) s1 = (Inr i2, s2, Some lp2)"
    using spawn_parts [OF p1] by metis
  have "Suc (length (rt_actors s1)) < 2 ^ 64" using g1(1) s(2) by simp
  note g2 = spawn_grows_roster [OF g1(2) this sp2] and k2 = spawn_keeps [OF sp2]
  have ids: "i1 = ActorId 1" "i2 = ActorId 2" "length (rt_actors s2) = 2"
    using g1(1,3) g2(1,3) s(2) by simp_all
  have p2: "\<not> rt_actors_poisoned s2" "\<not> nt_poisoned (rt_net s2)" "rt_shutdown_timeout s2 = from_secs 5"
    using g2(4) k2 k1(2) p1 s(4) by simp_all
  obtain s3 where "rt_shutdown api qapi now readings s2 = Some (Ret (Inr ()), s3)"
    using shutdown_succeeds [OF p2(2,1)] assms(2,3) p2(3) by metis
  then show "example_main api qapi par now readings order T = Some (ActorId 1, ActorId 2, 2)"
    using p2(1) by (simp add: example_main_def new sp1 sp2 list_actors_def ids len)
  show "snd (counter_actor_handle CtDecrement (snd (counter_actor_handle CtIncrement n))) = (if n = - 1 then 0 else n)"
    by (auto simp: counter_actor_handle_def saturating_pred_def eq_neg_iff_add_eq_0)
qed

end
