(* ===== verification/TimerProps.thy ===== *)
theory TimerProps
  imports TimerService
begin

text \<open>
  What the timer thread keeps true and the properties that follow: when timers are
  delivered, what cancelling achieves, and what a delay that overflows does.
\<close>

section \<open>What the thread keeps true\<close>

text \<open>
  The due times a timer was delivered for, in order, and the timers that are still
  scheduled: those in the list and those in the thread's hands, a delivered periodic
  one with the due time it is about to be pushed back with.
\<close>

definition fires :: "timer_id \<Rightarrow> (timer_id \<times> instant \<times> instant) list \<Rightarrow> instant list" where
  "fires i log = map (\<lambda>x. fst (snd x)) (filter (\<lambda>x. fst x = i) log)"

fun hands :: "'v tphase \<Rightarrow> 'v timer_entry list" where
  "hands (TkDeliver es) = es"
| "hands (TkRearm e es) =
     (case te_interval e of
        None \<Rightarrow> es
      | Some d \<Rightarrow> e\<lparr>te_scheduled_at := te_scheduled_at e + d\<rparr> # es)"
| "hands _ = []"

definition pending :: "('c, 'v) tsys \<Rightarrow> 'v timer_entry list" where
  "pending s = tm_entries (ty_timers s) @ hands (ty_phase s)"

definition progression :: "nat \<Rightarrow> nat \<Rightarrow> nat \<Rightarrow> nat list" where
  "progression start d n = map (\<lambda>k. start + k * d) [0..<n]"

definition entry_ok :: "(timer_id \<times> instant \<times> instant) list \<Rightarrow> 'v timer_entry \<Rightarrow> bool" where
  "entry_ok log e \<longleftrightarrow>
     (case te_interval e of
        None \<Rightarrow> fires (te_id e) log = [] \<and> (\<exists>m. te_factory e = OneShot (Some m))
      | Some d \<Rightarrow> (\<exists>m. te_factory e = Repeating m) \<and>
          (\<exists>start n. fires (te_id e) log = progression start d n
            \<and> te_scheduled_at e = start + n * d))"

definition known_ids :: "nat \<Rightarrow> timer_id set" where
  "known_ids n = (\<lambda>k. TimerId (of_nat k)) ` {..<n}"

definition ids_ok :: "('c, 'v) tsys \<Rightarrow> bool" where
  "ids_ok s \<longleftrightarrow> tm_counter (ty_timers s) = of_nat (ty_created s)
     \<and> te_id ` set (pending s) \<subseteq> known_ids (ty_created s)
     \<and> fst ` set (ty_fired s) \<subseteq> known_ids (ty_created s)
     \<and> ty_one_shots s \<subseteq> known_ids (ty_created s)
     \<and> distinct (map te_id (pending s))"

definition entries_ok :: "('c, 'v) tsys \<Rightarrow> bool" where
  "entries_ok s \<longleftrightarrow>
     (\<forall>e \<in> set (pending s). entry_ok (ty_fired s) e
        \<and> (te_id e \<in> ty_one_shots s \<longrightarrow> te_interval e = None))
     \<and> (\<forall>i. \<exists>start d n. fires i (ty_fired s) = progression start d n)
     \<and> (\<forall>i \<in> ty_one_shots s. length (fires i (ty_fired s)) \<le> 1)"

lemma progression_snoc: "progression start d n @ [start + n * d] = progression start d (Suc n)"
  by (simp add: progression_def)

lemma progression_one: "[t] = progression t 0 1" and progression_nil: "[] = progression t d 0"
  by (simp_all add: progression_def)

lemma fires_snoc: "fires i (log @ [(j, due, now)]) = (if j = i then fires i log @ [due] else fires i log)"
  by (simp add: fires_def)

lemma fires_unknown: "i \<notin> fst ` set log \<Longrightarrow> fires i log = []"
  by (force simp: fires_def filter_empty_conv)

lemma known_ids_Suc: "known_ids (Suc n) = insert (TimerId (of_nat n)) (known_ids n)"
  by (simp add: known_ids_def lessThan_Suc)

lemma fresh_id: "n < 2 ^ 64 \<Longrightarrow> TimerId (of_nat n) \<notin> known_ids n"
  using of_nat_u64_inj [of n] less_trans by (auto simp: known_ids_def)

text \<open>The deliveries of one timer, seen from the entry that was delivered.\<close>

lemma entry_ok_fired:
  assumes "entry_ok log e" and "te_interval e = Some d"
  shows "entry_ok (log @ [(te_id e, te_scheduled_at e, now)])
    (e\<lparr>te_scheduled_at := te_scheduled_at e + d\<rparr>)"
proof -
  obtain start n m where "te_factory e = Repeating m"
    and "fires (te_id e) log = progression start d n" and at: "te_scheduled_at e = start + n * d"
    using assms by (auto simp: entry_ok_def)
  then have "fires (te_id e) (log @ [(te_id e, te_scheduled_at e, now)])
      = progression start d (Suc n)"
    by (simp add: fires_snoc progression_snoc [symmetric])
  moreover have "te_scheduled_at e + d = start + Suc n * d" using at by simp
  ultimately have "\<exists>start n. fires (te_id e) (log @ [(te_id e, te_scheduled_at e, now)])
      = progression start d n \<and> te_scheduled_at e + d = start + n * d"
    by blast
  then show ?thesis
    using assms(2) \<open>te_factory e = Repeating m\<close> by (simp add: entry_ok_def)
qed

lemma entry_ok_other:
  "entry_ok log e \<Longrightarrow> te_id e \<noteq> i \<Longrightarrow> entry_ok (log @ [(i, due, now)]) e"
proof -
  assume ok: "entry_ok log e" and "te_id e \<noteq> i"
  then have "fires (te_id e) (log @ [(i, due, now)]) = fires (te_id e) log"
    by (auto simp: fires_snoc)
  with ok show ?thesis unfolding entry_ok_def by (simp only:)
qed

lemma deliver_entry:
  assumes "deliver api e n = Some (Ret e', n')"
  shows "te_id e' = te_id e \<and> te_interval e' = te_interval e
    \<and> te_scheduled_at e' = te_scheduled_at e \<and> (\<forall>m. te_factory e = Repeating m \<longrightarrow> e' = e)"
  using assms
  by (cases "te_factory e" rule: call_factory.cases)
     (auto simp: deliver_def split: if_splits sum.splits option.splits)

definition ty_good :: "('c, 'v) tsys \<Rightarrow> bool" where
  "ty_good s \<longleftrightarrow> (ty_created s \<le> 2 ^ 64 \<longrightarrow> ids_ok s \<and> entries_ok s)"

text \<open>Steps that add nothing: timers move between the list and the hands, or vanish.\<close>

lemma ty_good_shrink:
  assumes "ty_good s" and sub: "mset (pending t) \<subseteq># mset (pending s)"
    and "ty_fired t = ty_fired s" "ty_created t = ty_created s"
    and "tm_counter (ty_timers t) = tm_counter (ty_timers s)"
    and "ty_one_shots t = ty_one_shots s"
  shows "ty_good t"
proof -
  have "set (pending t) \<subseteq> set (pending s)" using sub by (rule set_mset_mono [of "mset _" "mset _", simplified])
  moreover have "distinct (map te_id (pending t))" if "distinct (map te_id (pending s))"
    using sub that by (rule submset_distinct_map)
  ultimately show ?thesis
    using assms by (auto simp: ty_good_def ids_ok_def entries_ok_def)
qed

lemma collect_due_mset: "collect_due now 0 ts [] = (due, rest) \<Longrightarrow> mset (rest @ due) = mset ts"
  by (auto simp: collect_due_filter)

lemma filter_submset: "mset (filter P xs @ ys) \<subseteq># mset (xs @ ys)"
  by (simp add: multiset_filter_subset)

lemma rearm_cases:
  "rearm e d ts = (Ret u, ts') \<Longrightarrow> ts' = ts\<lparr>tm_entries := tm_entries ts @
     [e\<lparr>te_scheduled_at := te_scheduled_at e + d\<rparr>]\<rparr> \<and> te_scheduled_at e + d \<le> instant_max"
  "rearm e d ts = (Panicked, ts') \<Longrightarrow>
     tm_entries ts' = tm_entries ts \<and> tm_counter ts' = tm_counter ts"
  by (auto simp: rearm_def split: if_splits rust.splits)

lemma cancel_cases:
  "cancel_timer i ts = (r, ts') \<Longrightarrow> tm_counter ts' = tm_counter ts \<and> tm_poisoned ts' = tm_poisoned ts
     \<and> tm_entries ts' =
        (if tm_poisoned ts then tm_entries ts else filter (\<lambda>t. te_id t \<noteq> i) (tm_entries ts))"
  by (auto simp: cancel_timer_def split: if_splits)

lemma add_timer_cases:
  assumes "add_timer now d a f iv ts = (r, ts')"
  shows "tm_counter ts' = tm_counter ts + 1 \<and>
    (tm_entries ts' = tm_entries ts
     \<or> tm_entries ts' = tm_entries ts @ [\<lparr>te_id = TimerId (tm_counter ts), te_actor_id = a,
          te_scheduled_at = now + d, te_factory = f, te_interval = iv\<rparr>])"
  using assms
  by (auto simp: add_timer_def timer_id_new_def fetch_add1_def Let_def split: if_splits rust.splits)

text \<open>A scheduling call: the new entry, if one is pushed, has a fresh id.\<close>

lemma ty_good_add:
  assumes good: "ty_good s" and add: "add_timer now d a f iv (ty_timers s) = (r, ts)"
    and new: "iv = None \<and> (\<exists>m. f = OneShot (Some m)) \<and> shots = insert (TimerId (tm_counter (ty_timers s))) (ty_one_shots s)
      \<or> iv \<noteq> None \<and> (\<exists>m. f = Repeating m) \<and> shots = ty_one_shots s"
  shows "ty_good (s\<lparr>ty_timers := ts, ty_created := Suc (ty_created s), ty_one_shots := shots\<rparr>)"
  unfolding ty_good_def
proof
  let ?t = "s\<lparr>ty_timers := ts, ty_created := Suc (ty_created s), ty_one_shots := shots\<rparr>"
  let ?i = "TimerId (of_nat (ty_created s))"
  let ?e = "\<lparr>te_id = ?i, te_actor_id = a, te_scheduled_at = now + d, te_factory = f, te_interval = iv\<rparr>"
  assume "ty_created ?t \<le> 2 ^ 64"
  then have lt: "ty_created s < 2 ^ 64" by simp
  with good have ids: "ids_ok s" and ents: "entries_ok s" by (simp_all add: ty_good_def)
  have fresh: "?i \<notin> known_ids (ty_created s)" using lt by (rule fresh_id)
  have counter: "tm_counter (ty_timers s) = of_nat (ty_created s)" using ids by (simp add: ids_ok_def)
  have counter': "tm_counter ts = tm_counter (ty_timers s) + 1"
    using add_timer_cases [OF add] by blast
  have unfired: "fires ?i (ty_fired s) = []"
    using ids fresh by (intro fires_unknown) (auto simp: ids_ok_def)
  have shots: "shots = insert ?i (ty_one_shots s) \<and> iv = None \<or> shots = ty_one_shots s \<and> iv \<noteq> None"
    using new counter by auto
  have unshot: "?i \<notin> ty_one_shots s" and unpending: "?i \<notin> te_id ` set (pending s)"
    using ids fresh by (auto simp: ids_ok_def)
  have "\<exists>start n. progression start dd n = [] \<and> now + d = start + n * dd" for dd
    by (intro exI [of _ "now + d"] exI [of _ 0]) (simp add: progression_def)
  then have e_ok: "entry_ok (ty_fired s) ?e"
    using new unfired by (auto simp: entry_ok_def) metis+
  have shots_log: "\<forall>i\<in>shots. length (fires i (ty_fired s)) \<le> 1"
    using shots ents unfired by (auto simp: entries_ok_def)
  have old: "\<forall>e\<in>set (pending s). entry_ok (ty_fired s) e \<and> (te_id e \<in> shots \<longrightarrow> te_interval e = None)"
  proof
    fix e assume e: "e \<in> set (pending s)"
    then have "te_id e \<noteq> ?i" using unpending by (metis image_eqI)
    then show "entry_ok (ty_fired s) e \<and> (te_id e \<in> shots \<longrightarrow> te_interval e = None)"
      using e ents shots by (auto simp: entries_ok_def)
  qed
  have pend: "pending ?t = pending s \<or> (\<exists>xs ys. pending s = xs @ ys \<and> pending ?t = xs @ ?e # ys)"
    using add_timer_cases [OF add] counter
    by (elim conjE disjE)
       (simp_all add: pending_def exI [of _ "tm_entries (ty_timers s)"] exI [of _ "hands (ty_phase s)"])
  have known: "known_ids (ty_created ?t) = insert ?i (known_ids (ty_created s))"
    by (simp add: known_ids_Suc)
  have set_pend: "set (pending ?t) \<subseteq> insert ?e (set (pending s))" using pend by auto
  have "distinct (map te_id (pending s))" using ids by (simp add: ids_ok_def)
  then have dist: "distinct (map te_id (pending ?t))"
    using pend unpending by (elim disjE exE conjE) (simp_all only:, auto)
  have old_known: "te_id ` set (pending s) \<subseteq> known_ids (ty_created s)"
    and log_known: "fst ` set (ty_fired s) \<subseteq> known_ids (ty_created s)"
    and shots_known: "ty_one_shots s \<subseteq> known_ids (ty_created s)"
    using ids by (simp_all add: ids_ok_def)
  have "te_id ` set (pending ?t) \<subseteq> insert ?i (te_id ` set (pending s))"
    using image_mono [OF set_pend, of te_id] by simp
  then have pend_known: "te_id ` set (pending ?t) \<subseteq> known_ids (ty_created ?t)"
    unfolding known using old_known by blast
  have "shots \<subseteq> known_ids (ty_created ?t)" unfolding known using shots shots_known by blast
  then have "ids_ok ?t"
    using pend_known dist log_known counter counter' unfolding ids_ok_def known
    by (auto simp: add.commute)
  moreover have "\<forall>e\<in>set (pending ?t). entry_ok (ty_fired s) e
      \<and> (te_id e \<in> shots \<longrightarrow> te_interval e = None)"
  proof
    fix x assume "x \<in> set (pending ?t)"
    then have "x = ?e \<or> x \<in> set (pending s)" using set_pend by blast
    then show "entry_ok (ty_fired s) x \<and> (te_id x \<in> shots \<longrightarrow> te_interval x = None)"
      using old e_ok shots unshot by auto
  qed
  with shots_log ents have "entries_ok ?t" by (simp add: entries_ok_def)
  ultimately show "ids_ok ?t \<and> entries_ok ?t" ..
qed

text \<open>A delivery: the entry leaves the list of due timers, or waits to be pushed back.\<close>

lemma ty_good_fire:
  assumes good: "ty_good s" and phase: "ty_phase s = TkDeliver (e # es)"
    and sent: "deliver api e (ty_net s) = Some (Ret e', n)"
  shows "ty_good (s\<lparr>ty_net := n, ty_phase := TkRearm e' es,
    ty_fired := ty_fired s @ [(te_id e, te_scheduled_at e, ty_now s)]\<rparr>)" (is "ty_good ?t")
  unfolding ty_good_def
proof
  let ?log = "ty_fired s @ [(te_id e, te_scheduled_at e, ty_now s)]"
  assume "ty_created ?t \<le> 2 ^ 64"
  with good have ids: "ids_ok s" and ents: "entries_ok s" by (simp_all add: ty_good_def)
  have pend: "pending s = tm_entries (ty_timers s) @ e # es" by (simp add: pending_def phase)
  have e_ok: "entry_ok (ty_fired s) e" and e_kind: "te_id e \<in> ty_one_shots s \<longrightarrow> te_interval e = None"
    using ents by (auto simp: entries_ok_def pend)
  have others: "\<forall>x\<in>set (tm_entries (ty_timers s) @ es). te_id x \<noteq> te_id e"
    using ids by (auto simp: ids_ok_def pend image_iff)
  have others_ok: "\<forall>x\<in>set (tm_entries (ty_timers s) @ es). entry_ok ?log x
      \<and> (te_id x \<in> ty_one_shots s \<longrightarrow> te_interval x = None)"
    using ents others by (auto simp: entries_ok_def pend intro!: entry_ok_other)
  have e': "te_id e' = te_id e" "te_interval e' = te_interval e" "te_scheduled_at e' = te_scheduled_at e"
    using deliver_entry [OF sent] by blast+
  have "mset (map te_id (pending ?t)) \<subseteq># mset (map te_id (pending s))"
    by (cases "te_interval e") (simp_all add: pending_def phase e')
  then have sub: "set (map te_id (pending ?t)) \<subseteq> set (map te_id (pending s))"
    and dist: "distinct (map te_id (pending s)) \<Longrightarrow> distinct (map te_id (pending ?t))"
    by (rule submset_set, rule submset_distinct)
  have "te_id e \<in> known_ids (ty_created s)" using ids by (auto simp: ids_ok_def pend)
  moreover have "te_id ` set (pending ?t) \<subseteq> te_id ` set (pending s)"
    using sub by (simp only: set_map)
  ultimately have "ids_ok ?t"
    using ids dist unfolding ids_ok_def distinct_map [symmetric]
    by (simp only: tsys.simps) (simp add: subset_trans)
  moreover have "entries_ok ?t"
  proof (cases "te_interval e")
    case None
    then have none: "fires (te_id e) (ty_fired s) = []" using e_ok by (simp add: entry_ok_def)
    have "pending ?t = tm_entries (ty_timers s) @ es" by (simp add: pending_def e' None)
    moreover have "\<exists>start d n. fires i ?log = progression start d n" for i
      using ents none progression_one [of "te_scheduled_at e"]
      by (cases "i = te_id e") (auto simp: fires_snoc entries_ok_def)
    moreover have "\<forall>i\<in>ty_one_shots s. length (fires i ?log) \<le> 1"
      using ents none by (auto simp: fires_snoc entries_ok_def)
    ultimately show ?thesis using others_ok by (simp add: entries_ok_def)
  next
    case (Some d)
    then obtain m start k where "te_factory e = Repeating m"
      and "fires (te_id e) (ty_fired s) = progression start d k" "te_scheduled_at e = start + k * d"
      using e_ok by (auto simp: entry_ok_def)
    then have more: "fires (te_id e) ?log = progression start d (Suc k)"
      by (simp add: fires_snoc progression_snoc [symmetric])
    have same: "e' = e"
      using deliver_entry [OF sent] \<open>te_factory e = Repeating m\<close> by blast
    have "pending ?t = tm_entries (ty_timers s) @ e\<lparr>te_scheduled_at := te_scheduled_at e + d\<rparr> # es"
      by (simp add: pending_def same Some)
    moreover have "entry_ok ?log (e\<lparr>te_scheduled_at := te_scheduled_at e + d\<rparr>)"
      using e_ok Some by (rule entry_ok_fired)
    moreover have "\<exists>start d n. fires i ?log = progression start d n" for i
      using ents more by (cases "i = te_id e") (auto simp: fires_snoc entries_ok_def)
    moreover have "\<forall>i\<in>ty_one_shots s. length (fires i ?log) \<le> 1"
      using ents Some e_kind by (auto simp: fires_snoc entries_ok_def)
    ultimately show ?thesis using others_ok Some e_kind by (simp add: entries_ok_def)
  qed
  ultimately show "ids_ok ?t \<and> entries_ok ?t" ..
qed

lemma ty_good_step:
  assumes good: "ty_good s" and step: "ty_step api s t"
  shows "ty_good t"
  using step
proof cases
  case (scan now due rest)
  then have "mset (pending t) = mset (pending s)"
    using collect_due_mset [OF scan(4)] by (auto simp: pending_def)
  then show ?thesis
    using good by (rule_tac ty_good_shrink [of s]) (simp_all add: scan)
next
  case (fire e es e' n)
  then show ?thesis using ty_good_fire [OF good] by simp
next
  case (again e es d ts)
  then show ?thesis
    using good rearm_cases(1) [OF again(4)]
    by (rule_tac ty_good_shrink [of s]) (simp_all add: pending_def)
next
  case (again_dead e es d ts)
  then show ?thesis
    using good rearm_cases(2) [OF again_dead(4)]
    by (rule_tac ty_good_shrink [of s]) (simp_all add: pending_def)
next
  case (one_shot now d a m r ts)
  then show ?thesis
    using ty_good_add [OF good one_shot(2) [unfolded handle_schedule_timer_def]] by simp
next
  case (periodic now d a m r ts)
  have "ty_good (s\<lparr>ty_timers := ts, ty_created := Suc (ty_created s), ty_one_shots := ty_one_shots s\<rparr>)"
    by (rule ty_good_add [OF good periodic(2) [unfolded handle_schedule_interval_def]]) simp
  then show ?thesis by (simp add: periodic)
next
  case (cancel i r ts)
  then show ?thesis
    using good cancel_cases [OF cancel(2)]
    by (rule_tac ty_good_shrink [of s])
       (auto simp: pending_def multiset_filter_subset)
qed (use good in \<open>rule ty_good_shrink [of s]; simp add: pending_def\<close>)+

lemma ty_good_init: "ty_init s \<Longrightarrow> ty_good s"
  by (simp add: ty_init_def ty_good_def ids_ok_def entries_ok_def pending_def timers_new_def fires_def
      progression_def)

interpretation timer_thread: invariant_of ty_init "ty_step api" ty_good
  by unfold_locales (auto intro: ty_good_init ty_good_step)

text \<open>A due timer was found by a scan that read the clock after its due time.\<close>

fun on_time :: "instant \<Rightarrow> 'v tphase \<Rightarrow> bool" where
  "on_time now (TkDeliver es) = list_all (entry_due now) es"
| "on_time now (TkRearm e es) = list_all (entry_due now) es"
| "on_time _ _ = True"

definition ty_prompt :: "('c, 'v) tsys \<Rightarrow> bool" where
  "ty_prompt s \<longleftrightarrow> on_time (ty_now s) (ty_phase s)
     \<and> list_all (\<lambda>(i, due, now). due \<le> now) (ty_fired s)"

lemma ty_prompt_step: "ty_prompt s \<Longrightarrow> ty_step api s t \<Longrightarrow> ty_prompt t"
  by (erule ty_stepE)
     (auto simp: ty_prompt_def collect_due_filter entry_due_def list_all_iff)

lemma ty_prompt_init: "ty_init s \<Longrightarrow> ty_prompt s"
  by (auto simp: ty_init_def ty_prompt_def)

interpretation timer_clock: invariant_of ty_init "ty_step api" ty_prompt
  by unfold_locales (auto intro: ty_prompt_init ty_prompt_step)

section \<open>Deliveries\<close>

text \<open>
  C23: no timer is delivered before its time, whatever the threads do: every delivery
  happens in a round whose clock reading is at or after the due time it answers.
\<close>

theorem timers_never_early:
  assumes "reachable ty_init (ty_step api) s" and "(i, due, now) \<in> set (ty_fired s)"
  shows "due \<le> now"
  using timer_clock.always [OF assms(1)] assms(2) by (auto simp: ty_prompt_def list_all_iff)


section \<open>Cancelling\<close>

text \<open>A timer that is known but not scheduled stays so: nothing brings an old id back.\<close>

definition retired :: "timer_id \<Rightarrow> instant list \<Rightarrow> ('c, 'v) tsys \<Rightarrow> bool" where
  "retired i ticks s \<longleftrightarrow> ty_good s \<and> (ty_created s \<le> 2 ^ 64 \<longrightarrow>
     i \<in> known_ids (ty_created s) \<and> i \<notin> te_id ` set (pending s) \<and> fires i (ty_fired s) = ticks)"

lemma retired_kept:
  assumes "retired i ticks s" and "ty_good t"
    and "ty_created t = ty_created s" "te_id ` set (pending t) \<subseteq> te_id ` set (pending s)"
    and "fires i (ty_fired t) = fires i (ty_fired s)"
  shows "retired i ticks t"
  using assms by (auto simp: retired_def)

lemma retired_add:
  assumes r: "retired i ticks s" and good: "ty_good t"
    and t: "ty_created t = Suc (ty_created s)" "ty_fired t = ty_fired s" "ty_phase t = ty_phase s"
    and add: "add_timer now d a f iv (ty_timers s) = (x, ty_timers t)"
  shows "retired i ticks t"
  unfolding retired_def
proof (intro conjI impI good)
  assume le: "ty_created t \<le> 2 ^ 64"
  then have lt: "ty_created s < 2 ^ 64" using t by simp
  then have known: "i \<in> known_ids (ty_created s)" and out: "i \<notin> te_id ` set (pending s)"
    and ticks: "fires i (ty_fired s) = ticks" and ids: "ids_ok s"
    using r by (simp_all add: retired_def ty_good_def)
  have "i \<noteq> TimerId (tm_counter (ty_timers s))"
    using known fresh_id [OF lt] ids by (auto simp: ids_ok_def)
  then show "i \<notin> te_id ` set (pending t)"
    using out add_timer_cases [OF add] by (auto simp: pending_def t)
  show "i \<in> known_ids (ty_created t)" using known by (simp add: t known_ids_Suc)
  show "fires i (ty_fired t) = ticks" using ticks by (simp add: t)
qed

lemma retired_step:
  assumes r: "retired i ticks s" and step: "ty_step api s t"
  shows "retired i ticks t"
proof -
  have good: "ty_good t" using r step by (auto simp: retired_def intro: ty_good_step)
  show ?thesis
    using step
  proof cases
    case (scan now due rest)
    then have "set (pending t) = set (pending s)"
      by (auto simp: pending_def collect_due_filter)
    then show ?thesis using good scan(1) by (auto intro: retired_kept [OF r])
  next
    case (fire e es e' n)
    have keep: "te_id e' = te_id e" using deliver_entry [OF fire(3)] by blast
    show ?thesis
      unfolding retired_def
    proof (intro conjI impI good)
      assume "ty_created t \<le> 2 ^ 64"
      then have le: "ty_created s \<le> 2 ^ 64" by (simp add: fire(1))
      have "te_id e \<noteq> i" using r le by (auto simp: retired_def pending_def fire(2))
      then show "i \<in> known_ids (ty_created t)" "i \<notin> te_id ` set (pending t)"
        "fires i (ty_fired t) = ticks"
        using r le keep
        by (auto simp: retired_def pending_def fire(1,2) fires_snoc split: option.splits)
    qed
  next
    case (again e es d ts)
    then show ?thesis
      using good rearm_cases(1) [OF again(4)]
      by (intro retired_kept [OF r]) (auto simp: pending_def)
  next
    case (again_dead e es d ts)
    then show ?thesis
      using good rearm_cases(2) [OF again_dead(4)]
      by (intro retired_kept [OF r]) (auto simp: pending_def)
  next
    case (one_shot now d a m r ts)
    then show ?thesis
      using retired_add [OF \<open>retired i ticks s\<close> good] by (simp add: handle_schedule_timer_def)
  next
    case (periodic now d a m r ts)
    then show ?thesis
      using retired_add [OF \<open>retired i ticks s\<close> good] by (simp add: handle_schedule_interval_def)
  next
    case (cancel i' r ts)
    then show ?thesis
      using good cancel_cases [OF cancel(2)]
      by (intro retired_kept [OF \<open>retired i ticks s\<close>]) (auto simp: pending_def)
  qed (use good in \<open>rule retired_kept [OF r]; auto simp: pending_def\<close>)+
qed

interpretation retirement: invariant_of "retired i ticks" "ty_step api" "retired i ticks"
  by unfold_locales (auto intro: retired_step)

text \<open>
  C24: cancelling a timer that is not in the hands of the delivery thread is final: the
  call removes it, and no run of the threads delivers it again.
\<close>

theorem cancelled_timer_is_silent:
  assumes "reachable ty_init (ty_step api) s" and "\<not> tm_poisoned (ty_timers s)"
    and "i \<in> known_ids (ty_created s)" and "i \<notin> te_id ` set (hands (ty_phase s))"
    and "ty_created s \<le> 2 ^ 64"
  shows "\<exists>ts. cancel_timer i (ty_timers s) = (Ret (), ts) \<and> ty_step api s (s\<lparr>ty_timers := ts\<rparr>)
    \<and> {t. (ty_step api)\<^sup>*\<^sup>* (s\<lparr>ty_timers := ts\<rparr>) t \<and> ty_created t \<le> 2 ^ 64}
      \<subseteq> {t. fires i (ty_fired t) = fires i (ty_fired s)}"
proof -
  define ts where "ts = snd (cancel_timer i (ty_timers s))"
  then have c: "cancel_timer i (ty_timers s) = (Ret (), ts)"
    and entries: "tm_entries ts = filter (\<lambda>t. te_id t \<noteq> i) (tm_entries (ty_timers s))"
    using assms(2) by (simp_all add: cancel_timer_def)
  let ?s = "s\<lparr>ty_timers := ts\<rparr>"
  have step: "ty_step api s ?s" using c by (rule ty_step.cancel)
  have "ty_good ?s" using timer_thread.always [OF assms(1)] step by (rule ty_good_step)
  then have r: "retired i (fires i (ty_fired s)) ?s"
    using assms(3,4) entries by (auto simp: retired_def pending_def)
  have "fires i (ty_fired t) = fires i (ty_fired s)"
    if "(ty_step api)\<^sup>*\<^sup>* ?s t" "ty_created t \<le> 2 ^ 64" for t
    using retirement.kept_by_run [OF that(1) r] that(2) by (simp add: retired_def)
  then show ?thesis using c step by blast
qed

text \<open>
  A cancellation that arrives while the thread is delivering the timer is lost: the
  call returns normally, and the thread's next step puts the timer back into the list
  with the next due time.
\<close>

theorem cancel_lost_while_firing:
  assumes "ty_phase s = TkRearm e es" and "te_interval e = Some d"
    and "te_scheduled_at e + d \<le> instant_max" and "\<not> tm_poisoned (ty_timers s)"
  shows "\<exists>s' t ts. cancel_timer (te_id e) (ty_timers s) = (Ret (), ts)
    \<and> ty_step api s s' \<and> ty_timers s' = ts \<and> ty_step api s' t
    \<and> last (tm_entries (ty_timers t)) = e\<lparr>te_scheduled_at := te_scheduled_at e + d\<rparr>"
proof -
  define ts where "ts = snd (cancel_timer (te_id e) (ty_timers s))"
  then have c: "cancel_timer (te_id e) (ty_timers s) = (Ret (), ts)" and "\<not> tm_poisoned ts"
    using assms(4) by (simp_all add: cancel_timer_def)
  then obtain ts' where r: "rearm e d ts = (Ret (), ts')"
    and l: "last (tm_entries ts') = e\<lparr>te_scheduled_at := te_scheduled_at e + d\<rparr>"
    using assms(3) by (simp add: rearm_def instant_add_fits)
  let ?s = "s\<lparr>ty_timers := ts\<rparr>"
  have "ty_step api s ?s" using c by (rule ty_step.cancel)
  moreover have "ty_step api ?s (?s\<lparr>ty_timers := ts', ty_phase := TkDeliver es\<rparr>)"
    by (rule ty_step.again) (use assms r in simp_all)
  ultimately show ?thesis
    using c l by (intro exI [of _ ?s] exI [of _ "?s\<lparr>ty_timers := ts', ty_phase := TkDeliver es\<rparr>"]) simp
qed

section \<open>Poisoning\<close>

text \<open>A poisoned list of timers, with nothing in the thread's hands, delivers nothing.\<close>

definition deaf :: "(timer_id \<times> instant \<times> instant) list \<Rightarrow> ('c, 'v) tsys \<Rightarrow> bool" where
  "deaf log s \<longleftrightarrow> tm_poisoned (ty_timers s) \<and> ty_fired s = log
     \<and> (case ty_phase s of TkDeliver es \<Rightarrow> False | TkRearm e es \<Rightarrow> False | _ \<Rightarrow> True)"

lemma poisoned_add:
  "tm_poisoned ts \<Longrightarrow> add_timer now d a f iv ts = (Panicked, ts\<lparr>tm_counter := tm_counter ts + 1\<rparr>)"
  by (simp add: add_timer_def timer_id_new_def fetch_add1_def)

lemma poisoned_ops:
  assumes "tm_poisoned ts"
  shows "fst (handle_schedule_timer now d a m ts) = Panicked"
    and "fst (handle_schedule_interval now d a m ts) = Panicked"
    and "fst (cancel_timer i ts) = Panicked"
  using assms
  by (simp_all add: handle_schedule_timer_def handle_schedule_interval_def cancel_timer_def
      poisoned_add)

lemma deaf_step: "deaf log s \<Longrightarrow> ty_step api s t \<Longrightarrow> deaf log t"
  by (erule ty_stepE)
     (auto simp: deaf_def handle_schedule_timer_def handle_schedule_interval_def cancel_timer_def
        poisoned_add)

interpretation deafness: invariant_of "deaf log" "ty_step api" "deaf log"
  by unfold_locales (auto intro: deaf_step)


section \<open>A concrete run\<close>

text \<open>An actor with an empty mailbox and a timer that is due every 10 ns from 10 on.\<close>

definition clock_net :: "(bool envelope chan_view) net" where
  "clock_net = \<lparr>nt_senders = [ActorId 1 \<mapsto> 0], nt_poisoned = False,
     nt_store = \<lparr>st_map = [0 \<mapsto> ch_bounded ref_api 8], st_next = 1\<rparr>\<rparr>"

definition tick :: "bool timer_entry" where
  "tick = \<lparr>te_id = TimerId 0, te_actor_id = ActorId 1, te_scheduled_at = 10,
     te_factory = Repeating (Any 0 True), te_interval = Some 10\<rparr>"

definition clock0 :: "(bool envelope chan_view, bool) tsys" where
  "clock0 = \<lparr>ty_timers = timers_new, ty_net = clock_net, ty_phase = TkTop, ty_stop = False,
     ty_fired = [], ty_now = 0, ty_created = 0, ty_one_shots = {}\<rparr>"

definition clock1 :: "(bool envelope chan_view, bool) tsys" where
  "clock1 = clock0\<lparr>ty_timers := \<lparr>tm_entries = [tick], tm_poisoned = False, tm_counter = 1\<rparr>,
     ty_created := 1\<rparr>"

definition clock2 :: "(bool envelope chan_view, bool) tsys" where
  "clock2 = clock1\<lparr>ty_timers := \<lparr>tm_entries = [], tm_poisoned = False, tm_counter = 1\<rparr>,
     ty_net := put_channel 0 (ref_push (Message (Any 0 True)) (ch_bounded ref_api 8)) clock_net,
     ty_phase := TkRearm tick [], ty_now := 25, ty_fired := [(TimerId 0, 10, 25)]\<rparr>"

lemma clock1_reachable: "reachable ty_init (ty_step ref_api) clock1"
proof (rule reach_step)
  show "reachable ty_init (ty_step ref_api) clock0"
    by (rule reach_init) (simp add: ty_init_def clock0_def)
  have "handle_schedule_interval 0 10 (ActorId 1) (Any 0 True) (ty_timers clock0)
      = (Ret (TimerId 0), \<lparr>tm_entries = [tick], tm_poisoned = False, tm_counter = 1\<rparr>)"
    by (simp add: handle_schedule_interval_def add_timer_def timer_id_new_def fetch_add1_def
        clock0_def timers_new_def instant_add_def time_defs tick_def)
  from ty_step.periodic [OF this, of ref_api] show "ty_step ref_api clock0 clock1"
    by (simp add: clock1_def) (simp add: clock0_def)
qed

lemma clock2_reachable: "reachable ty_init (ty_step ref_api) clock2"
proof -
  let ?scan = "clock1\<lparr>ty_phase := TkScan 25\<rparr>"
  let ?due = "?scan\<lparr>ty_phase := TkDeliver [tick], ty_now := 25,
    ty_timers := (ty_timers ?scan)\<lparr>tm_entries := []\<rparr>\<rparr>"
  have "ty_step ref_api clock1 ?scan"
    by (rule ty_step.read_clock) (simp_all add: clock1_def clock0_def)
  moreover have "ty_step ref_api ?scan ?due"
    by (rule ty_step.scan)
       (simp_all add: clock1_def clock0_def collect_due_filter entry_due_def tick_def)
  moreover have sent: "deliver ref_api tick (ty_net ?due) = Some (Ret tick,
      put_channel 0 (ref_push (Message (Any 0 True)) (ch_bounded ref_api 8)) clock_net)"
    by (simp add: deliver_def tick_def clock1_def clock0_def clock_net_def find_sender_def net_send_def
        ref_defs)
  have "ty_step ref_api ?due clock2"
  proof -
    have "clock2 = ?due\<lparr>ty_net := put_channel 0 (ref_push (Message (Any 0 True)) (ch_bounded ref_api 8)) clock_net,
        ty_phase := TkRearm tick [], ty_fired := ty_fired ?due @ [(te_id tick, te_scheduled_at tick, ty_now ?due)]\<rparr>"
      by (simp add: clock2_def clock1_def clock0_def tick_def)
    then show ?thesis using ty_step.fire [of ?due tick "[]", OF _ sent] by simp
  qed
  ultimately show ?thesis using clock1_reachable by (metis reach_step)
qed

theorem timers_never_early_witness:
  "(TimerId 0, 10, 25) \<in> set (ty_fired clock2) \<and> (10::nat) \<le> 25"
proof -
  have m: "(TimerId 0, 10, 25) \<in> set (ty_fired clock2)" by (simp add: clock2_def)
  from timers_never_early [OF clock2_reachable m] m show ?thesis by simp
qed


theorem cancelled_timer_is_silent_witness:
  "\<exists>ts. cancel_timer (TimerId 0) (ty_timers clock1) = (Ret (), ts) \<and> tm_entries ts = []
    \<and> {t. (ty_step ref_api)\<^sup>*\<^sup>* (clock1\<lparr>ty_timers := ts\<rparr>) t \<and> ty_created t \<le> 2 ^ 64}
      \<subseteq> {t. fires (TimerId 0) (ty_fired t) = []}"
proof -
  have "\<not> tm_poisoned (ty_timers clock1)" "TimerId 0 \<in> known_ids (ty_created clock1)"
    "TimerId 0 \<notin> te_id ` set (hands (ty_phase clock1))" "ty_created clock1 \<le> 2 ^ 64"
    by (simp_all add: clock1_def clock0_def known_ids_def)
  from cancelled_timer_is_silent [OF clock1_reachable this]
  show ?thesis by (auto simp: clock1_def clock0_def fires_def tick_def cancel_timer_def)
qed

theorem cancel_lost_while_firing_witness:
  "reachable ty_init (ty_step ref_api) clock2 \<and>
    (\<exists>s' t ts. cancel_timer (TimerId 0) (ty_timers clock2) = (Ret (), ts)
      \<and> ty_step ref_api clock2 s' \<and> ty_timers s' = ts \<and> ty_step ref_api s' t
      \<and> last (tm_entries (ty_timers t)) = tick\<lparr>te_scheduled_at := 20\<rparr>)"
proof -
  have "ty_phase clock2 = TkRearm tick []" "te_interval tick = Some 10"
    "te_scheduled_at tick + 10 \<le> instant_max" "\<not> tm_poisoned (ty_timers clock2)"
    by (simp_all add: clock2_def tick_def time_defs)
  from cancel_lost_while_firing [OF this, of ref_api] clock2_reachable
  show ?thesis by (simp add: tick_def)
qed



end
