(* ===== verification/ComputeProps.thy ===== *)
theory ComputeProps
  imports ComputeInvariants
begin

text \<open>
  The properties of the compute pool, and a concrete run of it that shows each of them
  at work.
\<close>

section \<open>Properties\<close>

text \<open>
  C5: every task the pool accepted is in exactly one place, whatever the threads do: it
  waits in the channel, is held by one worker, has had one result sent, or was dropped
  with the channel. So no task is lost or reported twice.
\<close>

theorem compute_pool_conserves_tasks:
  assumes "chan qapi qview" and "chan rapi rview"
    and "reachable (cp_init qapi) (cp_step qapi qview rapi) s"
  shows "mset (cp_submitted s) = mset (cv_queue (qview (cp_queue s))) + mset (in_hand s)
      + mset (map fst (cp_sent s)) + mset (cp_dropped s)
    \<and> distinct (map tk_result_sender (cp_submitted s)) \<and> distinct (map fst (cp_sent s))"
proof -
  have ok: "books_ok qview s" "results_ok qview rview s"
    using pool_always [OF assms] by (simp_all add: pool_ok_def)
  then have m: "mset (cp_submitted s) = mset (cv_queue (qview (cp_queue s))) + mset (in_hand s)
      + mset (map fst (cp_sent s)) + mset (cp_dropped s)"
    and d: "distinct (map tk_result_sender (cp_submitted s))"
    by (simp_all add: books_ok_def results_ok_def)
  have "mset (map fst (cp_sent s)) \<subseteq># mset (cp_submitted s)" by (simp add: m)
  moreover have "distinct (cp_submitted s)" using d by (simp add: distinct_map)
  ultimately have "distinct (map fst (cp_sent s))" by (rule submset_distinct)
  with m d show ?thesis by blast
qed

text \<open>
  C25: a result tells the truth about its job: it is the value the job returned or the
  message it panicked with, after the job really ran, or a cancellation somebody asked
  for. No worker ever reports a timeout or a scheduler error.
\<close>

theorem compute_results_honest:
  assumes "reachable (cp_init qapi) (cp_step qapi qview rapi) s" and "(k, r) \<in> set (cp_sent s)"
  shows "(r = ResCancelled \<and> tk_cancelled k \<in> cp_raised s
      \<or> r = outcome_result (tk_job k) \<and> k \<in> set (cp_started s))
    \<and> r \<noteq> ResTimeout \<and> (\<nexists>e. r = ResErr e)"
proof -
  have "told k r s" using pool_honest.always [OF assms(1)] assms(2) by (force simp: honest_def)
  then show ?thesis by (auto simp: told_def outcome_result_def split: outcome.splits)
qed

text \<open>
  C15: cancelling is effective until the worker has looked at the flag for the last time:
  from then on the only report the task can get is the cancellation, and if its job was
  not called yet it never is.
\<close>

theorem compute_cancel_effective:
  assumes "tk_cancelled k = hd_cancelled h" and "k \<notin> fst ` set (cp_sent s)"
    and "{r. CpSend k r \<in> set (cp_workers s)} = {}"
  shows "\<exists>t. cp_step qapi qview rapi s t \<and> handle_is_cancelled h (cp_raised t)
    \<and> {u. (cp_step qapi qview rapi)\<^sup>*\<^sup>* t u}
      \<subseteq> {u. {r. (k, r) \<in> set (cp_sent u)} \<subseteq> {ResCancelled}
          \<and> (k \<in> set (cp_started u) \<longrightarrow> k \<in> set (cp_started s))}"
proof -
  let ?t = "s\<lparr>cp_raised := handle_cancel h (cp_raised s)\<rparr>"
  have "doomed k (k \<in> set (cp_started s)) ?t"
    using assms by (force simp: doomed_def handle_cancel_def split: cphase.splits)
  then have "doomed k (k \<in> set (cp_started s)) u" if "(cp_step qapi qview rapi)\<^sup>*\<^sup>* ?t u" for u
    using doom.kept_by_run [OF that] by simp
  then have "{u. (cp_step qapi qview rapi)\<^sup>*\<^sup>* ?t u}
      \<subseteq> {u. {r. (k, r) \<in> set (cp_sent u)} \<subseteq> {ResCancelled}
          \<and> (k \<in> set (cp_started u) \<longrightarrow> k \<in> set (cp_started s))}"
    by (force simp: doomed_def)
  moreover have "cp_step qapi qview rapi s ?t" by (rule cp_step.cancel)
  ultimately show ?thesis
    by (intro exI [of _ ?t]) (simp add: handle_is_cancelled_def handle_cancel_def)
qed

fun steps_left :: "'v cphase \<Rightarrow> nat" where
  "steps_left CpRecv = 7"
| "steps_left (CpGot t) = 6"
| "steps_left (CpRunning t) = 5"
| "steps_left (CpRan t) = 4"
| "steps_left (CpSend t r) = 3"
| "steps_left (CpDrop t) = 2"
| "steps_left CpTop = 1"
| "steps_left CpExited = 0"

lemma stopping_steps_left:
  assumes "cp_stop s" and "w < length (cp_workers s)" and "worker_next qapi qview rapi w s = Some t"
  shows "steps_left (cp_workers t ! w) < steps_left (cp_workers s ! w)"
  using assms
  by (cases "cp_workers s ! w") (auto simp: worker_next_def
      split: option.splits sum.splits recv_timeout_error.splits if_splits)

text \<open>
  C21: no worker ever blocks: whichever point of the loop a worker is at, its next step is
  enabled, since the result channel of the task it reports on is still empty; and once
  the stop flag is up each step brings the worker closer to the end of its loop, so
  \<open>shutdown\<close> can join them all as long as the running jobs end.
\<close>

theorem compute_workers_never_block:
  assumes "chan qapi qview" and "chan rapi rview"
    and "reachable (cp_init qapi) (cp_step qapi qview rapi) s"
    and "w < length (cp_workers s)" and "cp_workers s ! w \<noteq> CpExited"
  shows "\<exists>t. worker_next qapi qview rapi w s = Some t
    \<and> (cp_stop s \<longrightarrow> cp_stop t \<and> steps_left (cp_workers t ! w) < steps_left (cp_workers s ! w))"
proof -
  have ok: "books_ok qview s" "results_ok qview rview s"
    using pool_always [OF assms(1-3)] by (simp_all add: pool_ok_def)
  have "worker_next qapi qview rapi w s \<noteq> None"
  proof (cases "cp_workers s ! w")
    case (CpSend k r)
    then have k: "k \<in># waiting qview s"
      using nth_mem [OF assms(4)] by (force simp: waiting_def in_hand_def)
    then have "k \<in> set (cp_submitted s)"
      using books_waiting(1) [OF ok(1)] ok(2) by (auto simp: results_ok_def)
    then obtain c where c: "st_map (cp_results s) (tk_result_sender k) = Some c"
      and v: "cv_bound (rview c) = Some 1" "cv_queue (rview c) = []"
      using ok(2) k by (auto simp: results_ok_def res_ok_def)
    have "ch_send rapi r c \<noteq> None"
      using chan.send_accepts [OF assms(2), of c r] chan.send_gone [OF assms(2), of c r] v
      by (auto simp: cv_full_def)
    then show ?thesis using CpSend c by (auto simp: worker_next_def)
  qed (use assms(5) in \<open>auto simp: worker_next_def\<close>)
  then obtain t where t: "worker_next qapi qview rapi w s = Some t" by auto
  then show ?thesis
    using worker_next_shape(3) [OF t] stopping_steps_left [OF _ assms(4) t] by auto
qed


text \<open>
  C40: the configured queue capacity and task timeout have no effect: a pool with a running
  worker accepts a job however many are queued, never reporting \<open>QueueFull\<close>; without
  workers every submission fails with \<open>SchedulerShutdown\<close>; and a submission after
  \<open>shutdown\<close> took the sender panics.
\<close>

theorem compute_spawn_outcomes:
  assumes "chan qapi qview" and "chan rapi rview"
    and "reachable (cp_init qapi) (cp_step qapi qview rapi) s"
  shows "\<exists>r t. compute_spawn qapi rapi now job s = Some (r, t)
    \<and> (if \<not> cp_sender s then r = Panicked
       else if running s = 0 then r = Ret (Inl SchedulerShutdown)
       else (\<exists>k. r = Ret (Inr (compute_handle_new (tk_result_sender k) (tk_cancelled k)))
         \<and> tk_job k = job \<and> cv_queue (qview (cp_queue t)) = cv_queue (qview (cp_queue s)) @ [k]))"
proof -
  have ok: "queue_ok qview s" using pool_always [OF assms] by (simp add: pool_ok_def)
  obtain k s1 where mk: "make_task rapi now job s = (k, s1)" by fastforce
  note e = make_task_eqs [OF mk]
  have "cv_bound (qview (cp_queue s)) = None" "cv_receivers (qview (cp_queue s)) = running s"
    using ok by (simp_all add: queue_ok_def Let_def)
  with chan.unbounded_send [OF assms(1), of "cp_queue s" k]
  show ?thesis
    using e by (auto simp: compute_spawn_def mk submit_task_def)
qed

section \<open>A concrete run\<close>

text \<open>One worker, one job; the pool is then shut down before the handle is read.\<close>

type_synonym demo_pool = "(bool task chan_view, bool compute_result chan_view, bool) cpool"

definition demo_task :: "bool task" where
  "demo_task = \<lparr>tk_id = TaskId 0, tk_job = Returned (Any 0 True), tk_result_sender = 0,
     tk_created_at = 5, tk_cancelled = 0\<rparr>"

definition demo_new :: demo_pool where
  "demo_new = \<lparr>cp_config = \<lparr>cc_max_workers = 1, cc_queue_capacity = 1, cc_task_timeout = None\<rparr>,
     cp_sender = True, cp_queue = \<lparr>cv_queue = [], cv_bound = None, cv_senders = 1, cv_receivers = 1\<rparr>,
     cp_results = store_empty, cp_raised = {}, cp_next_flag = 0, cp_counter = 0, cp_stop = False,
     cp_workers = [CpTop], cp_submitted = [], cp_started = [], cp_sent = [], cp_dropped = []\<rparr>"

definition demo_chan :: "bool compute_result list \<Rightarrow> nat \<Rightarrow> bool compute_result chan_view" where
  "demo_chan q n = \<lparr>cv_queue = q, cv_bound = Some 1, cv_senders = n, cv_receivers = 1\<rparr>"

definition demo_spawned :: demo_pool where
  "demo_spawned = demo_new\<lparr>
     cp_queue := \<lparr>cv_queue = [demo_task], cv_bound = None, cv_senders = 1, cv_receivers = 1\<rparr>,
     cp_results := \<lparr>st_map = [0 \<mapsto> demo_chan [] 1], st_next = 1\<rparr>, cp_next_flag := 1, cp_counter := 1,
     cp_submitted := [demo_task]\<rparr>"

definition demo_got :: demo_pool where
  "demo_got = demo_spawned\<lparr>cp_queue := cp_queue demo_new, cp_workers := [CpGot demo_task]\<rparr>"

definition demo_send :: demo_pool where
  "demo_send = demo_got\<lparr>cp_started := [demo_task],
     cp_workers := [CpSend demo_task (ResOk (Any 0 True))]\<rparr>"

definition demo_sent :: demo_pool where
  "demo_sent = demo_send\<lparr>cp_workers := [CpDrop demo_task],
     cp_results := \<lparr>st_map = [0 \<mapsto> demo_chan [ResOk (Any 0 True)] 1], st_next = 1\<rparr>,
     cp_sent := [(demo_task, ResOk (Any 0 True))]\<rparr>"

definition demo_top :: demo_pool where
  "demo_top = demo_sent\<lparr>cp_workers := [CpTop], cp_stop := True,
     cp_results := \<lparr>st_map = [0 \<mapsto> demo_chan [ResOk (Any 0 True)] 0], st_next = 1\<rparr>\<rparr>"

lemmas demo_defs = demo_top_def demo_sent_def demo_send_def demo_got_def demo_spawned_def demo_new_def

abbreviation demo_step :: "demo_pool \<Rightarrow> demo_pool \<Rightarrow> bool" where
  "demo_step \<equiv> cp_step ref_api (\<lambda>v. v) ref_api"

abbreviation demo_work :: "demo_pool \<Rightarrow> demo_pool option" where
  "demo_work \<equiv> worker_next ref_api (\<lambda>v. v) ref_api 0"

lemma demo_working: "demo_work s = Some t \<Longrightarrow> cp_workers s = p # ps \<Longrightarrow> demo_step s t"
  by (rule cp_step.work [where w = 0]) simp_all

lemma demo_new_reachable: "reachable (cp_init ref_api) demo_step demo_new"
  by (rule reach_init)
     (auto simp: cp_init_def compute_new_def demo_new_def ref_defs
       intro!: exI [of _ "cp_config demo_new"] exI [of _ 0])

lemma demo_spawn: "compute_spawn ref_api ref_api 5 (Returned (Any 0 True)) demo_new
    = Some (Ret (Inr (compute_handle_new 0 0)), demo_spawned)"
  by (simp add: compute_spawn_def make_task_def submit_task_def task_id_new_def fetch_add1_def
      demo_spawned_def demo_new_def demo_task_def demo_chan_def store_new_def store_empty_def ref_defs)

lemma demo_got_reachable: "reachable (cp_init ref_api) demo_step demo_got"
proof -
  have "demo_step demo_new demo_spawned" using demo_spawn by (rule cp_step.spawn)
  moreover have "demo_step demo_spawned (set_worker 0 CpRecv demo_spawned)"
    by (rule demo_working) (simp_all add: worker_next_def demo_defs)
  moreover have "demo_step (set_worker 0 CpRecv demo_spawned) demo_got"
    by (rule demo_working) (simp_all add: worker_next_def demo_defs set_worker_def ref_defs)
  ultimately show ?thesis using demo_new_reachable by (meson reach_step)
qed

lemma demo_send_reachable: "reachable (cp_init ref_api) demo_step demo_send"
proof -
  let ?run = "set_worker 0 (CpRunning demo_task) (demo_got\<lparr>cp_started := [demo_task]\<rparr>)"
  have "demo_step demo_got ?run"
    by (rule demo_working) (simp_all add: worker_next_def demo_defs task_cancelled_def)
  moreover have "demo_step ?run (set_worker 0 (CpRan demo_task) ?run)"
    by (rule demo_working) (simp_all add: worker_next_def demo_defs set_worker_def)
  moreover have "demo_step (set_worker 0 (CpRan demo_task) ?run) demo_send"
    by (rule demo_working)
       (simp_all add: worker_next_def demo_defs set_worker_def task_cancelled_def outcome_result_def
         demo_task_def)
  ultimately show ?thesis using demo_got_reachable by (meson reach_step)
qed

lemma demo_sent_reachable: "reachable (cp_init ref_api) demo_step demo_sent"
proof -
  have "demo_step demo_send demo_sent"
    by (rule demo_working)
       (simp_all add: worker_next_def demo_defs set_worker_def demo_task_def demo_chan_def
         store_set_def ref_defs)
  then show ?thesis using demo_send_reachable by (meson reach_step)
qed

lemma demo_top_reachable: "reachable (cp_init ref_api) demo_step demo_top"
proof -
  have "demo_step demo_sent (pool_raise_stop demo_sent)" by (rule cp_step.raise_stop)
  moreover have "demo_step (pool_raise_stop demo_sent) demo_top"
    by (rule demo_working)
       (simp_all add: worker_next_def pool_raise_stop_def demo_defs set_worker_def demo_task_def
         demo_chan_def store_upd_def store_set_def ref_defs)
  ultimately show ?thesis using demo_sent_reachable by (meson reach_step)
qed

theorem compute_pool_conserves_tasks_witness:
  "mset (cp_submitted demo_sent) = mset (cv_queue (cp_queue demo_sent)) + mset (in_hand demo_sent)
      + mset (map fst (cp_sent demo_sent)) + mset (cp_dropped demo_sent)
    \<and> cp_submitted demo_sent = [demo_task]"
  using compute_pool_conserves_tasks [OF chan_ref chan_ref demo_sent_reachable]
  by (simp add: demo_defs)

theorem compute_results_honest_witness:
  "(demo_task, ResOk (Any 0 True)) \<in> set (cp_sent demo_sent)
    \<and> outcome_result (tk_job demo_task) = ResOk (Any 0 True)"
proof -
  have m: "(demo_task, ResOk (Any 0 True)) \<in> set (cp_sent demo_sent)" by (simp add: demo_sent_def)
  from compute_results_honest [OF demo_sent_reachable m] m show ?thesis by auto
qed

theorem compute_cancel_effective_witness:
  "\<exists>t. demo_step demo_got t \<and> handle_is_cancelled (compute_handle_new 0 0) (cp_raised t)
    \<and> {u. demo_step\<^sup>*\<^sup>* t u} \<subseteq> {u. {r. (demo_task, r) \<in> set (cp_sent u)} \<subseteq> {ResCancelled}
        \<and> demo_task \<notin> set (cp_started u)}"
proof -
  have "tk_cancelled demo_task = hd_cancelled (compute_handle_new 0 0)"
    "demo_task \<notin> fst ` set (cp_sent demo_got)"
    "{r. CpSend demo_task r \<in> set (cp_workers demo_got)} = {}" "cp_started demo_got = []"
    by (simp_all add: demo_defs demo_task_def compute_handle_new_def)
  from compute_cancel_effective [OF this(1-3), of ref_api "\<lambda>v. v" ref_api] this(4)
  show ?thesis by simp
qed

theorem compute_workers_never_block_witness:
  "\<exists>t. demo_work demo_send = Some t"
proof -
  have "0 < length (cp_workers demo_send)" "cp_workers demo_send ! 0 \<noteq> CpExited"
    by (simp_all add: demo_defs)
  from compute_workers_never_block [OF chan_ref chan_ref demo_send_reachable this]
  show ?thesis by blast
qed


theorem compute_spawn_outcomes_witness:
  "\<exists>r t. compute_spawn ref_api ref_api 9 (Unwound PayloadOther) demo_spawned = Some (Ret (Inr r), t)
    \<and> length (cv_queue (cp_queue t)) = 2 \<and> cc_queue_capacity (cp_config demo_spawned) = 1"
proof -
  have r: "reachable (cp_init ref_api) demo_step demo_spawned"
    using reach_step [OF demo_new_reachable cp_step.spawn [OF demo_spawn]] .
  have "cp_sender demo_spawned" "running demo_spawned \<noteq> 0" "length (cv_queue (cp_queue demo_spawned)) = 1"
    "cc_queue_capacity (cp_config demo_spawned) = 1"
    by (simp_all add: demo_defs running_def)
  with compute_spawn_outcomes [OF chan_ref chan_ref r, of 9 "Unwound PayloadOther"]
  show ?thesis by fastforce
qed


end
