(* ===== verification/ActorThread.thy ===== *)
theory ActorThread
  imports Actors
begin

text \<open>
  The loop of \<open>Runtime::spawn\<close> (\<open>src/runtime.rs\<close>) at the grain at which the threads of the
  program interleave: every receive, every operation a handler performs on its context
  (\<open>src/actor/context.rs\<close>) and every test of the stop flag is a step of its own. The last
  theorem relates the two grains.
\<close>

section \<open>Handlers as sequences of context operations\<close>

text \<open>
  A handler is user code. All it can do to the runtime goes through the methods of its
  context and of the compute handles it keeps, so a call of it is a tree: it ends, it
  panics, or it performs an operation and continues with the result. \<open>ReadClock\<close> and
  \<open>PickOrder\<close> stand for \<open>Instant::now\<close> and for the order in which a \<open>HashMap\<close> of the
  handler's own iterates.
\<close>

codatatype ('v, 's) act =
    Finish "(unit, actor_error) result" 's
  | Unwinds
  | SendTo actor_id "'v any" "(unit, runtime_error) result \<Rightarrow> ('v, 's) act"
  | ReplyWith "'v any" "(unit, runtime_error) result \<Rightarrow> ('v, 's) act"
  | SpawnCompute "'v outcome" "(compute_handle, compute_error) result \<Rightarrow> ('v, 's) act"
  | PollCompute compute_handle type_id "('v, compute_error) result option \<Rightarrow> ('v, 's) act"
  | AwaitCompute compute_handle type_id "('v, compute_error) result \<Rightarrow> ('v, 's) act"
  | CancelCompute compute_handle "('v, 's) act"
  | StartTimer duration "'v any" "(timer_id, runtime_error) result \<Rightarrow> ('v, 's) act"
  | StartInterval duration "'v any" "(timer_id, runtime_error) result \<Rightarrow> ('v, 's) act"
  | StopTimer timer_id "('v, 's) act"
  | ReadClock "instant \<Rightarrow> ('v, 's) act"
  | PickOrder "actor_id list \<Rightarrow> ('v, 's) act"

type_synonym ('v, 's) behaviour = "'v \<Rightarrow> actor_context \<Rightarrow> 's \<Rightarrow> ('v, 's) act"

text \<open>What the threads share, with the services a context reaches.\<close>

record ('c, 'r, 'q, 'p, 'v) world = "('c, 'r) shared" +
  wd_timers :: "'v timers"
  wd_pool :: "('q, 'p, 'v) cpool"

text \<open>The channel operations of the four kinds of channels.\<close>

record ('c, 'r, 'q, 'p, 'v) apis =
  on_mailbox :: "('c, 'v envelope) chan_api"
  on_reply :: "('r, 'v any) chan_api"
  on_tasks :: "('q, 'v task) chan_api"
  on_result :: "('p, 'v compute_result) chan_api"

text \<open>What the environment supplies to a step: a clock reading and an iteration order.\<close>

type_synonym input = "instant \<times> actor_id list"

text \<open>
  A context operation other than a send; \<open>None\<close> while the handler waits in it, or when the
  handler has ended.
\<close>

definition timer_outcome ::
  "((timer_id, runtime_error) result \<Rightarrow> ('v, 's) act)
    \<Rightarrow> (timer_id, runtime_error) result rust \<times> 'v timers
    \<Rightarrow> ('c, 'r, 'q, 'p, 'v) world \<Rightarrow> ('v, 's) act \<times> ('c, 'r, 'q, 'p, 'v) world" where
  "timer_outcome k x w =
     (case x of (Panicked, ts) \<Rightarrow> (Unwinds, w\<lparr>wd_timers := ts\<rparr>)
      | (Ret r, ts) \<Rightarrow> (k r, w\<lparr>wd_timers := ts\<rparr>))"

definition set_result ::
  "compute_handle \<Rightarrow> 'p \<Rightarrow> ('c, 'r, 'q, 'p, 'v) world \<Rightarrow> ('c, 'r, 'q, 'p, 'v) world" where
  "set_result h c w =
     w\<lparr>wd_pool := (wd_pool w)\<lparr>cp_results := store_set (hd_receiver h) c (cp_results (wd_pool w))\<rparr>\<rparr>"

definition act_next ::
  "('c, 'r, 'q, 'p, 'v) apis \<Rightarrow> input \<Rightarrow> actor_context \<Rightarrow> ('v, 's) act
    \<Rightarrow> ('c, 'r, 'q, 'p, 'v) world \<Rightarrow> (('v, 's) act \<times> ('c, 'r, 'q, 'p, 'v) world) option" where
  "act_next A inp cx a w =
     (case a of
        Finish res s \<Rightarrow> None
      | Unwinds \<Rightarrow> None
      | SendTo t m k \<Rightarrow> None
      | ReplyWith m k \<Rightarrow>
          map_option (\<lambda>(r, st). (k r, w\<lparr>sh_replies := st\<rparr>)) (reply (on_reply A) cx m (sh_replies w))
      | SpawnCompute job k \<Rightarrow>
          map_option (\<lambda>(r, p). (k r, w\<lparr>wd_pool := p\<rparr>))
            (context_spawn_compute (on_tasks A) (on_result A) cx (fst inp) job (wd_pool w))
      | PollCompute h ty k \<Rightarrow>
          (case st_map (cp_results (wd_pool w)) (hd_receiver h) of
             None \<Rightarrow> None
           | Some c \<Rightarrow> (case handle_try_recv (on_result A) ty c of (r, c') \<Rightarrow>
               Some (k r, set_result h c' w)))
      | AwaitCompute h ty k \<Rightarrow>
          (case st_map (cp_results (wd_pool w)) (hd_receiver h) of
             None \<Rightarrow> None
           | Some c \<Rightarrow> map_option (\<lambda>(r, c'). (k r, set_result h c' w)) (handle_recv (on_result A) ty c))
      | CancelCompute h k \<Rightarrow>
          Some (k, w\<lparr>wd_pool := (wd_pool w)\<lparr>cp_raised := handle_cancel h (cp_raised (wd_pool w))\<rparr>\<rparr>)
      | StartTimer d m k \<Rightarrow>
          Some (timer_outcome k (context_schedule_timer cx (fst inp) d m (wd_timers w)) w)
      | StartInterval d m k \<Rightarrow>
          Some (timer_outcome k (context_schedule_interval cx (fst inp) d m (wd_timers w)) w)
      | StopTimer i k \<Rightarrow>
          Some (case context_cancel_timer cx i (wd_timers w) of
             (Panicked, ts) \<Rightarrow> (Unwinds, w\<lparr>wd_timers := ts\<rparr>)
           | (Ret u, ts) \<Rightarrow> (k, w\<lparr>wd_timers := ts\<rparr>))
      | ReadClock k \<Rightarrow> Some (k (fst inp), w)
      | PickOrder k \<Rightarrow> Some (k (snd inp), w))"

section \<open>The thread of an actor\<close>

text \<open>
  The program points of the loop. \<open>InSend\<close> is a blocking send in progress: the read guard
  of the map of senders is held from here until the send returns. The flag tells a round
  that counts reductions from one of the stopping loop.
\<close>

datatype (dead 'v, dead 's) apc =
    LoopTop
  | DrainRecv
  | TimedRecv
  | InHandler bool "('v, 's) act"
  | InSend bool actor_id "'v any" "(unit, runtime_error) result \<Rightarrow> ('v, 's) act"
  | LoopLeft
  | LoopUnwound

record ('v, 's) athread =
  at_loop :: "'s actor_loop"
  at_pc :: "('v, 's) apc"

definition next_round :: "bool \<Rightarrow> 's actor_loop \<Rightarrow> ('v, 's) athread" where
  "next_round counted lp =
     \<lparr>at_loop = (if counted then lp\<lparr>al_reductions := snd (reduction_tick (al_reductions lp))\<rparr> else lp),
      at_pc = LoopTop\<rparr>"

text \<open>An envelope was received: the handler starts, or the envelope is dropped.\<close>

definition call_handler ::
  "('c, 'r, 'q, 'p, 'v) apis \<Rightarrow> ('v, 's) behaviour \<Rightarrow> bool \<Rightarrow> 'v \<Rightarrow> chan_ref option \<Rightarrow> 's actor_loop
    \<Rightarrow> ('c, 'r, 'q, 'p, 'v) world \<Rightarrow> ('v, 's) athread \<times> ('c, 'r, 'q, 'p, 'v) world" where
  "call_handler A handle counted v rs lp w =
     (let cx = set_reply_sender rs (al_ctx lp)
      in (\<lparr>at_loop = lp\<lparr>al_ctx := cx\<rparr>, at_pc = InHandler counted (handle v cx (al_actor lp))\<rparr>,
          drop_reply (on_reply A) (cx_reply_sender (al_ctx lp)) w))"

definition open_envelope ::
  "('c, 'r, 'q, 'p, 'v) apis \<Rightarrow> ('s \<Rightarrow> type_id) \<Rightarrow> ('v, 's) behaviour \<Rightarrow> bool \<Rightarrow> 'v envelope
    \<Rightarrow> 's actor_loop \<Rightarrow> ('c, 'r, 'q, 'p, 'v) world \<Rightarrow> ('v, 's) athread \<times> ('c, 'r, 'q, 'p, 'v) world"
where
  "open_envelope A ty handle counted env lp w =
     (case env of
        Message a \<Rightarrow>
          (case downcast (ty (al_actor lp)) a of
             Inl _ \<Rightarrow> (next_round counted lp, w)
           | Inr v \<Rightarrow> call_handler A handle counted v None lp w)
      | Request i a r \<Rightarrow>
          (case downcast (ty (al_actor lp)) a of
             Inl _ \<Rightarrow> (next_round counted lp, drop_reply (on_reply A) (Some r) w)
           | Inr v \<Rightarrow> call_handler A handle counted v (Some r) lp w))"

definition thread_next ::
  "('c, 'r, 'q, 'p, 'v) apis \<Rightarrow> ('s \<Rightarrow> type_id) \<Rightarrow> ('v, 's) behaviour \<Rightarrow> bool \<Rightarrow> input
    \<Rightarrow> ('v, 's) athread \<Rightarrow> ('c, 'r, 'q, 'p, 'v) world
    \<Rightarrow> (('v, 's) athread \<times> ('c, 'r, 'q, 'p, 'v) world) option" where
  "thread_next A ty handle stop inp th w =
     (let lp = at_loop th; rx = al_rx lp in
      case at_pc th of
        LoopTop \<Rightarrow> Some (th\<lparr>at_pc := if stop then DrainRecv else TimedRecv\<rparr>, w)
      | DrainRecv \<Rightarrow>
          (case st_map (nt_store (sh_net w)) rx of
             None \<Rightarrow> None
           | Some c \<Rightarrow>
               (case ch_try_recv (on_mailbox A) c of
                  Inr (env, c') \<Rightarrow>
                    Some (open_envelope A ty handle False env lp (w\<lparr>sh_net := put_channel rx c' (sh_net w)\<rparr>))
                | Inl _ \<Rightarrow> Some (th\<lparr>at_pc := LoopLeft\<rparr>, w)))
      | TimedRecv \<Rightarrow>
          (case st_map (nt_store (sh_net w)) rx of
             None \<Rightarrow> None
           | Some c \<Rightarrow>
               (case ch_recv_timeout (on_mailbox A) c of
                  Inr (env, c') \<Rightarrow>
                    Some (open_envelope A ty handle True env lp (w\<lparr>sh_net := put_channel rx c' (sh_net w)\<rparr>))
                | Inl RecvTimedOut \<Rightarrow>
                    Some (\<lparr>at_loop = lp\<lparr>al_reductions := rc_reset (al_reductions lp)\<rparr>, at_pc = LoopTop\<rparr>, w)
                | Inl RecvTimeoutDisconnected \<Rightarrow> Some (th\<lparr>at_pc := LoopLeft\<rparr>, w)))
      | InHandler counted a \<Rightarrow>
          (case a of
             Finish res s \<Rightarrow> Some (next_round counted (lp\<lparr>al_actor := s\<rparr>), w)
           | Unwinds \<Rightarrow> Some (th\<lparr>at_pc := LoopUnwound\<rparr>, w)
           | SendTo t m k \<Rightarrow>
               Some (th\<lparr>at_pc := (if cx_senders (al_ctx lp) \<and> \<not> nt_poisoned (sh_net w)
                 then InSend counted t m k else InHandler counted (k (Inl RuntimeStopped)))\<rparr>, w)
           | _ \<Rightarrow>
               map_option (\<lambda>(a', w'). (th\<lparr>at_pc := InHandler counted a'\<rparr>, w'))
                 (act_next A inp (al_ctx lp) a w))
      | InSend counted t m k \<Rightarrow>
          map_option (\<lambda>(r, n). (th\<lparr>at_pc := InHandler counted (k r)\<rparr>, w\<lparr>sh_net := n\<rparr>))
            (net_send (on_mailbox A) t (Message m) (sh_net w))
      | LoopLeft \<Rightarrow> None
      | LoopUnwound \<Rightarrow> None)"

section \<open>The two grains agree\<close>

text \<open>What a handler's operations amount to when no other thread acts in between.\<close>

inductive act_runs ::
  "('c, 'r, 'q, 'p, 'v) apis \<Rightarrow> actor_context \<Rightarrow> ('v, 's) act \<Rightarrow> ('c, 'r, 'q, 'p, 'v) world
    \<Rightarrow> ((unit, actor_error) result \<times> 's) rust \<Rightarrow> ('c, 'r, 'q, 'p, 'v) world \<Rightarrow> bool"
  for A cx where
  ends: "act_runs A cx (Finish res s) w (Ret (res, s)) w"
| unwinds: "act_runs A cx Unwinds w Panicked w"
| sends: "send_to (on_mailbox A) cx t m (sh_net w) = Some (r, n) \<Longrightarrow>
     act_runs A cx (k r) (w\<lparr>sh_net := n\<rparr>) out w' \<Longrightarrow> act_runs A cx (SendTo t m k) w out w'"
| acts: "act_next A inp cx a w = Some (a', w1) \<Longrightarrow> act_runs A cx a' w1 out w' \<Longrightarrow>
     act_runs A cx a w out w'"

definition implements ::
  "('c, 'r, 'q, 'p, 'v) apis \<Rightarrow> ('v, 's) behaviour
    \<Rightarrow> ('v, 's, ('c, 'r, 'q, 'p, 'v) world) handler \<Rightarrow> bool" where
  "implements A handle h \<longleftrightarrow> (\<forall>v cx s w out w'.
     h v cx s w = Some (out, w') \<longrightarrow> act_runs A cx (handle v cx s) w out w')"

definition thread_step ::
  "('c, 'r, 'q, 'p, 'v) apis \<Rightarrow> ('s \<Rightarrow> type_id) \<Rightarrow> ('v, 's) behaviour \<Rightarrow> bool
    \<Rightarrow> ('v, 's) athread \<times> ('c, 'r, 'q, 'p, 'v) world
    \<Rightarrow> ('v, 's) athread \<times> ('c, 'r, 'q, 'p, 'v) world \<Rightarrow> bool" where
  "thread_step A ty handle stop x y \<longleftrightarrow>
     (\<exists>inp. thread_next A ty handle stop inp (fst x) (snd x) = Some y)"

fun pc_of :: "loop_outcome \<Rightarrow> ('v, 's) apc" where
  "pc_of LoopOn = LoopTop"
| "pc_of LoopEnded = LoopLeft"
| "pc_of LoopPanicked = LoopUnwound"

lemma thread_stepI: "thread_next A ty handle stop inp th w = Some y \<Longrightarrow> thread_step A ty handle stop (th, w) y"
  unfolding thread_step_def by (rule exI [of _ inp]) simp

lemma thread_sends:
  assumes "send_to (on_mailbox A) (al_ctx lp) t m (sh_net w) = Some (r, n)"
  shows "(thread_step A ty handle stop)\<^sup>*\<^sup>* (\<lparr>at_loop = lp, at_pc = InHandler b (SendTo t m k)\<rparr>, w)
    (\<lparr>at_loop = lp, at_pc = InHandler b (k r)\<rparr>, w\<lparr>sh_net := n\<rparr>)"
proof (cases "cx_senders (al_ctx lp) \<and> \<not> nt_poisoned (sh_net w)")
  case True
  let ?mid = "(\<lparr>at_loop = lp, at_pc = InSend b t m k\<rparr>, w)"
  have "thread_step A ty handle stop (\<lparr>at_loop = lp, at_pc = InHandler b (SendTo t m k)\<rparr>, w) ?mid"
    using True by (intro thread_stepI) (simp add: thread_next_def)
  moreover have "thread_step A ty handle stop ?mid
      (\<lparr>at_loop = lp, at_pc = InHandler b (k r)\<rparr>, w\<lparr>sh_net := n\<rparr>)"
    using True assms by (intro thread_stepI) (simp add: thread_next_def send_to_def)
  ultimately show ?thesis by (meson converse_rtranclp_into_rtranclp r_into_rtranclp)
next
  case False
  then have "r = Inl RuntimeStopped \<and> n = sh_net w"
    using assms by (auto simp: send_to_def net_send_def find_sender_def split: if_splits)
  then have "thread_step A ty handle stop (\<lparr>at_loop = lp, at_pc = InHandler b (SendTo t m k)\<rparr>, w)
      (\<lparr>at_loop = lp, at_pc = InHandler b (k r)\<rparr>, w\<lparr>sh_net := n\<rparr>)"
    using False by (intro thread_stepI) (auto simp: thread_next_def)
  then show ?thesis by blast
qed

lemma thread_acts:
  assumes "act_next A inp (al_ctx lp) a w = Some (a', w')"
  shows "thread_step A ty handle stop (\<lparr>at_loop = lp, at_pc = InHandler b a\<rparr>, w)
    (\<lparr>at_loop = lp, at_pc = InHandler b a'\<rparr>, w')"
  using assms
  by (intro thread_stepI [where inp = inp]) (cases a; simp add: thread_next_def; simp add: act_next_def)

lemma thread_runs_act:
  assumes "act_runs A cx a w out w'" and "al_ctx lp = cx"
  shows "(thread_step A ty handle stop)\<^sup>*\<^sup>* (\<lparr>at_loop = lp, at_pc = InHandler b a\<rparr>, w)
    (case out of Panicked \<Rightarrow> \<lparr>at_loop = lp, at_pc = LoopUnwound\<rparr>
      | Ret (res, s) \<Rightarrow> next_round b (lp\<lparr>al_actor := s\<rparr>), w')"
  using assms
proof (induction rule: act_runs.induct)
  case (ends res s w)
  have "thread_step A ty handle stop (\<lparr>at_loop = lp, at_pc = InHandler b (Finish res s)\<rparr>, w)
      (next_round b (lp\<lparr>al_actor := s\<rparr>), w)"
    by (intro thread_stepI) (simp add: thread_next_def)
  then show ?case by (simp add: r_into_rtranclp)
next
  case (unwinds w)
  have "thread_step A ty handle stop (\<lparr>at_loop = lp, at_pc = InHandler b Unwinds\<rparr>, w)
      (\<lparr>at_loop = lp, at_pc = LoopUnwound\<rparr>, w)"
    by (intro thread_stepI) (simp add: thread_next_def)
  then show ?case by (simp add: r_into_rtranclp)
next
  case (sends t m w r n k out w')
  then show ?case using thread_sends [of A lp t m w r n ty handle stop b k] by (meson rtranclp_trans)
next
  case (acts inp a w a' w1 out w')
  then show ?case
    using thread_acts [of A inp lp a w a' w1 ty handle stop b] by (meson converse_rtranclp_into_rtranclp)
qed

lemma called_runs:
  assumes imp: "implements A handle h"
    and run: "run_handler (on_reply A) h v rs lp w = Some (out, lp1, w1)"
    and aft: "after_envelope b (out, lp1, w1) = (out', lp', w')"
  shows "(thread_step A ty handle stop)\<^sup>*\<^sup>* (call_handler A handle b v rs lp w)
    (\<lparr>at_loop = lp', at_pc = pc_of out'\<rparr>, w')"
proof -
  let ?cx = "set_reply_sender rs (al_ctx lp)"
  let ?w = "drop_reply (on_reply A) (cx_reply_sender (al_ctx lp)) w"
  obtain res where h: "h v ?cx (al_actor lp) ?w = Some (res, w1)"
    using run by (auto simp: run_handler_def Let_def split: option.splits rust.splits)
  then have "act_runs A ?cx (handle v ?cx (al_actor lp)) ?w res w1"
    using imp unfolding implements_def by blast
  from thread_runs_act [OF this, of "lp\<lparr>al_ctx := ?cx\<rparr>" ty handle stop b]
  have "(thread_step A ty handle stop)\<^sup>*\<^sup>* (call_handler A handle b v rs lp w)
    (case res of Panicked \<Rightarrow> \<lparr>at_loop = lp\<lparr>al_ctx := ?cx\<rparr>, at_pc = LoopUnwound\<rparr>
      | Ret (res, s) \<Rightarrow> next_round b (lp\<lparr>al_ctx := ?cx, al_actor := s\<rparr>), w1)"
    by (simp add: call_handler_def Let_def)
  then show ?thesis
    using run aft h
    by (auto simp: run_handler_def Let_def after_envelope_def next_round_def split: rust.splits if_splits)
qed

lemma opened_runs:
  assumes "implements A handle h"
    and "handle_envelope (on_reply A) (ty (al_actor lp)) h env lp w = Some (out, lp1, w1)"
    and "after_envelope b (out, lp1, w1) = (out', lp', w')"
  shows "(thread_step A ty handle stop)\<^sup>*\<^sup>* (open_envelope A ty handle b env lp w)
    (\<lparr>at_loop = lp', at_pc = pc_of out'\<rparr>, w')"
  using assms(2,3) called_runs [OF assms(1) _ assms(3)]
  by (auto simp: handle_envelope_def open_envelope_def after_envelope_def next_round_def
      split: envelope.splits sum.splits if_splits)


section \<open>The behaviours of the two actors of the crate\<close>

text \<open>
  \<open>SupervisorActor\<close> and \<open>TestCounter\<close> as trees: the clock is read before and after the
  decision of a crash report, and the result of the reply is ignored.
\<close>

definition supervisor_behaviour :: "(runact_value, supervisor_actor) behaviour" where
  "supervisor_behaviour v cx a =
     (case v of
        SupMsg m \<Rightarrow>
          ReadClock (\<lambda>now. ReadClock (\<lambda>now'. PickOrder (\<lambda>order.
            case sa_handle now now' order m a of
              Panicked \<Rightarrow> Unwinds
            | Ret (res, rep, a') \<Rightarrow>
                (case rep of
                   None \<Rightarrow> Finish res a'
                 | Some sts \<Rightarrow> ReplyWith (Any statuses_type (Statuses sts)) (\<lambda>_. Finish res a')))))
      | _ \<Rightarrow> Finish (Inr ()) a)"

definition counter_behaviour :: "(runact_value, u64) behaviour" where
  "counter_behaviour v cx a =
     (case v of
        CounterMsg m \<Rightarrow>
          (case test_counter_handle m a of (res, rep, a') \<Rightarrow>
             (case rep of
                None \<Rightarrow> Finish res a'
              | Some n \<Rightarrow> ReplyWith (Any count_type (Count n)) (\<lambda>_. Finish res a')))
      | _ \<Rightarrow> Finish (Inr ()) a)"

lemma runs_answer:
  assumes "answer (on_reply A) cx m (res, a') w = Some (out, w')"
  shows "act_runs A cx (case m of None \<Rightarrow> Finish res a' | Some x \<Rightarrow> ReplyWith x (\<lambda>_. Finish res a')) w out w'"
proof (cases m)
  case None
  then show ?thesis using assms by (auto simp: answer_def intro: act_runs.ends)
next
  case (Some x)
  then obtain r st where "reply (on_reply A) cx x (sh_replies w) = Some (r, st)"
    and "out = Ret (res, a')" "w' = w\<lparr>sh_replies := st\<rparr>"
    using assms by (auto simp: answer_def split: option.splits)
  then show ?thesis
    using Some act_runs.acts [of A undefined cx "ReplyWith x (\<lambda>_. Finish res a')" w "Finish res a'"
        "w\<lparr>sh_replies := st\<rparr>"]
    by (auto simp: act_next_def intro: act_runs.ends)
qed

lemma counter_implements:
  fixes A :: "('c, 'r, 'q, 'p, runact_value) apis"
  shows "implements A counter_behaviour (counter_handler (on_reply A))"
  unfolding implements_def
proof (intro allI impI)
  fix v cx s out and w w' :: "('c, 'r, 'q, 'p, runact_value) world"
  assume h: "counter_handler (on_reply A) v cx s w = Some (out, w')"
  show "act_runs A cx (counter_behaviour v cx s) w out w'"
  proof (cases v)
    case (CounterMsg m)
    obtain res rep a' where t: "test_counter_handle m s = (res, rep, a')" by (metis prod_cases3)
    then show ?thesis
      using h CounterMsg runs_answer [of A cx "map_option (\<lambda>n. Any count_type (Count n)) rep" res a' w out w']
      by (cases rep) (simp_all add: counter_handler_def counter_behaviour_def)
  qed (use h in \<open>auto simp: counter_handler_def counter_behaviour_def intro: act_runs.ends\<close>)
qed

lemma reads_input:
  "act_runs A cx (k now) w out w' \<Longrightarrow> act_runs A cx (ReadClock k) w out w'"
  "act_runs A cx (j order) w out w' \<Longrightarrow> act_runs A cx (PickOrder j) w out w'"
  by (rule act_runs.acts [where inp = "(now, order)"]; simp add: act_next_def)+

lemma supervisor_implements:
  fixes A :: "('c, 'r, 'q, 'p, runact_value) apis"
  shows "implements A supervisor_behaviour (supervisor_handler (on_reply A) readings)"
  unfolding implements_def
proof (intro allI impI)
  fix v cx s out and w w' :: "('c, 'r, 'q, 'p, runact_value) world"
  assume h: "supervisor_handler (on_reply A) readings v cx s w = Some (out, w')"
  show "act_runs A cx (supervisor_behaviour v cx s) w out w'"
  proof (cases v)
    case (SupMsg m)
    obtain now now' order where r: "readings w = (now, now', order)" by (metis prod_cases3)
    show ?thesis
    proof (cases "sa_handle now now' order m s")
      case (Ret x)
      obtain res rep a' where x: "x = (res, rep, a')" by (metis prod_cases3)
      have "act_runs A cx (case rep of None \<Rightarrow> Finish res a'
          | Some sts \<Rightarrow> ReplyWith (Any statuses_type (Statuses sts)) (\<lambda>_. Finish res a')) w out w'"
        using h SupMsg r Ret x
          runs_answer [of A cx "map_option (\<lambda>sts. Any statuses_type (Statuses sts)) rep" res a' w out w']
        by (cases rep) (simp_all add: supervisor_handler_def)
      then show ?thesis
        using SupMsg Ret x
        by (simp add: supervisor_behaviour_def)
           (rule reads_input(1) [where now = now], rule reads_input(1) [where now = now'],
            rule reads_input(2) [where order = order], simp)
    next
      case Panicked
      then have "out = Panicked" "w' = w" using h SupMsg r by (simp_all add: supervisor_handler_def)
      then show ?thesis
        using SupMsg Panicked
        by (simp add: supervisor_behaviour_def)
           (rule reads_input(1) [where now = now], rule reads_input(1) [where now = now'],
            rule reads_input(2) [where order = order], simp add: act_runs.unwinds)
    qed
  qed (use h in \<open>auto simp: supervisor_handler_def supervisor_behaviour_def intro: act_runs.ends\<close>)
qed

text \<open>A counter at five that is asked for its value.\<close>

definition ref_apis :: "('v envelope chan_view, 'v any chan_view, 'v task chan_view,
    'v compute_result chan_view, 'v) apis" where
  "ref_apis = \<lparr>on_mailbox = ref_api, on_reply = ref_api, on_tasks = ref_api, on_result = ref_api\<rparr>"

type_synonym ref_world = "(runact_value envelope chan_view, runact_value any chan_view,
  runact_value task chan_view, runact_value compute_result chan_view, runact_value) world"

definition asked_world :: ref_world where
  "asked_world = shared.extend
     (one_message (Request 0 (Any counter_message_type (CounterMsg GetValue)) 0))
     (world.fields timers_new (projr (compute_new ref_api (compute_config_default None) store_empty 0)))"


end
