(* ===== verification/System.thy ===== *)
theory System
  imports RuntimeProps TimerProps ComputeProps ActorThread
begin

text \<open>
  The running program: the runtime of \<open>src/runtime.rs\<close> with all its threads. Scheduler
  workers run the loops of the actors, compute workers the jobs, one thread delivers the
  timers, client threads call the runtime, and one of them may shut it down. Every step is
  a step of one thread; the theories of the components say what each of them does.
\<close>

section \<open>State\<close>

text \<open>
  The program points of \<open>Runtime::shutdown\<close>, with the waits for the three services.
\<close>

datatype shut_pc =
    ShIdle
  | ShWait  \<comment> \<open>sleeping until the deadline, then waiting for the write lock of the senders\<close>
  | ShActors
  | ShTimers
  | ShJoinTimers
  | ShStopWorkers
  | ShJoinWorkers
  | ShStopPool
  | ShDropSender
  | ShJoinPool
  | ShDone

record ('c, 'r, 'q, 'p, 'v, 's) system =
  sy_rt :: "('c, 'r, 'q, 'p, 'v) runtime"
  sy_threads :: "chan_ref \<rightharpoonup> ('v, 's) athread"  \<comment> \<open>the actor loops that have not ended\<close>
  sy_timer :: "'v tphase"
  sy_reading :: instant
  sy_fired :: "(timer_id \<times> instant \<times> instant) list"
  sy_shutdown :: shut_pc
  sy_accepted :: "chan_ref \<Rightarrow> 'v envelope list"  \<comment> \<open>history: what each mailbox accepted\<close>
  sy_handled :: "chan_ref \<Rightarrow> 'v envelope list"  \<comment> \<open>history: what each loop received\<close>

definition world_of :: "('c, 'r, 'q, 'p, 'v) runtime \<Rightarrow> ('c, 'r, 'q, 'p, 'v) world" where
  "world_of rt = \<lparr>sh_net = rt_net rt, sh_replies = sh_replies (rt_shared rt),
     wd_timers = rt_timers rt, wd_pool = rt_compute rt\<rparr>"

definition set_world ::
  "('c, 'r, 'q, 'p, 'v) world \<Rightarrow> ('c, 'r, 'q, 'p, 'v) runtime \<Rightarrow> ('c, 'r, 'q, 'p, 'v) runtime" where
  "set_world w rt = rt\<lparr>rt_shared := \<lparr>sh_net = sh_net w, sh_replies = sh_replies w\<rparr>,
     rt_timers := wd_timers w, rt_compute := wd_pool w\<rparr>"

text \<open>The timer thread's view of the runtime; the two histories belong to \<open>tsys\<close> alone.\<close>

definition timer_view ::
  "nat \<Rightarrow> timer_id set \<Rightarrow> ('c, 'r, 'q, 'p, 'v, 's) system \<Rightarrow> ('c, 'v) tsys" where
  "timer_view created shots s =
     \<lparr>ty_timers = rt_timers (sy_rt s), ty_net = rt_net (sy_rt s), ty_phase = sy_timer s,
      ty_stop = rt_timer_stop (sy_rt s), ty_fired = sy_fired s, ty_now = sy_reading s,
      ty_created = created, ty_one_shots = shots\<rparr>"

definition set_timer_view ::
  "('c, 'v) tsys \<Rightarrow> ('c, 'r, 'q, 'p, 'v, 's) system \<Rightarrow> ('c, 'r, 'q, 'p, 'v, 's) system" where
  "set_timer_view t s =
     s\<lparr>sy_rt := (set_net (ty_net t) (sy_rt s))\<lparr>rt_timers := ty_timers t\<rparr>,
       sy_timer := ty_phase t, sy_reading := ty_now t, sy_fired := ty_fired t\<rparr>"

section \<open>The lock of the map of senders\<close>

text \<open>
  A handler in a blocking send holds the read guard of the map until the send returns.
  \<open>spawn\<close> and \<open>shutdown\<close> take the write lock, for which no guard may be held.
\<close>

fun guarding :: "('v, 's) apc \<Rightarrow> bool" where
  "guarding (InSend b t m k) = True"
| "guarding _ = False"

definition unguarded :: "('c, 'r, 'q, 'p, 'v, 's) system \<Rightarrow> bool" where
  "unguarded s \<longleftrightarrow> (\<forall>r \<in> dom (sy_threads s). \<not> guarding (at_pc (the (sy_threads s r))))"

section \<open>Clients\<close>

text \<open>What a thread with a reference to the runtime can do.\<close>

inductive client_op ::
  "('c, 'r, 'q, 'p, 'v) apis \<Rightarrow> ('c, 'r, 'q, 'p, 'v) runtime \<Rightarrow> ('c, 'r, 'q, 'p, 'v) runtime \<Rightarrow> bool"
  for A where
  op_send: "rt_send (on_mailbox A) target m s = (r, t) \<Longrightarrow> client_op A s t"
| op_send_blocking: "rt_send_blocking (on_mailbox A) target m s = Some (r, t) \<Longrightarrow> client_op A s t"
| op_request: "rt_request (on_mailbox A) (on_reply A) target m s = (h, t) \<Longrightarrow> client_op A s t"
| op_supervisor: "rt_spawn_supervisor st children s = (r, t) \<Longrightarrow> client_op A s t"
| op_timer: "rt_schedule_timer now d target m s = (i, t) \<Longrightarrow> client_op A s t"
| op_interval: "rt_schedule_interval now d target m s = (i, t) \<Longrightarrow> client_op A s t"
| op_cancel: "rt_cancel_timer i s = (u, t) \<Longrightarrow> client_op A s t"
| op_compute: "compute_spawn (on_tasks A) (on_result A) now job (rt_compute s) = Some (h, p) \<Longrightarrow>
     client_op A s (s\<lparr>rt_compute := p\<rparr>)"

text \<open>What a thread with a request handle or a compute handle can do, at any time.\<close>

inductive handle_op ::
  "('c, 'r, 'q, 'p, 'v) apis \<Rightarrow> ('c, 'r, 'q, 'p, 'v) world \<Rightarrow> ('c, 'r, 'q, 'p, 'v) world \<Rightarrow> bool"
  for A where
  read_reply: "st_map (sh_replies w) r = Some c \<Longrightarrow> request_try_recv (on_reply A) c = (x, c')
       \<or> request_recv (on_reply A) c = Some (x, c') \<or> request_recv_timeout (on_reply A) c = (x, c') \<Longrightarrow>
     handle_op A w (w\<lparr>sh_replies := store_set r c' (sh_replies w)\<rparr>)"
| drop_request: "handle_op A w (w\<lparr>sh_replies := store_upd r (ch_drop_receiver (on_reply A)) (sh_replies w)\<rparr>)"
| read_result: "st_map (cp_results (wd_pool w)) (hd_receiver h) = Some c \<Longrightarrow>
     handle_try_recv (on_result A) ty c = (x, c') \<or> handle_recv (on_result A) ty c = Some (y, c')
       \<or> handle_recv_timeout (on_result A) ty c = (y, c') \<Longrightarrow> handle_op A w (set_result h c' w)"
| cancel_job: "handle_op A w
     (w\<lparr>wd_pool := (wd_pool w)\<lparr>cp_raised := handle_cancel h (cp_raised (wd_pool w))\<rparr>\<rparr>)"
| drop_handle: "handle_op A w (w\<lparr>wd_pool := (wd_pool w)\<lparr>cp_results :=
     store_upd r (ch_drop_receiver (on_result A)) (cp_results (wd_pool w))\<rparr>\<rparr>)"

section \<open>Shutting down\<close>

text \<open>
  One step of the thread in \<open>shutdown\<close>. The write lock of the senders is granted when no
  guard is held; the joins return when the threads have ended.
\<close>

definition shutdown_next ::
  "('c, 'r, 'q, 'p, 'v) apis \<Rightarrow> ('c, 'r, 'q, 'p, 'v, 's) system
    \<Rightarrow> ('c, 'r, 'q, 'p, 'v, 's) system option" where
  "shutdown_next A s =
     (let rt = sy_rt s in
      case sy_shutdown s of
        ShIdle \<Rightarrow> None
      | ShWait \<Rightarrow>
          if nt_poisoned (rt_net rt) then Some (s\<lparr>sy_shutdown := ShDone\<rparr>)
          else if unguarded s
          then Some (s\<lparr>sy_rt := set_net (clear_senders (on_mailbox A) (rt_net rt)) rt, sy_shutdown := ShActors\<rparr>)
          else None
      | ShActors \<Rightarrow>
          if rt_actors_poisoned rt then Some (s\<lparr>sy_shutdown := ShDone\<rparr>)
          else Some (s\<lparr>sy_rt := rt\<lparr>rt_actors := []\<rparr>, sy_shutdown := ShTimers\<rparr>)
      | ShTimers \<Rightarrow> Some (s\<lparr>sy_rt := rt\<lparr>rt_timer_stop := True\<rparr>, sy_shutdown := ShJoinTimers\<rparr>)
      | ShJoinTimers \<Rightarrow>
          (case sy_timer s of
             TkStopped \<Rightarrow> Some (s\<lparr>sy_shutdown := ShStopWorkers\<rparr>)
           | TkDead \<Rightarrow> Some (s\<lparr>sy_shutdown := ShStopWorkers\<rparr>)
           | _ \<Rightarrow> None)
      | ShStopWorkers \<Rightarrow>
          Some (s\<lparr>sy_rt := rt\<lparr>rt_scheduler := sched_stop (rt_scheduler rt)\<rparr>, sy_shutdown := ShJoinWorkers\<rparr>)
      | ShJoinWorkers \<Rightarrow>
          if joined (rt_scheduler rt) then Some (s\<lparr>sy_shutdown := ShStopPool\<rparr>) else None
      | ShStopPool \<Rightarrow>
          Some (s\<lparr>sy_rt := rt\<lparr>rt_compute := pool_raise_stop (rt_compute rt)\<rparr>, sy_shutdown := ShDropSender\<rparr>)
      | ShDropSender \<Rightarrow>
          Some (s\<lparr>sy_rt := rt\<lparr>rt_compute := pool_take_sender (on_tasks A) (rt_compute rt)\<rparr>,
            sy_shutdown := ShJoinPool\<rparr>)
      | ShJoinPool \<Rightarrow> if pool_joined (rt_compute rt) then Some (s\<lparr>sy_shutdown := ShDone\<rparr>) else None
      | ShDone \<Rightarrow> None)"

section \<open>Actors on workers\<close>

text \<open>
  The closure of an ended loop is dropped, with it the sender of the compute pool its
  context holds, and the task returns to the worker or unwinds it.
\<close>

definition drop_closure ::
  "('c, 'r, 'q, 'p, 'v) apis \<Rightarrow> ('c \<Rightarrow> 'v envelope chan_view) \<Rightarrow> 's actor_loop
    \<Rightarrow> ('c, 'r, 'q, 'p, 'v) world \<Rightarrow> ('c, 'r, 'q, 'p, 'v) world" where
  "drop_closure A view lp w =
     (let w' = close_loop (on_mailbox A) view (on_reply A) lp w; p = wd_pool w'
      in if cx_compute_sender (al_ctx lp)
         then w'\<lparr>wd_pool := p\<lparr>cp_queue := ch_drop_sender (on_tasks A) (cp_queue p)\<rparr>\<rparr>
         else w')"

definition task_returns :: "nat \<Rightarrow> 't \<Rightarrow> 't sched \<Rightarrow> 't sched" where
  "task_returns i t sc = (set_pc i AtTop sc)\<lparr>sc_done := sc_done sc @ [t]\<rparr>"

definition task_unwinds :: "nat \<Rightarrow> 't \<Rightarrow> 't sched \<Rightarrow> 't sched" where
  "task_unwinds i t sc = (set_pc i Crashed sc)\<lparr>sc_panicked := sc_panicked sc @ [t]\<rparr>"

definition on_worker :: "nat \<Rightarrow> chan_ref \<Rightarrow> ('v, 's) athread \<Rightarrow> ('c, 'r, 'q, 'p, 'v, 's) system \<Rightarrow> bool" where
  "on_worker i r th s \<longleftrightarrow> i < length (sc_workers (rt_scheduler (sy_rt s)))
     \<and> sc_workers (rt_scheduler (sy_rt s)) ! i = Running r \<and> sy_threads s r = Some th"

fun receiving :: "('v, 's) apc \<Rightarrow> bool" where
  "receiving DrainRecv = True"
| "receiving TimedRecv = True"
| "receiving _ = False"

text \<open>
  \<open>sys_move\<close> is the step relation without its histories; its label names the mailbox a
  receive was tried on.
\<close>

inductive sys_move ::
  "('c, 'r, 'q, 'p, 'v) apis \<Rightarrow> ('c \<Rightarrow> 'v envelope chan_view) \<Rightarrow> ('q \<Rightarrow> 'v task chan_view)
    \<Rightarrow> ('s \<Rightarrow> type_id) \<Rightarrow> ('v, 's) behaviour \<Rightarrow> ('c, 'r, 'q, 'p, 'v, 's) system \<Rightarrow> chan_ref option
    \<Rightarrow> ('c, 'r, 'q, 'p, 'v, 's) system \<Rightarrow> bool"
  for A view qview ty handle where
  spawned: "sy_shutdown s = ShIdle \<or> sy_shutdown s = ShDone \<Longrightarrow> unguarded s \<Longrightarrow>
     rt_spawn (on_mailbox A) (on_tasks A) a (sy_rt s) = (Inr i, rt, Some lp) \<Longrightarrow>
     sys_move A view qview ty handle s None
       (s\<lparr>sy_rt := rt, sy_threads := (sy_threads s)(al_rx lp \<mapsto> \<lparr>at_loop = lp, at_pc = LoopTop\<rparr>)\<rparr>)"
| client: "sy_shutdown s = ShIdle \<or> sy_shutdown s = ShDone \<Longrightarrow> client_op A (sy_rt s) rt \<Longrightarrow>
     sys_move A view qview ty handle s None (s\<lparr>sy_rt := rt\<rparr>)"
| handles: "handle_op A (world_of (sy_rt s)) w \<Longrightarrow>
     sys_move A view qview ty handle s None (s\<lparr>sy_rt := set_world w (sy_rt s)\<rparr>)"
| worker: "i < length (sc_workers (rt_scheduler (sy_rt s))) \<Longrightarrow>
     worker_step i (rt_scheduler (sy_rt s)) = Some sc \<Longrightarrow>
     sys_move A view qview ty handle s None (s\<lparr>sy_rt := (sy_rt s)\<lparr>rt_scheduler := sc\<rparr>\<rparr>)"
| actor: "on_worker i r th s \<Longrightarrow>
     thread_next A ty handle (rt_stop (sy_rt s)) inp th (world_of (sy_rt s)) = Some (th', w) \<Longrightarrow>
     sys_move A view qview ty handle s (if receiving (at_pc th) then Some r else None)
       (s\<lparr>sy_rt := set_world w (sy_rt s), sy_threads := (sy_threads s)(r \<mapsto> th')\<rparr>)"
| left: "on_worker i r th s \<Longrightarrow> at_pc th = LoopLeft \<Longrightarrow>
     sys_move A view qview ty handle s None
       (s\<lparr>sy_rt := (set_world (drop_closure A view (at_loop th) (world_of (sy_rt s))) (sy_rt s))
            \<lparr>rt_scheduler := task_returns i r (rt_scheduler (sy_rt s))\<rparr>,
          sy_threads := (sy_threads s)(r := None)\<rparr>)"
| unwound: "on_worker i r th s \<Longrightarrow> at_pc th = LoopUnwound \<Longrightarrow>
     sys_move A view qview ty handle s None
       (s\<lparr>sy_rt := (set_world (drop_closure A view (at_loop th) (world_of (sy_rt s))) (sy_rt s))
            \<lparr>rt_scheduler := task_unwinds i r (rt_scheduler (sy_rt s))\<rparr>,
          sy_threads := (sy_threads s)(r := None)\<rparr>)"
| timer: "timer_next (on_mailbox A) reading (timer_view 0 {} s) = Some t \<Longrightarrow>
     sys_move A view qview ty handle s None (set_timer_view t s)"
| pool: "i < length (cp_workers (rt_compute (sy_rt s))) \<Longrightarrow>
     worker_next (on_tasks A) qview (on_result A) i (rt_compute (sy_rt s)) = Some p \<Longrightarrow>
     sys_move A view qview ty handle s None (s\<lparr>sy_rt := (sy_rt s)\<lparr>rt_compute := p\<rparr>\<rparr>)"
| shut: "sy_shutdown s = ShIdle \<or> sy_shutdown s = ShDone \<Longrightarrow>
     sys_move A view qview ty handle s None
       (s\<lparr>sy_rt := (sy_rt s)\<lparr>rt_stop := True\<rparr>, sy_shutdown := ShWait\<rparr>)"
| shutting: "shutdown_next A s = Some t \<Longrightarrow> sys_move A view qview ty handle s None t"

inductive_cases sys_moveE: "sys_move A view qview ty handle s took t"

section \<open>Histories\<close>

definition queue_at :: "('c \<Rightarrow> 'm chan_view) \<Rightarrow> 'c net \<Rightarrow> chan_ref \<Rightarrow> 'm list" where
  "queue_at view n r = (case st_map (nt_store n) r of None \<Rightarrow> [] | Some c \<Rightarrow> cv_queue (view c))"

text \<open>What a step appended to each mailbox, and what it received from one.\<close>

definition accept ::
  "('c \<Rightarrow> 'm chan_view) \<Rightarrow> 'c net \<Rightarrow> 'c net \<Rightarrow> (chan_ref \<Rightarrow> 'm list) \<Rightarrow> chan_ref \<Rightarrow> 'm list" where
  "accept view n n' acc = (\<lambda>r. acc r @ drop (length (queue_at view n r)) (queue_at view n' r))"

definition receive ::
  "('c \<Rightarrow> 'm chan_view) \<Rightarrow> 'c net \<Rightarrow> chan_ref option \<Rightarrow> (chan_ref \<Rightarrow> 'm list) \<Rightarrow> chan_ref \<Rightarrow> 'm list" where
  "receive view n took got =
     (case took of None \<Rightarrow> got | Some r \<Rightarrow> got(r := got r @ take 1 (queue_at view n r)))"

definition sys_step ::
  "('c, 'r, 'q, 'p, 'v) apis \<Rightarrow> ('c \<Rightarrow> 'v envelope chan_view) \<Rightarrow> ('q \<Rightarrow> 'v task chan_view)
    \<Rightarrow> ('s \<Rightarrow> type_id) \<Rightarrow> ('v, 's) behaviour \<Rightarrow> ('c, 'r, 'q, 'p, 'v, 's) system
    \<Rightarrow> ('c, 'r, 'q, 'p, 'v, 's) system \<Rightarrow> bool" where
  "sys_step A view qview ty handle s t \<longleftrightarrow>
     (\<exists>took u. sys_move A view qview ty handle s took u
       \<and> t = u\<lparr>sy_accepted := accept view (rt_net (sy_rt s)) (rt_net (sy_rt u)) (sy_accepted s),
               sy_handled := receive view (rt_net (sy_rt s)) took (sy_handled s)\<rparr>)"

text \<open>A runtime of positive mailbox capacity, just created.\<close>

definition sys_init ::
  "('c, 'r, 'q, 'p, 'v) apis \<Rightarrow> ('c, 'r, 'q, 'p, 'v, 's) system \<Rightarrow> bool" where
  "sys_init A s \<longleftrightarrow> (\<exists>par tasks config. with_config (on_tasks A) par 0 tasks config = Inr (sy_rt s)
       \<and> 0 < cfg_mailbox_capacity config \<and> 0 < num_workers par)
     \<and> sy_threads s = Map.empty \<and> sy_timer s = TkTop \<and> sy_fired s = [] \<and> sy_shutdown s = ShIdle
     \<and> sy_accepted s = (\<lambda>_. []) \<and> sy_handled s = (\<lambda>_. [])"

end
