(* ===== verification/SystemMail.thy ===== *)
theory SystemMail
  imports System
begin

text \<open>
  What the steps of the program do to the mailboxes, and the invariant that keeps the
  account of their messages.
\<close>

section \<open>Sends only append\<close>

definition appended :: "'m chan_view \<Rightarrow> 'm chan_view \<Rightarrow> bool" where
  "appended v v' \<longleftrightarrow> (\<exists>xs. v' = v\<lparr>cv_queue := cv_queue v @ xs\<rparr>
     \<and> (cv_receivers v = 0 \<longrightarrow> xs = [])
     \<and> (\<forall>k. cv_bound v = Some k \<and> length (cv_queue v) \<le> k \<longrightarrow> length (cv_queue v @ xs) \<le> k))"

definition grows :: "('c \<Rightarrow> 'm chan_view) \<Rightarrow> 'c net \<Rightarrow> 'c net \<Rightarrow> bool" where
  "grows view n n' \<longleftrightarrow> nt_senders n' = nt_senders n \<and> nt_poisoned n' = nt_poisoned n
     \<and> st_next (nt_store n') = st_next (nt_store n)
     \<and> (\<forall>r. rel_option (\<lambda>c c'. appended (view c) (view c')) (st_map (nt_store n) r) (st_map (nt_store n') r))
     \<and> (\<forall>r. r \<notin> ran (nt_senders n) \<longrightarrow> st_map (nt_store n') r = st_map (nt_store n) r)"

lemma appended_refl [simp]: "appended v v"
  by (auto simp: appended_def intro!: exI [of _ "[]"])

lemma appended_trans:
  assumes "appended u v" and "appended v w"
  shows "appended u w"
proof -
  obtain xs where v: "v = u\<lparr>cv_queue := cv_queue u @ xs\<rparr>" and x: "cv_receivers u = 0 \<longrightarrow> xs = []"
    "\<forall>k. cv_bound u = Some k \<and> length (cv_queue u) \<le> k \<longrightarrow> length (cv_queue u @ xs) \<le> k"
    using assms(1) unfolding appended_def by (elim exE conjE)
  obtain ys where w: "w = v\<lparr>cv_queue := cv_queue v @ ys\<rparr>" and y: "cv_receivers v = 0 \<longrightarrow> ys = []"
    "\<forall>k. cv_bound v = Some k \<and> length (cv_queue v) \<le> k \<longrightarrow> length (cv_queue v @ ys) \<le> k"
    using assms(2) unfolding appended_def by (elim exE conjE)
  show ?thesis
    unfolding appended_def using x y by (intro exI [of _ "xs @ ys"]) (simp add: v w)
qed

lemma appended_one:
  assumes "0 < cv_receivers v" and "\<not> cv_full v"
  shows "appended v (v\<lparr>cv_queue := cv_queue v @ [m]\<rparr>)"
  using assms by (auto simp: appended_def cv_full_def intro!: exI [of _ "[m]"])

lemma grows_refl [simp]: "grows view n n"
  by (simp add: grows_def option.rel_refl)

lemma grows_trans: "grows view n n' \<Longrightarrow> grows view n' n'' \<Longrightarrow> grows view n n''"
  unfolding grows_def
proof (elim conjE, intro conjI allI)
  fix r
  let ?R = "rel_option (\<lambda>c c'. appended (view c) (view c'))"
  assume "\<forall>r. ?R (st_map (nt_store n) r) (st_map (nt_store n') r)"
    and "\<forall>r. ?R (st_map (nt_store n') r) (st_map (nt_store n'') r)"
  then have "?R (st_map (nt_store n) r) (st_map (nt_store n') r)"
    "?R (st_map (nt_store n') r) (st_map (nt_store n'') r)" by blast+
  then show "?R (st_map (nt_store n) r) (st_map (nt_store n'') r)"
    by (cases "st_map (nt_store n) r"; cases "st_map (nt_store n') r"; cases "st_map (nt_store n'') r")
       (auto intro: appended_trans)
qed simp_all

lemma grows_put:
  assumes "st_map (nt_store n) r = Some c" and "appended (view c) (view c')" and "r \<in> ran (nt_senders n)"
  shows "grows view n (put_channel r c' n)"
  using assms by (auto simp: grows_def put_channel_def option.rel_refl)

text \<open>The two sends of the network, on buffered channels.\<close>

definition all_buffered :: "('c \<Rightarrow> 'm chan_view) \<Rightarrow> 'c net \<Rightarrow> bool" where
  "all_buffered view n \<longleftrightarrow> (\<forall>r c. st_map (nt_store n) r = Some c \<longrightarrow> buffered (view c))"

lemma net_send_grows:
  assumes "chan api view" and "all_buffered view n" and "net_send api target env n = Some (r, n')"
  shows "grows view n n'"
proof (cases "find_sender target n")
  case (Inl e)
  then show ?thesis using assms(3) by (simp add: net_send_def)
next
  case (Inr x)
  obtain q c where x: "x = (q, c)" by fastforce
  then have c: "st_map (nt_store n) q = Some c" "q \<in> ran (nt_senders n)"
    using Inr by (auto simp: find_sender_Inr_iff intro: ranI)
  have b: "buffered (view c)" using assms(2) c(1) by (simp add: all_buffered_def)
  show ?thesis
    using net_send_cases [OF assms(1) Inr [unfolded x] b, of env] assms(3) c
      appended_one [of "view c" env] grows_put [of n q c view]
    by (auto split: if_splits)
qed

lemma net_try_send_grows:
  assumes "chan api view" and "all_buffered view n" and "net_try_send api target env n = (r, n')"
  shows "grows view n n'"
proof (cases "find_sender target n")
  case (Inl e)
  then show ?thesis using assms(3) by (simp add: net_try_send_def)
next
  case (Inr x)
  obtain q c where x: "x = (q, c)" by fastforce
  then have c: "st_map (nt_store n) q = Some c" "q \<in> ran (nt_senders n)"
    using Inr by (auto simp: find_sender_Inr_iff intro: ranI)
  have b: "buffered (view c)" using assms(2) c(1) by (simp add: all_buffered_def)
  show ?thesis
    using net_try_send_cases [OF assms(1) Inr [unfolded x] b, of env] assms(3) c
      appended_one [of "view c" env] grows_put [of n q c view]
    by (auto split: if_splits)
qed

section \<open>The account of the mailboxes\<close>

text \<open>
  Of one mailbox: its bound, how many handles it has, and where its messages went. A live
  mailbox is one whose loop has not ended.
\<close>

definition box_ok ::
  "nat \<Rightarrow> bool \<Rightarrow> bool \<Rightarrow> 'm list \<Rightarrow> 'm list \<Rightarrow> 'm chan_view \<Rightarrow> bool" where
  "box_ok k listed live acc got v \<longleftrightarrow>
     cv_bound v = Some k \<and> length (cv_queue v) \<le> k
     \<and> cv_senders v = (if listed then 1 else 0) + (if live then 1 else 0)
     \<and> cv_receivers v = (if live then 1 else 0)
     \<and> (if live then acc = got @ cv_queue v else cv_queue v = [] \<and> take (length got) acc = got)"

definition cell_ok ::
  "('c \<Rightarrow> 'm chan_view) \<Rightarrow> nat \<Rightarrow> bool \<Rightarrow> bool \<Rightarrow> 'm list \<Rightarrow> 'm list \<Rightarrow> 'c option \<Rightarrow> bool" where
  "cell_ok view k listed live acc got x \<longleftrightarrow>
     (case x of None \<Rightarrow> acc = [] \<and> got = [] | Some c \<Rightarrow> box_ok k listed live acc got (view c))"

lemma cell_ok_simps [simp]:
  "cell_ok view k listed live acc got None \<longleftrightarrow> acc = [] \<and> got = []"
  "cell_ok view k listed live acc got (Some c) \<longleftrightarrow> box_ok k listed live acc got (view c)"
  by (simp_all add: cell_ok_def)

definition mail_ok ::
  "('c \<Rightarrow> 'm chan_view) \<Rightarrow> nat \<Rightarrow> chan_ref set \<Rightarrow> (chan_ref \<Rightarrow> 'm list) \<Rightarrow> (chan_ref \<Rightarrow> 'm list)
    \<Rightarrow> 'c net \<Rightarrow> bool" where
  "mail_ok view k live acc got n \<longleftrightarrow> 0 < k \<and> net_ok n \<and> \<not> nt_poisoned n
     \<and> inj_on (nt_senders n) (dom (nt_senders n))
     \<and> live \<subseteq> dom (st_map (nt_store n))
     \<and> (\<forall>r. cell_ok view k (r \<in> ran (nt_senders n)) (r \<in> live) (acc r) (got r) (st_map (nt_store n) r))"

lemma mail_okD:
  assumes "mail_ok view k live acc got n"
  shows "net_ok n" "\<not> nt_poisoned n" "0 < k" "all_buffered view n"
    and "cell_ok view k (r \<in> ran (nt_senders n)) (r \<in> live) (acc r) (got r) (st_map (nt_store n) r)"
    and "st_map (nt_store n) r = Some c \<Longrightarrow>
      box_ok k (r \<in> ran (nt_senders n)) (r \<in> live) (acc r) (got r) (view c)"
    and "r \<in> live \<Longrightarrow> \<exists>c. st_map (nt_store n) r = Some c"
proof -
  have all: "cell_ok view k (q \<in> ran (nt_senders n)) (q \<in> live) (acc q) (got q) (st_map (nt_store n) q)" for q
    using assms by (simp add: mail_ok_def)
  then show "cell_ok view k (r \<in> ran (nt_senders n)) (r \<in> live) (acc r) (got r) (st_map (nt_store n) r)" .
  show "net_ok n" "\<not> nt_poisoned n" and k: "0 < k" using assms by (simp_all add: mail_ok_def)
  show box: "st_map (nt_store n) q = Some c \<Longrightarrow>
      box_ok k (q \<in> ran (nt_senders n)) (q \<in> live) (acc q) (got q) (view c)" for q c
    using all [of q] by simp
  show "all_buffered view n" using box k by (auto simp: all_buffered_def buffered_def box_ok_def)
  show "r \<in> live \<Longrightarrow> \<exists>c. st_map (nt_store n) r = Some c" using assms by (auto simp: mail_ok_def)
qed

lemma net_ok_iff: "net_ok n \<longleftrightarrow> dom (st_map (nt_store n)) \<subseteq> {..<st_next (nt_store n)}
    \<and> ran (nt_senders n) \<subseteq> dom (st_map (nt_store n))"
  by (auto simp: net_ok_def store_ok_def)

lemma accept_same: "st_map (nt_store n') r = st_map (nt_store n) r \<Longrightarrow> accept view n n' acc r = acc r"
  by (simp add: accept_def queue_at_def split: option.splits)

lemma accept_refl [simp]: "accept view n n acc = acc"
  by (rule ext) (simp add: accept_same)

lemma box_grows:
  assumes "box_ok k listed live acc got v" and "appended v v'"
  shows "box_ok k listed live (acc @ drop (length (cv_queue v)) (cv_queue v')) got v'"
  using assms by (auto simp: box_ok_def appended_def split: if_splits)

lemma mail_grows:
  assumes ok: "mail_ok view k live acc got n" and g: "grows view n n'"
  shows "mail_ok view k live (accept view n n' acc) got n'"
proof -
  have map: "rel_option (\<lambda>c c'. appended (view c) (view c')) (st_map (nt_store n) r) (st_map (nt_store n') r)"
    and same: "nt_senders n' = nt_senders n" "nt_poisoned n' = nt_poisoned n"
      "st_next (nt_store n') = st_next (nt_store n)" for r
    using g by (auto simp: grows_def)
  have d: "dom (st_map (nt_store n')) = dom (st_map (nt_store n))"
    using map by (auto simp: dom_def option.rel_sel)
  have "cell_ok view k (r \<in> ran (nt_senders n')) (r \<in> live) (accept view n n' acc r) (got r)
      (st_map (nt_store n') r)" for r
  proof (cases "st_map (nt_store n) r")
    case None
    then have "st_map (nt_store n') r = None" using map [of r] by simp
    then show ?thesis
      using mail_okD(5) [OF ok, of r] None by (simp add: accept_same)
  next
    case (Some c)
    then obtain c' where c': "st_map (nt_store n') r = Some c'" and a: "appended (view c) (view c')"
      using map [of r] by (cases "st_map (nt_store n') r") auto
    show ?thesis
      using box_grows [OF mail_okD(6) [OF ok Some] a] Some c'
      by (simp add: accept_def queue_at_def same)
  qed
  then show ?thesis using ok d by (simp add: mail_ok_def same net_ok_def store_ok_def)
qed

text \<open>A receive from a live mailbox.\<close>

lemma mail_take:
  assumes ok: "mail_ok view k live acc got n" and c: "st_map (nt_store n) r = Some c" and r: "r \<in> live"
    and q: "cv_queue (view c) = m # ms" and c': "view c' = (view c)\<lparr>cv_queue := ms\<rparr>"
  shows "mail_ok view k live (accept view n (put_channel r c' n) acc) (got(r := got r @ [m])) (put_channel r c' n)"
proof -
  let ?n = "put_channel r c' n"
  have "accept view n ?n acc = acc"
    by (rule ext) (use c c' q in \<open>auto simp: accept_def queue_at_def split: option.splits\<close>)
  moreover have "net_ok ?n" using mail_okD(1) [OF ok] c by (intro net_ok_put) simp_all
  moreover have "box_ok k (r \<in> ran (nt_senders n)) True (acc r) (got r @ [m]) (view c')"
    using mail_okD(6) [OF ok c] r q c' by (auto simp: box_ok_def)
  ultimately show ?thesis
    using ok r by (auto simp: mail_ok_def)
qed

text \<open>The end of a loop closes its mailbox.\<close>

lemma mail_close:
  assumes ch: "chan api view" and ok: "mail_ok view k live acc got n"
    and c: "st_map (nt_store n) r = Some c" and r: "r \<in> live"
  defines "n' \<equiv> put_channel r (ch_drop_sender api (ch_drop_receiver api c)) n"
  shows "mail_ok view k (live - {r}) (accept view n n' acc) got n'"
proof -
  have v: "view (ch_drop_sender api (ch_drop_receiver api c)) = (view c)
      \<lparr>cv_queue := [], cv_receivers := 0, cv_senders := cv_senders (view c) - 1\<rparr>"
    using mail_okD(6) [OF ok c] r
    by (simp add: chan.drop_sender_view [OF ch] chan.drop_receiver_view [OF ch] box_ok_def)
  have "accept view n n' acc = acc"
    by (rule ext) (use c v in \<open>auto simp: accept_def queue_at_def n'_def split: option.splits\<close>)
  moreover have "net_ok n'" using mail_okD(1) [OF ok] c unfolding n'_def by (intro net_ok_put) simp_all
  moreover have "box_ok k (r \<in> ran (nt_senders n)) False (acc r) (got r) (view (ch_drop_sender api (ch_drop_receiver api c)))"
    using mail_okD(6) [OF ok c] r by (auto simp: box_ok_def v)
  ultimately show ?thesis using ok by (auto simp: mail_ok_def n'_def)
qed

text \<open>Clearing the map of senders.\<close>

lemma mail_clear:
  assumes ch: "chan api view" and ok: "mail_ok view k live acc got n"
  shows "mail_ok view k live (accept view n (clear_senders api n) acc) got (clear_senders api n)"
proof -
  let ?n = "clear_senders api n"
  have m: "st_map (nt_store ?n) r = (if r \<in> ran (nt_senders n) then map_option (ch_drop_sender api)
      (st_map (nt_store n) r) else st_map (nt_store n) r)" for r
    by (simp add: clear_senders_def)
  have d: "dom (st_map (nt_store ?n)) = dom (st_map (nt_store n))" by (auto simp: m split: if_splits)
  have q: "queue_at view ?n r = queue_at view n r" for r
    by (auto simp: queue_at_def m chan.drop_sender_view [OF ch] split: option.splits)
  have "accept view n ?n acc = acc" by (rule ext) (simp add: accept_def q)
  moreover have "net_ok ?n"
    using mail_okD(1) [OF ok] unfolding net_ok_iff d by (simp add: clear_senders_def)
  moreover have "cell_ok view k False (r \<in> live) (acc r) (got r) (st_map (nt_store ?n) r)" for r
  proof (cases "st_map (nt_store n) r")
    case None
    then show ?thesis using mail_okD(5) [OF ok, of r] by (simp add: m)
  next
    case (Some c)
    then show ?thesis
      using mail_okD(6) [OF ok Some] by (auto simp: m box_ok_def chan.drop_sender_view [OF ch])
  qed
  moreover have "nt_senders ?n = Map.empty" "nt_poisoned ?n = nt_poisoned n"
    by (simp_all add: clear_senders_def)
  ultimately show ?thesis using ok d by (simp add: mail_ok_def)
qed

text \<open>A new mailbox; the sender its id had before is dropped.\<close>

lemma mail_open:
  assumes ch: "chan api view" and ok: "mail_ok view k live acc got n"
    and op: "open_mailbox api k i n = (r, n')"
  shows "mail_ok view k (insert r live) (accept view n n' acc) got n' \<and> r = st_next (nt_store n)
    \<and> r \<notin> live \<and> st_next (nt_store n') = Suc (st_next (nt_store n))"
proof -
  let ?c = "ch_clone_sender api (ch_bounded api k)"
  let ?S = "nt_senders n"
  have r: "r = st_next (nt_store n)" and s: "nt_senders n' = ?S(i \<mapsto> r)" "nt_poisoned n' = nt_poisoned n"
    and nx: "st_next (nt_store n') = Suc (st_next (nt_store n))"
    using op by (auto simp: open_mailbox_def store_new_def Let_def split: option.splits)
  have fresh: "st_map (nt_store n) r = None"
    using mail_okD(1) [OF ok] r by (auto simp: net_ok_def store_ok_def dom_def)
  have nran: "r \<notin> ran ?S" using mail_okD(1) [OF ok] fresh by (auto simp: net_ok_def)
  have m: "st_map (nt_store n') x = (if x = r then Some ?c
      else if ?S i = Some x then map_option (ch_drop_sender api) (st_map (nt_store n) x)
      else st_map (nt_store n) x)" for x
    using op nran by (auto simp: open_mailbox_def store_new_def Let_def ran_def split: option.splits)
  have v: "view ?c = \<lparr>cv_queue = [], cv_bound = Some k, cv_senders = 2, cv_receivers = 1\<rparr>"
    using chan.bounded_view [OF ch mail_okD(3) [OF ok]] by (simp add: chan.clone_sender_view [OF ch])
  have d: "dom (st_map (nt_store n')) = insert r (dom (st_map (nt_store n)))"
    by (auto simp: m split: if_splits)
  have old: "x \<in> ran (nt_senders n') \<longleftrightarrow> x = r \<or> x \<in> ran ?S \<and> ?S i \<noteq> Some x" for x
    using ok by (auto simp: s ran_def mail_ok_def inj_on_def dom_def)
  have q: "queue_at view n' x = queue_at view n x" if "x \<noteq> r" for x
    using that by (auto simp: queue_at_def m chan.drop_sender_view [OF ch] split: option.splits)
  have a: "accept view n n' acc = acc"
  proof
    fix x
    show "accept view n n' acc x = acc x"
      by (cases "x = r") (simp_all add: accept_def q, simp add: queue_at_def m v fresh)
  qed
  have "r \<notin> live" using ok fresh by (auto simp: mail_ok_def)
  moreover have "net_ok n'"
    using mail_okD(1) [OF ok] old unfolding net_ok_iff d nx r by auto
  moreover have "inj_on (nt_senders n') (dom (nt_senders n'))"
    using ok nran by (auto simp: s mail_ok_def inj_on_def ran_def)
  moreover have "cell_ok view k (x \<in> ran (nt_senders n')) (x \<in> insert r live) (acc x) (got x)
      (st_map (nt_store n') x)" for x
  proof (cases "x = r")
    case True
    then have "acc x = [] \<and> got x = []" using mail_okD(5) [OF ok, of r] fresh by simp
    then show ?thesis using True by (simp add: m v box_ok_def old)
  next
    case new: False
    show ?thesis
    proof (cases "st_map (nt_store n) x")
      case None
      then show ?thesis using mail_okD(5) [OF ok, of x] new by (simp add: m)
    next
      case (Some c)
      have "?S i = Some x \<Longrightarrow> x \<in> ran ?S" by (rule ranI)
      then show ?thesis
        using mail_okD(6) [OF ok Some] Some new
        by (auto simp: m old box_ok_def chan.drop_sender_view [OF ch])
    qed
  qed
  ultimately show ?thesis
    using ok r nx d a by (auto simp: mail_ok_def s)
qed

section \<open>The steps of the program\<close>

lemma rt_net_world [simp]:
  "rt_net (set_world w rt) = sh_net w" "sh_net (world_of rt) = rt_net rt"
  "rt_mailbox_capacity (set_world w rt) = rt_mailbox_capacity rt"
  "rt_scheduler (set_world w rt) = rt_scheduler rt" "rt_stop (set_world w rt) = rt_stop rt"
  "rt_timer_stop (set_world w rt) = rt_timer_stop rt"
  "rt_timers (set_world w rt) = wd_timers w" "rt_compute (set_world w rt) = wd_pool w"
  "wd_timers (world_of rt) = rt_timers rt" "wd_pool (world_of rt) = rt_compute rt"
  by (simp_all add: set_world_def world_of_def rt_net_def)

lemma rt_net_update [simp]:
  "rt_net (rt\<lparr>rt_scheduler := sc\<rparr>) = rt_net rt" "rt_net (rt\<lparr>rt_compute := p\<rparr>) = rt_net rt"
  "rt_net (rt\<lparr>rt_stop := b\<rparr>) = rt_net rt" "rt_net (rt\<lparr>rt_timers := ts\<rparr>) = rt_net rt"
  "rt_net (rt\<lparr>rt_timer_stop := b\<rparr>) = rt_net rt" "rt_net (rt\<lparr>rt_actors := al\<rparr>) = rt_net rt"
  "rt_net (rt\<lparr>rt_request_counter := n\<rparr>) = rt_net rt"
  by (simp_all add: rt_net_def)

lemma drop_reply_world [simp]:
  "wd_timers (drop_reply rapi r w) = wd_timers w" "wd_pool (drop_reply rapi r w) = wd_pool w"
  by (simp_all add: drop_reply_def split: option.splits)

lemma fold_drop_reply_world [simp]:
  "wd_timers (fold (\<lambda>env. drop_reply rapi (envelope_reply env)) xs w) = wd_timers w"
  "wd_pool (fold (\<lambda>env. drop_reply rapi (envelope_reply env)) xs w) = wd_pool w"
  by (induction xs arbitrary: w) simp_all

lemma next_round_sel [simp]: "al_rx (at_loop (next_round b lp)) = al_rx lp"
  "al_ctx (at_loop (next_round b lp)) = al_ctx lp" "al_actor (at_loop (next_round b lp)) = al_actor lp"
  by (cases b; simp add: next_round_def)+

lemma open_envelope_net:
  assumes "open_envelope A ty handle b env lp w = (th', w')"
  shows "sh_net w' = sh_net w" "wd_timers w' = wd_timers w" "wd_pool w' = wd_pool w"
    "al_rx (at_loop th') = al_rx lp"
    "cx_compute_sender (al_ctx (at_loop th')) = cx_compute_sender (al_ctx lp)"
  using assms
  by (auto simp: open_envelope_def call_handler_def set_reply_sender_def Let_def
      split: envelope.splits sum.splits)

lemma act_next_net:
  assumes "act_next A inp cx a w = Some (a', w')"
  shows "sh_net w' = sh_net w"
  using assms
  by (cases a) (auto simp: act_next_def timer_outcome_def set_result_def
      split: option.splits prod.splits rust.splits)

text \<open>A step of an actor's thread on its mailbox and on the others.\<close>

lemma thread_next_net:
  assumes ch: "chan (on_mailbox A) view" and buf: "all_buffered view (sh_net w)"
    and step: "thread_next A ty handle stop inp th w = Some (th', w')"
  defines "rx \<equiv> al_rx (at_loop th)"
  shows "al_rx (at_loop th') = rx"
    and "if receiving (at_pc th)
      then (\<exists>c. st_map (nt_store (sh_net w)) rx = Some c
        \<and> (cv_queue (view c) = [] \<and> sh_net w' = sh_net w
           \<or> (\<exists>c' m ms. cv_queue (view c) = m # ms \<and> view c' = (view c)\<lparr>cv_queue := ms\<rparr>
               \<and> sh_net w' = put_channel rx c' (sh_net w))))
      else grows view (sh_net w) (sh_net w')"
proof -
  have got: "cv_queue (view c) = m # ms \<Longrightarrow> \<exists>c'. ch_try_recv (on_mailbox A) c = Inr (m, c')
      \<and> view c' = (view c)\<lparr>cv_queue := ms\<rparr>" for c m ms
    by (rule chan.try_recv_takes [OF ch])
  have timed: "cv_queue (view c) = m # ms \<Longrightarrow> \<exists>c'. ch_recv_timeout (on_mailbox A) c = Inr (m, c')
      \<and> view c' = (view c)\<lparr>cv_queue := ms\<rparr>" for c m ms
    by (rule chan.recv_timeout_takes [OF ch])
  have none: "cv_queue (view c) = [] \<Longrightarrow> st_map (nt_store (sh_net w)) rx = Some c \<Longrightarrow>
      (\<exists>e. ch_try_recv (on_mailbox A) c = Inl e) \<and> (\<exists>e. ch_recv_timeout (on_mailbox A) c = Inl e)" for c
    using buf chan.try_recv_empty [OF ch, of c] chan.recv_timeout_empty [OF ch, of c]
    by (auto simp: all_buffered_def buffered_def)
  have "al_rx (at_loop th') = rx \<and> (if receiving (at_pc th)
      then (\<exists>c. st_map (nt_store (sh_net w)) rx = Some c
        \<and> (cv_queue (view c) = [] \<and> sh_net w' = sh_net w
           \<or> (\<exists>c' m ms. cv_queue (view c) = m # ms \<and> view c' = (view c)\<lparr>cv_queue := ms\<rparr>
               \<and> sh_net w' = put_channel rx c' (sh_net w))))
      else grows view (sh_net w) (sh_net w'))"
  proof (cases "at_pc th")
    case DrainRecv
    then obtain c where c: "st_map (nt_store (sh_net w)) rx = Some c"
      using step by (auto simp: thread_next_def rx_def Let_def split: option.splits)
    show ?thesis
    proof (cases "cv_queue (view c)")
      case Nil
      then show ?thesis
        using none [OF Nil c] c step DrainRecv by (auto simp: thread_next_def rx_def Let_def)
    next
      case (Cons m ms)
      then obtain c' where "ch_try_recv (on_mailbox A) c = Inr (m, c')" "view c' = (view c)\<lparr>cv_queue := ms\<rparr>"
        using got by blast
      then show ?thesis
        using c step DrainRecv Cons by (auto simp: thread_next_def rx_def Let_def dest: open_envelope_net(1,4) intro!: exI [of _ c'])
    qed
  next
    case TimedRecv
    then obtain c where c: "st_map (nt_store (sh_net w)) rx = Some c"
      using step by (auto simp: thread_next_def rx_def Let_def split: option.splits)
    show ?thesis
    proof (cases "cv_queue (view c)")
      case Nil
      then show ?thesis
        using none [OF Nil c] c step TimedRecv
        by (auto simp: thread_next_def rx_def Let_def split: recv_timeout_error.splits)
    next
      case (Cons m ms)
      then obtain c' where "ch_recv_timeout (on_mailbox A) c = Inr (m, c')" "view c' = (view c)\<lparr>cv_queue := ms\<rparr>"
        using timed by blast
      then show ?thesis
        using c step TimedRecv Cons by (auto simp: thread_next_def rx_def Let_def dest: open_envelope_net(1,4) intro!: exI [of _ c'])
    qed
  next
    case (InHandler b a)
    then show ?thesis
      using step by (cases a) (auto simp: thread_next_def rx_def Let_def dest: act_next_net)
  next
    case (InSend b t m k)
    then show ?thesis
      using step net_send_grows [OF ch buf] by (auto simp: thread_next_def rx_def Let_def)
  qed (use step in \<open>auto simp: thread_next_def rx_def Let_def\<close>)
  then show "al_rx (at_loop th') = rx"
    and "if receiving (at_pc th)
      then (\<exists>c. st_map (nt_store (sh_net w)) rx = Some c
        \<and> (cv_queue (view c) = [] \<and> sh_net w' = sh_net w
           \<or> (\<exists>c' m ms. cv_queue (view c) = m # ms \<and> view c' = (view c)\<lparr>cv_queue := ms\<rparr>
               \<and> sh_net w' = put_channel rx c' (sh_net w))))
      else grows view (sh_net w) (sh_net w')" by blast+
qed

lemma drop_closure_net:
  assumes "st_map (nt_store (sh_net w)) (al_rx lp) = Some c"
  shows "sh_net (drop_closure A view lp w)
    = put_channel (al_rx lp) (ch_drop_sender (on_mailbox A) (ch_drop_receiver (on_mailbox A) c)) (sh_net w)"
  using assms by (simp add: drop_closure_def close_loop_def release_loop_def Let_def)

lemma deliver_grows:
  assumes "chan api view" and "all_buffered view n" and "deliver api e n = Some (r, n')"
  shows "grows view n n'"
  using assms(3) net_send_grows [OF assms(1,2)]
  by (auto simp: deliver_def split: rust.splits if_splits sum.splits option.splits)

lemma timer_next_net:
  assumes "chan api view" and "all_buffered view (ty_net s)" and "timer_next api reading s = Some t"
  shows "grows view (ty_net s) (ty_net t)"
  using assms(3) deliver_grows [OF assms(1,2)]
  by (auto simp: timer_next_def split: tphase.splits list.splits if_splits option.splits prod.splits rust.splits)

lemma client_op_net:
  assumes ch: "chan (on_mailbox A) view" and buf: "all_buffered view (rt_net s)" and op: "client_op A s t"
  shows "grows view (rt_net s) (rt_net t)" "rt_mailbox_capacity t = rt_mailbox_capacity s"
    "rt_scheduler t = rt_scheduler s" "rt_timer_stop t = rt_timer_stop s"
  using op net_try_send_grows [OF ch buf] net_send_grows [OF ch buf]
  by (cases; auto simp: rt_send_def rt_send_blocking_def rt_request_def rt_spawn_supervisor_def
      supervisor_pick_def supervisor_insert_def rt_schedule_timer_def rt_schedule_interval_def
      rt_cancel_timer_def rt_timer_def fetch_add1_def Let_def enlist_def set_net_def set_replies_def
      rt_net_def split: prod.splits sum.splits if_splits)+

lemma handle_op_net: "handle_op A w w' \<Longrightarrow> sh_net w' = sh_net w \<and> wd_timers w' = wd_timers w"
  by (cases rule: handle_op.cases) (auto simp: set_result_def)

end
