(* ===== verification/SystemInvariants.thy ===== *)
theory SystemInvariants
  imports SystemMail
begin

text \<open>
  What the whole program keeps true: the account of the mailboxes, the account of the
  tasks, and that its parts only ever take the steps of their own theories.
\<close>

section \<open>Mailboxes\<close>

definition sys_mail ::
  "('c \<Rightarrow> 'v envelope chan_view) \<Rightarrow> ('c, 'r, 'q, 'p, 'v, 's) system \<Rightarrow> bool" where
  "sys_mail view s \<longleftrightarrow>
     mail_ok view (rt_mailbox_capacity (sy_rt s)) (dom (sy_threads s)) (sy_accepted s) (sy_handled s)
       (rt_net (sy_rt s))
     \<and> (\<forall>r th. sy_threads s r = Some th \<longrightarrow> al_rx (at_loop th) = r)"

lemma rt_spawn_parts:
  assumes "rt_spawn api qapi a rt = (Inr i, rt', Some lp)"
  shows "open_mailbox api (rt_mailbox_capacity rt) i (rt_net rt) = (al_rx lp, rt_net rt')"
    "rt_mailbox_capacity rt' = rt_mailbox_capacity rt"
    "rt_scheduler rt' = sched_spawn (al_rx lp) (rt_scheduler rt)"
    "rt_timers rt' = rt_timers rt" "rt_timer_stop rt' = rt_timer_stop rt" "rt_stop rt' = rt_stop rt"
    "rt_compute rt' = (if cp_sender (rt_compute rt)
       then (rt_compute rt)\<lparr>cp_queue := ch_clone_sender qapi (cp_queue (rt_compute rt))\<rparr> else rt_compute rt)"
    "cx_compute_sender (al_ctx lp) = cp_sender (rt_compute rt)"
  using assms
  by (auto simp: rt_spawn_def Let_def enlist_def set_net_def rt_net_def actor_start_context_def
      context_new_def set_senders_def set_timer_handle_def set_compute_sender_def
      split: if_splits prod.splits)

lemma set_timer_view_sel [simp]:
  "rt_net (sy_rt (set_timer_view t s)) = ty_net t"
  "rt_timers (sy_rt (set_timer_view t s)) = ty_timers t"
  "rt_scheduler (sy_rt (set_timer_view t s)) = rt_scheduler (sy_rt s)"
  "rt_compute (sy_rt (set_timer_view t s)) = rt_compute (sy_rt s)"
  "rt_timer_stop (sy_rt (set_timer_view t s)) = rt_timer_stop (sy_rt s)"
  "rt_stop (sy_rt (set_timer_view t s)) = rt_stop (sy_rt s)"
  "rt_mailbox_capacity (sy_rt (set_timer_view t s)) = rt_mailbox_capacity (sy_rt s)"
  "sy_threads (set_timer_view t s) = sy_threads s" "sy_shutdown (set_timer_view t s) = sy_shutdown s"
  "sy_timer (set_timer_view t s) = ty_phase t"
  "sy_accepted (set_timer_view t s) = sy_accepted s" "sy_handled (set_timer_view t s) = sy_handled s"
  by (simp_all add: set_timer_view_def set_net_def rt_net_def)

lemma shutdown_next_parts:
  assumes "shutdown_next A s = Some t"
  shows "sy_threads t = sy_threads s" "rt_mailbox_capacity (sy_rt t) = rt_mailbox_capacity (sy_rt s)"
    "rt_timers (sy_rt t) = rt_timers (sy_rt s)" "sy_timer t = sy_timer s" "sy_fired t = sy_fired s"
    "sy_reading t = sy_reading s" "rt_stop (sy_rt t) = rt_stop (sy_rt s)"
    "rt_net (sy_rt t) = rt_net (sy_rt s) \<or>
       (unguarded s \<and> sy_shutdown s = ShWait \<and> rt_net (sy_rt t) = clear_senders (on_mailbox A) (rt_net (sy_rt s)))"
    "rt_scheduler (sy_rt t) = rt_scheduler (sy_rt s) \<or> rt_scheduler (sy_rt t) = sched_stop (rt_scheduler (sy_rt s))"
  using assms
  by (auto simp: shutdown_next_def Let_def set_net_def rt_net_def
      split: shut_pc.splits if_splits tphase.splits)

lemma sys_mail_step:
  assumes ch: "chan (on_mailbox A) view" and inv: "sys_mail view s"
    and step: "sys_step A view qview ty handle s t"
  shows "sys_mail view t"
proof -
  obtain took u where move: "sys_move A view qview ty handle s took u"
    and t: "t = u\<lparr>sy_accepted := accept view (rt_net (sy_rt s)) (rt_net (sy_rt u)) (sy_accepted s),
      sy_handled := receive view (rt_net (sy_rt s)) took (sy_handled s)\<rparr>"
    using step by (auto simp: sys_step_def)
  let ?n = "rt_net (sy_rt s)" and ?k = "rt_mailbox_capacity (sy_rt s)" and ?live = "dom (sy_threads s)"
  have ok: "mail_ok view ?k ?live (sy_accepted s) (sy_handled s) ?n"
    and rx: "\<And>r th. sy_threads s r = Some th \<Longrightarrow> al_rx (at_loop th) = r"
    using inv by (simp_all add: sys_mail_def)
  have buf: "all_buffered view ?n" using mail_okD(4) [OF ok] .
  have grow: "sys_mail view t"
    if "grows view ?n (rt_net (sy_rt u))" "rt_mailbox_capacity (sy_rt u) = ?k" "took = None"
      "dom (sy_threads u) = ?live" "\<And>r th. sy_threads u r = Some th \<Longrightarrow> al_rx (at_loop th) = r"
    using mail_grows [OF ok that(1)] that(2-5) by (simp add: sys_mail_def t receive_def)
  have idle: "sys_mail view t"
    if "rt_net (sy_rt u) = ?n" "rt_mailbox_capacity (sy_rt u) = ?k" "took = None" "sy_threads u = sy_threads s"
    using grow that rx by simp
  have closing: "sys_mail view t"
    if d: "sy_threads s r = Some th" "took = None" "sy_threads u = (sy_threads s)(r := None)"
      "rt_net (sy_rt u) = sh_net (drop_closure A view (at_loop th) (world_of (sy_rt s)))"
      "rt_mailbox_capacity (sy_rt u) = ?k" for r th
  proof -
    obtain c where c: "st_map (nt_store ?n) r = Some c" using mail_okD(7) [OF ok, of r] d(1) by blast
    then have "rt_net (sy_rt u) = put_channel r (ch_drop_sender (on_mailbox A) (ch_drop_receiver (on_mailbox A) c)) ?n"
      using drop_closure_net [of "world_of (sy_rt s)" "at_loop th" c A view] rx [OF d(1)] d(4) by simp
    moreover have "r \<in> ?live" "dom (sy_threads u) = ?live - {r}" using d by auto
    ultimately show ?thesis
      using mail_close [OF ch ok c] d(2,3,5) rx
      by (simp add: sys_mail_def t receive_def)
  qed
  show ?thesis
    using move
  proof cases
    case (spawned a i rt lp)
    note sp = rt_spawn_parts [OF spawned(5)]
    from mail_open [OF ch ok sp(1)] sp(2) rx spawned(1,2) show ?thesis
      by (auto simp: sys_mail_def t receive_def)
  next
    case (client rt)
    then show ?thesis using client_op_net [OF ch buf client(4)] rx by (intro grow) simp_all
  next
    case (handles w)
    then show ?thesis using handle_op_net [OF handles(3)] by (intro idle) simp_all
  next
    case (actor i r th inp th' w)
    have th: "sy_threads s r = Some th" using actor(3) by (simp add: on_worker_def)
    then have r: "al_rx (at_loop th) = r" and live: "r \<in> ?live" using rx by auto
    note net = thread_next_net [OF ch _ actor(4), simplified, OF buf]
    show ?thesis
    proof (cases "receiving (at_pc th)")
      case False
      then show ?thesis using net actor r rx live by (intro grow) (auto split: if_splits)
    next
      case True
      then obtain c where c: "st_map (nt_store ?n) r = Some c"
        and cases: "cv_queue (view c) = [] \<and> sh_net w = ?n
          \<or> (\<exists>c' m ms. cv_queue (view c) = m # ms \<and> view c' = (view c)\<lparr>cv_queue := ms\<rparr>
            \<and> sh_net w = put_channel r c' ?n)"
        using net(2) r by auto
      have q: "queue_at view ?n r = cv_queue (view c)" by (simp add: queue_at_def c)
      from cases show ?thesis
      proof
        assume "cv_queue (view c) = [] \<and> sh_net w = ?n"
        then show ?thesis
          using ok actor True q r rx net(1) live
          by (auto simp: sys_mail_def t receive_def insert_absorb)
      next
        assume "\<exists>c' m ms. cv_queue (view c) = m # ms \<and> view c' = (view c)\<lparr>cv_queue := ms\<rparr>
            \<and> sh_net w = put_channel r c' ?n"
        then obtain c' m ms where x: "cv_queue (view c) = m # ms" "view c' = (view c)\<lparr>cv_queue := ms\<rparr>"
          "sh_net w = put_channel r c' ?n" by blast
        from mail_take [OF ok c live x(1,2)] show ?thesis
          using actor True q r rx net(1) live x
          by (auto simp: sys_mail_def t receive_def insert_absorb)
      qed
    qed
  next
    case (left i r th)
    then show ?thesis by (intro closing [of r th]) (simp_all add: on_worker_def)
  next
    case (unwound i r th)
    then show ?thesis by (intro closing [of r th]) (simp_all add: on_worker_def)
  next
    case (timer reading y)
    have "grows view ?n (ty_net y)"
      using timer_next_net [OF ch _ timer(3)] buf by (simp add: timer_view_def)
    then show ?thesis using timer rx by (intro grow) simp_all
  next
    case shutting
    note p = shutdown_next_parts [OF shutting(2)]
    from p(8) show ?thesis
    proof
      assume "rt_net (sy_rt u) = ?n"
      then show ?thesis using p shutting by (intro idle) simp_all
    next
      assume "unguarded s \<and> sy_shutdown s = ShWait \<and> rt_net (sy_rt u) = clear_senders (on_mailbox A) ?n"
      then show ?thesis
        using mail_clear [OF ch ok] p rx shutting by (simp add: sys_mail_def t receive_def)
    qed
  qed (intro idle; simp)+
qed

section \<open>Tasks\<close>

text \<open>
  Every mailbox ever opened is a task of the scheduler, in order; the loops that have not
  ended are the tasks that neither returned nor panicked.
\<close>

definition sys_tasks :: "('c, 'r, 'q, 'p, 'v, 's) system \<Rightarrow> bool" where
  "sys_tasks s \<longleftrightarrow> (let sc = rt_scheduler (sy_rt s) in
     sched_inv sc \<and> sc_spawned sc = [0..<st_next (nt_store (rt_net (sy_rt s)))]
     \<and> dom (sy_threads s) = set (sc_spawned sc) - set (sc_done sc) - set (sc_panicked sc))"

text \<open>A task that is running is nowhere else.\<close>

lemma running_held:
  assumes "i < length ws" and "ws ! i = Running r"
  shows "mset (concat (map held ws)) = {#r#} + mset (concat (map held (ws[i := AtTop])))"
  using held_update [OF assms(1), of AtTop] assms(2) by simp

lemma running_alone:
  assumes inv: "sched_inv sc" and d: "distinct (sc_spawned sc)"
    and i: "i < length (sc_workers sc)" "sc_workers sc ! i = Running r"
  shows "r \<in> set (sc_spawned sc)" "r \<notin> set (sc_done sc)" "r \<notin> set (sc_panicked sc)"
    "r \<notin> set (concat (sc_queues sc))"
    "j < length (sc_workers sc) \<Longrightarrow> r \<in> set (held (sc_workers sc ! j)) \<Longrightarrow> j = i"
proof -
  let ?rest = "mset (concat (sc_queues sc)) + mset (concat (map held ((sc_workers sc)[i := AtTop])))
    + mset (sc_done sc) + mset (sc_panicked sc)"
  have m: "mset (sc_spawned sc) = {#r#} + ?rest"
    using inv running_held [OF i] by (simp add: sched_inv_def tasks_of_def ac_simps)
  have "count (mset (sc_spawned sc)) r \<le> 1" using d by (simp add: distinct_count_atmost_1)
  then have z: "count ?rest r = 0" unfolding m by simp
  then show "r \<notin> set (sc_done sc)" "r \<notin> set (sc_panicked sc)" "r \<notin> set (concat (sc_queues sc))"
    by (simp_all add: count_mset_0_iff del: set_concat)
  have "r \<in># mset (sc_spawned sc)" unfolding m by simp
  then show "r \<in> set (sc_spawned sc)" by simp
  assume j: "j < length (sc_workers sc)" "r \<in> set (held (sc_workers sc ! j))"
  show "j = i"
  proof (rule ccontr)
    assume "j \<noteq> i"
    then have "(sc_workers sc)[i := AtTop] ! j = sc_workers sc ! j" by simp
    then have "sc_workers sc ! j \<in> set ((sc_workers sc)[i := AtTop])"
      using j(1) by (metis length_list_update nth_mem)
    then have "r \<in> set (concat (map held ((sc_workers sc)[i := AtTop])))" using j(2) by auto
    then have "0 < count (mset (concat (map held ((sc_workers sc)[i := AtTop])))) r"
      by (simp add: count_greater_zero_iff del: set_concat)
    with z show False by simp
  qed
qed

lemma spawned_accounted:
  assumes "sched_inv sc"
  shows "set (sc_done sc) \<subseteq> set (sc_spawned sc)" "set (sc_panicked sc) \<subseteq> set (sc_spawned sc)"
proof -
  have "mset (sc_spawned sc) = tasks_of sc" using assms by (simp add: sched_inv_def)
  then have "set (sc_spawned sc) = set_mset (tasks_of sc)" by (metis set_mset_mset)
  then show "set (sc_done sc) \<subseteq> set (sc_spawned sc)" "set (sc_panicked sc) \<subseteq> set (sc_spawned sc)"
    by (auto simp: tasks_of_def)
qed

text \<open>A step of the program is a step of the scheduler, or none.\<close>

lemma worker_on_scheduler:
  assumes "on_worker i r th s"
  shows "sched_step (rt_scheduler (sy_rt s)) (task_returns i r (rt_scheduler (sy_rt s)))"
    "sched_step (rt_scheduler (sy_rt s)) (task_unwinds i r (rt_scheduler (sy_rt s)))"
  using assms sched_step.finish [of i "rt_scheduler (sy_rt s)" r]
    sched_step.panic [of i "rt_scheduler (sy_rt s)" r]
  by (simp_all add: on_worker_def task_returns_def task_unwinds_def)

lemma sys_move_scheduler:
  assumes ch: "chan (on_mailbox A) view" and buf: "all_buffered view (rt_net (sy_rt s))"
    and move: "sys_move A view qview ty handle s took u"
  shows "rt_scheduler (sy_rt u) = rt_scheduler (sy_rt s)
    \<or> sched_step (rt_scheduler (sy_rt s)) (rt_scheduler (sy_rt u))"
  using move
proof cases
  case (spawned a i rt lp)
  then show ?thesis using rt_spawn_parts(3) [OF spawned(5)]
    sched_step.spawn [of "rt_scheduler (sy_rt s)" "al_rx lp"] by simp
next
  case (client rt)
  then show ?thesis using client_op_net(3) [OF ch buf client(4)] by simp
next
  case (worker i sc)
  then show ?thesis using sched_step.work [of i "rt_scheduler (sy_rt s)" sc] by simp
next
  case (left i r th)
  then show ?thesis using worker_on_scheduler(1) [OF left(3)] by simp
next
  case (unwound i r th)
  then show ?thesis using worker_on_scheduler(2) [OF unwound(3)] by simp
next
  case shutting
  then show ?thesis using shutdown_next_parts(9) [OF shutting(2)]
    sched_step.stop [of "rt_scheduler (sy_rt s)"] by auto
qed simp_all

text \<open>The mailboxes opened and the loops alive, step by step.\<close>

lemma grows_next: "grows view n n' \<Longrightarrow> st_next (nt_store n') = st_next (nt_store n)"
  by (simp add: grows_def)

lemma put_channel_next [simp]: "st_next (nt_store (put_channel r c n)) = st_next (nt_store n)"
  by (simp add: put_channel_def)

lemma clear_senders_next [simp]: "st_next (nt_store (clear_senders api n)) = st_next (nt_store n)"
  by (simp add: clear_senders_def)

lemma task_ends_sel [simp]:
  "sc_spawned (task_returns i r sc) = sc_spawned sc" "sc_spawned (task_unwinds i r sc) = sc_spawned sc"
  "sc_done (task_returns i r sc) = sc_done sc @ [r]" "sc_done (task_unwinds i r sc) = sc_done sc"
  "sc_panicked (task_returns i r sc) = sc_panicked sc" "sc_panicked (task_unwinds i r sc) = sc_panicked sc @ [r]"
  by (simp_all add: task_returns_def task_unwinds_def)

lemma sched_stop_sel [simp]:
  "sc_spawned (sched_stop sc) = sc_spawned sc" "sc_done (sched_stop sc) = sc_done sc"
  "sc_panicked (sched_stop sc) = sc_panicked sc"
  by (simp_all add: sched_stop_def)

lemma sys_tasks_step:
  assumes ch: "chan (on_mailbox A) view" and mail: "sys_mail view s" and tasks: "sys_tasks s"
    and step: "sys_step A view qview ty handle s t"
  shows "sys_tasks t"
proof -
  obtain took u where move: "sys_move A view qview ty handle s took u"
    and t: "sy_rt t = sy_rt u" "sy_threads t = sy_threads u"
    using step by (auto simp: sys_step_def)
  let ?n = "rt_net (sy_rt s)" and ?sc = "rt_scheduler (sy_rt s)"
  have ok: "mail_ok view (rt_mailbox_capacity (sy_rt s)) (dom (sy_threads s)) (sy_accepted s) (sy_handled s) ?n"
    and rx: "\<And>r th. sy_threads s r = Some th \<Longrightarrow> al_rx (at_loop th) = r"
    using mail by (simp_all add: sys_mail_def)
  have buf: "all_buffered view ?n" using mail_okD(4) [OF ok] .
  have inv: "sched_inv ?sc" and sp: "sc_spawned ?sc = [0..<st_next (nt_store ?n)]"
    and live: "dom (sy_threads s) = set (sc_spawned ?sc) - set (sc_done ?sc) - set (sc_panicked ?sc)"
    using tasks by (simp_all add: sys_tasks_def Let_def)
  have inv': "sched_inv (rt_scheduler (sy_rt u))"
    using sys_move_scheduler [OF ch buf move] inv sched_step_inv by metis
  have stay: "sys_tasks t"
    if "st_next (nt_store (rt_net (sy_rt u))) = st_next (nt_store ?n)"
      "sc_spawned (rt_scheduler (sy_rt u)) = sc_spawned ?sc" "sc_done (rt_scheduler (sy_rt u)) = sc_done ?sc"
      "sc_panicked (rt_scheduler (sy_rt u)) = sc_panicked ?sc" "dom (sy_threads u) = dom (sy_threads s)"
    using that inv' sp live by (simp add: sys_tasks_def t Let_def)
  have ending: "sys_tasks t"
    if e: "on_worker i r th s" "rt_net (sy_rt u) = sh_net (drop_closure A view (at_loop th) (world_of (sy_rt s)))"
      "sy_threads u = (sy_threads s)(r := None)"
      "rt_scheduler (sy_rt u) = task_returns i r ?sc \<or> rt_scheduler (sy_rt u) = task_unwinds i r ?sc" for i r th
  proof -
    have th: "sy_threads s r = Some th" using e(1) by (simp add: on_worker_def)
    then obtain c where "st_map (nt_store ?n) r = Some c" using mail_okD(7) [OF ok, of r] by blast
    then have "st_next (nt_store (rt_net (sy_rt u))) = st_next (nt_store ?n)"
      using drop_closure_net [of "world_of (sy_rt s)" "at_loop th" c A view] rx [OF th] e(2) by simp
    then show ?thesis using inv' sp live e(3,4) by (auto simp: sys_tasks_def t Let_def)
  qed
  show ?thesis
    using move
  proof cases
    case (spawned a i rt lp)
    note p = rt_spawn_parts [OF spawned(5)]
    note o = mail_open [OF ch ok p(1)]
    have "al_rx lp \<notin> set (sc_done ?sc) \<union> set (sc_panicked ?sc)"
      using spawned_accounted [OF inv] o sp by auto
    then show ?thesis
      using inv' sp live p(3) o spawned(2)
      by (auto simp: sys_tasks_def t Let_def sched_spawn_def)
  next
    case (client rt)
    then show ?thesis
      using client_op_net [OF ch buf client(4)] grows_next [of view ?n "rt_net rt"] by (intro stay) simp_all
  next
    case (handles w)
    then show ?thesis using handle_op_net [OF handles(3)] by (intro stay) simp_all
  next
    case (worker i sc)
    then have "worker_move i ?sc sc" by (simp add: worker_step_move)
    then show ?thesis using worker worker_move_frame [of i ?sc sc] by (intro stay) simp_all
  next
    case (actor i r th inp th' w)
    have th: "sy_threads s r = Some th" using actor(3) by (simp add: on_worker_def)
    have "st_next (nt_store (sh_net w)) = st_next (nt_store ?n)"
      using thread_next_net(2) [OF ch _ actor(4), simplified, OF buf]
      by (auto split: if_splits dest: grows_next)
    then show ?thesis using actor th by (intro stay) auto
  next
    case (left i r th)
    then show ?thesis by (intro ending [of i r th]) simp_all
  next
    case (unwound i r th)
    then show ?thesis by (intro ending [of i r th]) simp_all
  next
    case (timer reading y)
    have "grows view ?n (ty_net y)"
      using timer_next_net [OF ch _ timer(3)] buf by (simp add: timer_view_def)
    then show ?thesis using timer grows_next by (intro stay) simp_all
  next
    case shutting
    note p = shutdown_next_parts [OF shutting(2)]
    then show ?thesis by (intro stay) auto
  qed (intro stay; simp)+
qed

end
