(* ===== verification/SystemParts.thy ===== *)
theory SystemParts
  imports SystemInvariants
begin

text \<open>
  The running program only ever takes steps of its parts: seen through its scheduler, its
  timers or its compute pool, every run is a run of that component, so that what the
  theories of the components prove holds in the whole.
\<close>

section \<open>The compute pool\<close>

text \<open>
  The senders of the pool's channel are the pool's own and one clone in the context of
  every actor that was spawned while the pool had one.
\<close>

definition holders :: "('c, 'r, 'q, 'p, 'v, 's) system \<Rightarrow> chan_ref set" where
  "holders s = {r \<in> dom (sy_threads s). cx_compute_sender (al_ctx (at_loop (the (sy_threads s r))))}"

definition senders_ok :: "('q \<Rightarrow> 'v task chan_view) \<Rightarrow> ('q, 'p, 'v) cpool \<Rightarrow> nat \<Rightarrow> bool" where
  "senders_ok qview p n \<longleftrightarrow>
     cv_senders (qview (cp_queue p)) = n + (if cp_sender p then 1 else 0) \<and> cv_bound (qview (cp_queue p)) = None"

definition cp_moved ::
  "('c, 'r, 'q, 'p, 'v) apis \<Rightarrow> ('q \<Rightarrow> 'v task chan_view) \<Rightarrow> nat \<Rightarrow> ('q, 'p, 'v) cpool \<Rightarrow> nat
    \<Rightarrow> ('q, 'p, 'v) cpool \<Rightarrow> bool" where
  "cp_moved A qview n p n' p' \<longleftrightarrow>
     (p' = p \<or> cp_step (on_tasks A) qview (on_result A) p p') \<and> senders_ok qview p' n'"

lemma clones_left: "senders_ok qview p n \<Longrightarrow> 0 < n \<Longrightarrow> 0 < sender_clones qview p"
  by (simp add: senders_ok_def sender_clones_def)

lemma store_set_same: "st_map st r = Some c \<Longrightarrow> store_set r c st = st"
  by (simp add: store_set_def fun_upd_idem)

lemma make_task_queue:
  "make_task rapi now job p = (t, p') \<Longrightarrow> cp_queue p' = cp_queue p \<and> cp_sender p' = cp_sender p"
  by (auto simp: make_task_def Let_def split: prod.splits)

lemma submit_senders:
  assumes ch: "chan qapi qview" and ok: "senders_ok qview p n" and sub: "submit_task qapi rapi t p = Some (r, p')"
  shows "senders_ok qview p' n"
proof -
  have "cv_bound (qview (cp_queue p)) = None" using ok by (simp add: senders_ok_def)
  from chan.unbounded_send [OF ch this, of t] show ?thesis
    using ok sub by (auto simp: submit_task_def senders_ok_def abandon_def)
qed

lemma worker_senders:
  assumes ch: "chan qapi qview" and ok: "senders_ok qview p n"
    and w: "worker_next qapi qview rapi i p = Some p'"
  shows "senders_ok qview p' n"
proof -
  have b: "cv_bound (qview (cp_queue p)) = None" using ok by (simp add: senders_ok_def)
  have r: "senders_ok qview (set_worker i x (p\<lparr>cp_queue := q\<rparr>)) n"
    if "ch_recv_timeout qapi (cp_queue p) = Inr (m, q)" for m q x
  proof -
    have e: "qview q = (qview (cp_queue p))\<lparr>cv_queue := cv_queue (qview q)\<rparr>"
      using chan.receive_step [OF ch b that] by blast
    have "cv_senders (qview q) = cv_senders (qview (cp_queue p))" "cv_bound (qview q) = None"
      using b by (subst e; simp)+
    then show ?thesis using ok by (simp add: senders_ok_def)
  qed
  have l: "senders_ok qview (leave_loop qapi qview rapi i p) n"
    using ok chan.drop_receiver_view [OF ch, of "cp_queue p"]
    by (simp add: senders_ok_def leave_loop_def Let_def)
  show ?thesis
    using w ok r l
    by (cases "cp_workers p ! i")
       (auto simp: worker_next_def senders_ok_def split: if_splits sum.splits option.splits recv_timeout_error.splits)
qed

text \<open>The operations of a handler, a client and a handle.\<close>

lemma result_read:
  assumes "st_map (cp_results p) r = Some c"
    and "handle_try_recv rapi ty c = (x, c') \<or> handle_recv rapi ty c = Some (y, c')
       \<or> handle_recv_timeout rapi ty c = (y, c')"
  shows "store_set r c' (cp_results p) = cp_results p
    \<or> cp_step qapi qview rapi p (p\<lparr>cp_results := store_set r c' (cp_results p)\<rparr>)"
proof -
  have "c' = c \<or> (\<exists>m. ch_try_recv rapi c = Inr (m, c') \<or> ch_recv rapi c = Some (Inr (m, c'))
      \<or> ch_recv_timeout rapi c = Inr (m, c'))"
    using assms(2)
    by (auto simp: handle_defs split: sum.splits option.splits try_recv_error.splits recv_timeout_error.splits)
  then show ?thesis
    using assms(1) cp_step.read [of p r c rapi _ c' qapi qview] store_set_same by metis
qed


lemma cp_moved_refl: "senders_ok qview p n \<Longrightarrow> cp_moved A qview n p n p"
  by (simp add: cp_moved_def)

lemma result_moved:
  assumes ok: "senders_ok qview p n" and c: "st_map (cp_results p) r = Some c"
    and rd: "handle_try_recv (on_result A) ty c = (x, c') \<or> handle_recv (on_result A) ty c = Some (y, c')
       \<or> handle_recv_timeout (on_result A) ty c = (y, c')"
  shows "cp_moved A qview n p n (p\<lparr>cp_results := store_set r c' (cp_results p)\<rparr>)"
  using result_read [OF c rd, of "on_tasks A" qview] ok by (auto simp: cp_moved_def senders_ok_def)

lemma act_next_pool:
  assumes ch: "chan (on_tasks A) qview" and ok: "senders_ok qview (wd_pool w) n"
    and step: "act_next A inp cx a w = Some (a', w')" and has: "cx_compute_sender cx \<Longrightarrow> 0 < n"
  shows "cp_moved A qview n (wd_pool w) n (wd_pool w')"
proof (cases a)
  case (SpawnCompute job k)
  show ?thesis
  proof (cases "cx_compute_sender cx")
    case False
    then show ?thesis
      using step SpawnCompute cp_moved_refl [OF ok] by (auto simp: act_next_def context_spawn_compute_def)
  next
    case True
    obtain t p1 where mk: "make_task (on_result A) (fst inp) job (wd_pool w) = (t, p1)" by fastforce
    then obtain r where sub: "submit_task (on_tasks A) (on_result A) t p1 = Some (r, wd_pool w')"
      using step SpawnCompute True by (auto simp: act_next_def context_spawn_compute_def)
    have "senders_ok qview p1 n" using ok make_task_queue [OF mk] by (simp add: senders_ok_def)
    from submit_senders [OF ch this sub] clones_left [OF ok has [OF True]] show ?thesis
      using cp_step.actor_spawn [OF mk sub] by (simp add: cp_moved_def)
  qed
next
  case (PollCompute h ty k)
  then obtain c x c' where c: "st_map (cp_results (wd_pool w)) (hd_receiver h) = Some c"
    and r: "handle_try_recv (on_result A) ty c = (x, c')" and w: "w' = set_result h c' w"
    using step by (auto simp: act_next_def split: option.splits prod.splits)
  show ?thesis using result_moved [OF ok c disjI1 [OF r]] by (simp add: w set_result_def)
next
  case (AwaitCompute h ty k)
  then obtain c y c' where c: "st_map (cp_results (wd_pool w)) (hd_receiver h) = Some c"
    and r: "handle_recv (on_result A) ty c = Some (y, c')" and w: "w' = set_result h c' w"
    using step by (auto simp: act_next_def split: option.splits)
  show ?thesis using result_moved [OF ok c disjI2 [OF disjI1 [OF r]]] by (simp add: w set_result_def)
next
  case (CancelCompute h k)
  then show ?thesis
    using step ok cp_step.cancel [of "on_tasks A" qview "on_result A" "wd_pool w" h]
    by (auto simp: act_next_def cp_moved_def senders_ok_def)
qed (use step cp_moved_refl [OF ok] in
  \<open>auto simp: act_next_def timer_outcome_def split: option.splits prod.splits rust.splits\<close>)

lemma set_reply_sender_sel [simp]: "cx_compute_sender (set_reply_sender rs cx) = cx_compute_sender cx"
  by (simp add: set_reply_sender_def)

lemma open_envelope_pool:
  assumes "open_envelope A ty handle b env lp w = (th, w')"
  shows "wd_pool w' = wd_pool w" "wd_timers w' = wd_timers w"
    "cx_compute_sender (al_ctx (at_loop th)) = cx_compute_sender (al_ctx lp)"
  using assms
  by (auto simp: open_envelope_def call_handler_def Let_def split: envelope.splits sum.splits)

lemma thread_next_context:
  assumes "thread_next A ty handle stop inp th w = Some (th', w')"
  shows "cx_compute_sender (al_ctx (at_loop th')) = cx_compute_sender (al_ctx (at_loop th))"
  using assms
  by (cases "at_pc th")
     (auto simp: thread_next_def Let_def open_envelope_pool(3)
       split: option.splits sum.splits recv_timeout_error.splits act.splits if_splits)

lemma thread_next_pool:
  assumes ch: "chan (on_tasks A) qview" and ok: "senders_ok qview (wd_pool w) n"
    and step: "thread_next A ty handle stop inp th w = Some (th', w')"
    and has: "cx_compute_sender (al_ctx (at_loop th)) \<Longrightarrow> 0 < n"
  shows "cp_moved A qview n (wd_pool w) n (wd_pool w')"
proof (cases "at_pc th")
  case (InHandler b a)
  show ?thesis
  proof (cases "\<exists>a'. act_next A inp (al_ctx (at_loop th)) a w = Some (a', w')")
    case True
    then show ?thesis using act_next_pool [OF ch ok _ has] by blast
  next
    case False
    then have "w' = w" using step InHandler by (cases a) (auto simp: thread_next_def Let_def)
    then show ?thesis using cp_moved_refl [OF ok] by simp
  qed
qed (use step cp_moved_refl [OF ok] in
  \<open>auto simp: thread_next_def Let_def open_envelope_pool(1)
    split: option.splits sum.splits recv_timeout_error.splits\<close>)

lemma client_op_pool:
  assumes ch: "chan (on_tasks A) qview" and ok: "senders_ok qview (rt_compute s) n" and op: "client_op A s t"
  shows "cp_moved A qview n (rt_compute s) n (rt_compute t)"
  using op
proof cases
  case (op_compute now job h p)
  obtain tk p1 where mk: "make_task (on_result A) now job (rt_compute s) = (tk, p1)" by fastforce
  have k: "senders_ok qview p1 n" using ok make_task_queue [OF mk] by (simp add: senders_ok_def)
  have "senders_ok qview p n"
    using op_compute mk k submit_senders [OF ch k]
    by (auto simp: compute_spawn_def abandon_def senders_ok_def split: if_splits)
  then show ?thesis using op_compute cp_step.spawn [of "on_tasks A" "on_result A" now job "rt_compute s" h p qview]
    by (simp add: cp_moved_def)
qed (use cp_moved_refl [OF ok] in
  \<open>auto simp: rt_send_def rt_send_blocking_def rt_request_def rt_spawn_supervisor_def
      supervisor_pick_def supervisor_insert_def rt_schedule_timer_def rt_schedule_interval_def
      rt_cancel_timer_def rt_timer_def fetch_add1_def Let_def enlist_def set_net_def set_replies_def
      split: prod.splits sum.splits if_splits\<close>)

lemma handle_op_pool:
  assumes ok: "senders_ok qview (wd_pool w) n" and op: "handle_op A w w'"
  shows "cp_moved A qview n (wd_pool w) n (wd_pool w')"
  using op
proof cases
  case (read_result h c ty x c' y)
  then show ?thesis using result_moved [OF ok, where r = "hd_receiver h" and A = A] by (simp add: set_result_def)
next
  case (cancel_job h)
  then show ?thesis
    using ok cp_step.cancel [of "on_tasks A" qview "on_result A" "wd_pool w" h]
    by (simp add: cp_moved_def senders_ok_def)
next
  case (drop_handle r)
  then show ?thesis
    using ok cp_step.forget [of "on_tasks A" qview "on_result A" "wd_pool w" r]
    by (simp add: cp_moved_def senders_ok_def)
qed (use cp_moved_refl [OF ok] in simp_all)

lemma drop_closure_pool:
  assumes ch: "chan (on_tasks A) qview" and ok: "senders_ok qview (wd_pool w) n"
  shows "if cx_compute_sender (al_ctx lp)
    then 0 < n \<longrightarrow> cp_moved A qview n (wd_pool w) (n - 1) (wd_pool (drop_closure A view lp w))
    else wd_pool (drop_closure A view lp w) = wd_pool w"
proof -
  have c: "wd_pool (close_loop (on_mailbox A) view (on_reply A) lp w) = wd_pool w"
    by (simp add: close_loop_def release_loop_def Let_def split: option.splits)
  show ?thesis
    using ok clones_left [OF ok] cp_step.drop_clone [of qview "wd_pool w" "on_tasks A" "on_result A"]
      chan.drop_sender_view [OF ch, of "cp_queue (wd_pool w)"]
    by (auto simp: drop_closure_def Let_def c cp_moved_def senders_ok_def)
qed


definition sys_pool ::
  "('c, 'r, 'q, 'p, 'v) apis \<Rightarrow> ('q \<Rightarrow> 'v task chan_view) \<Rightarrow> ('c, 'r, 'q, 'p, 'v, 's) system \<Rightarrow> bool" where
  "sys_pool A qview s \<longleftrightarrow>
     reachable (cp_init (on_tasks A)) (cp_step (on_tasks A) qview (on_result A)) (rt_compute (sy_rt s))
     \<and> senders_ok qview (rt_compute (sy_rt s)) (card (holders s))"

lemma shutdown_next_pool:
  assumes "shutdown_next A s = Some t"
  shows "rt_compute (sy_rt t) \<in> {rt_compute (sy_rt s), pool_raise_stop (rt_compute (sy_rt s)),
    pool_take_sender (on_tasks A) (rt_compute (sy_rt s))}"
  using assms
  by (auto simp: shutdown_next_def Let_def set_net_def split: shut_pc.splits if_splits tphase.splits)

lemma holders_put:
  assumes "sy_threads s r = Some th" and "sy_threads u = (sy_threads s)(r \<mapsto> th')"
    and "cx_compute_sender (al_ctx (at_loop th')) = cx_compute_sender (al_ctx (at_loop th))"
  shows "holders u = holders s"
  using assms by (auto simp: holders_def)

lemma holders_drop:
  assumes "finite (dom (sy_threads s))" and "sy_threads s r = Some th" and "sy_threads u = (sy_threads s)(r := None)"
  shows "if cx_compute_sender (al_ctx (at_loop th)) then 0 < card (holders s) \<and> card (holders u) = card (holders s) - 1
    else holders u = holders s"
proof -
  have f: "finite (holders s)" using assms(1) by (simp add: holders_def)
  have "holders u = holders s - {r}" using assms(3) by (auto simp: holders_def)
  moreover have "r \<in> holders s \<longleftrightarrow> cx_compute_sender (al_ctx (at_loop th))"
    using assms(2) by (auto simp: holders_def)
  ultimately show ?thesis using f by (auto simp: card_gt_0_iff)
qed

lemma holders_add:
  assumes "finite (dom (sy_threads s))" and "sy_threads s r = None" and "sy_threads u = (sy_threads s)(r \<mapsto> th)"
  shows "card (holders u) = card (holders s) + (if cx_compute_sender (al_ctx (at_loop th)) then 1 else 0)"
proof -
  have f: "finite (holders s)" using assms(1) by (simp add: holders_def)
  have "r \<notin> holders s" using assms(2) by (auto simp: holders_def)
  moreover have "holders u = (if cx_compute_sender (al_ctx (at_loop th)) then insert r (holders s) else holders s)"
    using assms(2,3) by (auto simp: holders_def split: if_splits)
  ultimately show ?thesis using f by simp
qed

lemma on_worker_thread: "on_worker i r th s \<Longrightarrow> sy_threads s r = Some th"
  by (simp add: on_worker_def)

lemma sys_move_pool:
  fixes s :: "('c, 'r, 'q, 'p, 'v, 's) system"
  assumes ch: "chan (on_tasks A) qview" and fin: "finite (dom (sy_threads s))"
    and ok: "senders_ok qview (rt_compute (sy_rt s)) (card (holders s))"
    and fresh: "\<And>(a :: 's) i rt lp. rt_spawn (on_mailbox A) (on_tasks A) a (sy_rt s) = (Inr i, rt, Some lp) \<Longrightarrow>
      sy_threads s (al_rx lp) = None"
    and move: "sys_move A view qview ty handle s took u"
  shows "cp_moved A qview (card (holders s)) (rt_compute (sy_rt s)) (card (holders u)) (rt_compute (sy_rt u))"
proof -
  let ?p = "rt_compute (sy_rt s)" and ?n = "card (holders s)"
  let ?moved = "cp_moved A qview ?n ?p (card (holders u)) (rt_compute (sy_rt u))"
  have same: ?moved if "rt_compute (sy_rt u) = ?p" "holders u = holders s"
    using cp_moved_refl [OF ok] that by simp
  have drop: ?moved
    if d: "sy_threads s r = Some th" "sy_threads u = (sy_threads s)(r := None)"
      "rt_compute (sy_rt u) = wd_pool (drop_closure A view (at_loop th) (world_of (sy_rt s)))" for r th
    using drop_closure_pool [OF ch, of "world_of (sy_rt s)" ?n "at_loop th" view] ok
      holders_drop [OF fin d(1,2)] same d(3)
    by (simp split: if_splits)
  show ?thesis
    using move
  proof cases
    case (spawned a i rt lp)
    note p = rt_spawn_parts(7,8) [OF spawned(5)]
    have h: "card (holders u) = ?n + (if cp_sender ?p then 1 else 0)"
      using holders_add [OF fin fresh [OF spawned(5)], of u "\<lparr>at_loop = lp, at_pc = LoopTop\<rparr>"] spawned(2) p(2) by simp
    show ?thesis
    proof (cases "cp_sender ?p")
      case True
      have "cp_moved A qview ?n ?p (Suc ?n) (rt_compute rt)"
        using ok p(1) True chan.clone_sender_view [OF ch, of "cp_queue ?p"]
          cp_step.clone_sender [of ?p "on_tasks A" qview "on_result A"]
        by (simp add: cp_moved_def senders_ok_def)
      then show ?thesis using spawned(2) h True by simp
    next
      case False
      then show ?thesis using cp_moved_refl [OF ok] spawned(2) h p(1) by simp
    qed
  next
    case (client rt)
    then show ?thesis using client_op_pool [OF ch ok client(4)] by (simp add: holders_def)
  next
    case (handles w)
    then show ?thesis using handle_op_pool [of qview "world_of (sy_rt s)" ?n A w] ok by (simp add: holders_def)
  next
    case (actor i r th inp th' w)
    note th = on_worker_thread [OF actor(3)]
    have h: "holders u = holders s" using holders_put [OF th, of u th'] thread_next_context [OF actor(4)] actor(2) by simp
    have "cx_compute_sender (al_ctx (at_loop th)) \<Longrightarrow> 0 < ?n"
      using th fin by (auto simp: card_gt_0_iff holders_def)
    then show ?thesis using thread_next_pool [OF ch _ actor(4), of ?n] ok actor(2) h by simp
  next
    case (left i r th)
    then show ?thesis by (intro drop [OF on_worker_thread [OF left(3)]]) simp_all
  next
    case (unwound i r th)
    then show ?thesis by (intro drop [OF on_worker_thread [OF unwound(3)]]) simp_all
  next
    case (pool i p)
    then show ?thesis
      using worker_senders [OF ch ok pool(4)] cp_step.work [OF pool(3,4)] by (simp add: cp_moved_def holders_def)
  next
    case shutting
    have h: "holders u = holders s" using shutdown_next_parts(1) [OF shutting(2)] by (simp add: holders_def)
    have "cp_moved A qview ?n ?p ?n (pool_take_sender (on_tasks A) ?p)"
      using ok chan.drop_sender_view [OF ch, of "cp_queue ?p"] cp_step.take_sender [of "on_tasks A" qview "on_result A" ?p]
      by (auto simp: cp_moved_def senders_ok_def pool_take_sender_def)
    moreover have "cp_moved A qview ?n ?p ?n (pool_raise_stop ?p)"
      using ok cp_step.raise_stop [of "on_tasks A" qview "on_result A" ?p]
      by (simp add: cp_moved_def senders_ok_def pool_raise_stop_def)
    ultimately show ?thesis using shutdown_next_pool [OF shutting(2)] same h by auto
  qed (intro same; simp add: holders_def)+
qed

lemma pool_moved:
  assumes "sys_pool A qview s"
    and "cp_moved A qview (card (holders s)) (rt_compute (sy_rt s)) (card (holders u)) (rt_compute (sy_rt u))"
  shows "sys_pool A qview u"
  using assms by (auto simp: sys_pool_def cp_moved_def intro: reach_step)

text \<open>The two premises on the threads, from the account of the tasks and of the mailboxes.\<close>

lemma threads_finite: "sys_tasks s \<Longrightarrow> finite (dom (sy_threads s))"
  by (simp add: sys_tasks_def Let_def)

lemma spawned_fresh:
  assumes "chan (on_mailbox A) view" and "sys_mail view s"
    and "rt_spawn (on_mailbox A) qapi a (sy_rt s) = (Inr i, rt, Some lp)"
  shows "sy_threads s (al_rx lp) = None"
  using mail_open [OF assms(1) _ rt_spawn_parts(1) [OF assms(3)]] assms(2) by (auto simp: sys_mail_def)

section \<open>The timers\<close>

definition timers_op :: "'v timers \<Rightarrow> 'v timers \<Rightarrow> bool" where
  "timers_op ts ts' \<longleftrightarrow> ts' = ts
     \<or> (\<exists>now d a m r. handle_schedule_timer now d a m ts = (r, ts'))
     \<or> (\<exists>now d a m r. handle_schedule_interval now d a m ts = (r, ts'))
     \<or> (\<exists>i r. cancel_timer i ts = (r, ts'))"

lemma timers_op_intros:
  "timers_op ts ts"
  "handle_schedule_timer now d a m ts = (r, ts') \<Longrightarrow> timers_op ts ts'"
  "handle_schedule_interval now d a m ts = (r, ts') \<Longrightarrow> timers_op ts ts'"
  "cancel_timer i ts = (r', ts') \<Longrightarrow> timers_op ts ts'"
  "service_schedule now d a m ts = (r, ts') \<Longrightarrow> timers_op ts ts'"
  "service_schedule_interval now d a (Repeating m) ts = (r, ts') \<Longrightarrow> timers_op ts ts'"
  unfolding timers_op_def service_schedule_def service_schedule_interval_def
    handle_schedule_timer_def handle_schedule_interval_def by blast+

definition sys_timers :: "('c, 'r, 'q, 'p, 'v) apis \<Rightarrow> ('c, 'r, 'q, 'p, 'v, 's) system \<Rightarrow> bool" where
  "sys_timers A s \<longleftrightarrow>
     (\<exists>created shots. reachable ty_init (ty_step (on_mailbox A)) (timer_view created shots s))"

lemma timers_moved:
  assumes inv: "sys_timers A s" and op: "timers_op (rt_timers (sy_rt s)) (rt_timers (sy_rt u))"
    and same: "sy_timer u = sy_timer s" "rt_timer_stop (sy_rt u) = rt_timer_stop (sy_rt s)"
      "sy_fired u = sy_fired s" "sy_reading u = sy_reading s"
  shows "sys_timers A u"
proof -
  let ?R = "reachable ty_init (ty_step (on_mailbox A))"
  obtain created shots where r: "?R (timer_view created shots s)" using inv by (auto simp: sys_timers_def)
  let ?x = "(timer_view created shots s)\<lparr>ty_net := rt_net (sy_rt u)\<rparr>"
  have x: "?R ?x" using reach_step [OF r ty_step.network] .
  have eq: "timer_view c o' u = ?x\<lparr>ty_timers := rt_timers (sy_rt u), ty_created := c, ty_one_shots := o'\<rparr>" for c o'
    using same by (simp add: timer_view_def)
  have ts: "ty_timers ?x = rt_timers (sy_rt s)" by (simp add: timer_view_def)
  from op [unfolded timers_op_def] show ?thesis
  proof (elim disjE exE)
    assume "rt_timers (sy_rt u) = rt_timers (sy_rt s)"
    then have "timer_view created shots u = ?x" using same by (simp add: timer_view_def)
    then show ?thesis using x unfolding sys_timers_def by metis
  next
    fix now d a m res
    assume a: "handle_schedule_timer now d a m (rt_timers (sy_rt s)) = (res, rt_timers (sy_rt u))"
    from reach_step [OF x ty_step.one_shot [of now d a m ?x, unfolded ts, OF a]] show ?thesis
      unfolding sys_timers_def
      by (intro exI [of _ "Suc created"] exI [of _ "insert (TimerId (tm_counter (rt_timers (sy_rt s)))) shots"])
         (simp add: eq timer_view_def same)
  next
    fix now d a m res
    assume a: "handle_schedule_interval now d a m (rt_timers (sy_rt s)) = (res, rt_timers (sy_rt u))"
    from reach_step [OF x ty_step.periodic [of now d a m ?x, unfolded ts, OF a]] show ?thesis
      unfolding sys_timers_def
      by (intro exI [of _ "Suc created"] exI [of _ shots]) (simp add: eq timer_view_def same)
  next
    fix i res
    assume a: "cancel_timer i (rt_timers (sy_rt s)) = (res, rt_timers (sy_rt u))"
    from reach_step [OF x ty_step.cancel [of i ?x, unfolded ts, OF a]] show ?thesis
      unfolding sys_timers_def
      by (intro exI [of _ created] exI [of _ shots]) (simp add: eq timer_view_def same)
  qed
qed

text \<open>The thread does not look at the histories of its view.\<close>

lemma timer_next_histories:
  assumes "timer_next api reading (timer_view 0 {} s) = Some t"
  shows "timer_next api reading (timer_view created shots s)
    = Some (timer_view created shots (set_timer_view t s))"
  using assms
  by (auto simp: timer_next_def timer_view_def set_timer_view_def set_net_def rt_net_def
      split: tphase.splits list.splits if_splits option.splits prod.splits rust.splits)

lemma timer_next_stop:
  assumes "timer_next api reading x = Some t"
  shows "ty_stop t = ty_stop x"
  using assms
  by (auto simp: timer_next_def
      split: tphase.splits list.splits if_splits option.splits prod.splits rust.splits)

lemma act_next_timers:
  assumes "act_next A inp cx a w = Some (a', w')"
  shows "timers_op (wd_timers w) (wd_timers w')"
  using assms
  by (cases a)
     (auto simp: act_next_def set_result_def timer_outcome_def context_schedule_timer_def
       context_schedule_interval_def context_cancel_timer_def context_timer_result_def
       split: option.splits prod.splits rust.splits if_splits intro: timers_op_intros)

lemma thread_next_timers:
  assumes step: "thread_next A ty handle stop inp th w = Some (th', w')"
  shows "timers_op (wd_timers w) (wd_timers w')"
proof (cases "at_pc th")
  case (InHandler b a)
  show ?thesis
  proof (cases "\<exists>a'. act_next A inp (al_ctx (at_loop th)) a w = Some (a', w')")
    case True
    then show ?thesis using act_next_timers by blast
  next
    case False
    then have "w' = w" using step InHandler by (cases a) (auto simp: thread_next_def Let_def)
    then show ?thesis by (simp add: timers_op_intros)
  qed
qed (use step in \<open>auto simp: thread_next_def Let_def open_envelope_pool(2) timers_op_intros
    split: option.splits sum.splits recv_timeout_error.splits\<close>)

lemmas timers_op_snd = timers_op_intros(2-) [OF surjective_pairing]

lemma client_op_timers: "client_op A s t \<Longrightarrow> timers_op (rt_timers s) (rt_timers t)"
  by (cases rule: client_op.cases)
     (auto simp: rt_send_def rt_send_blocking_def rt_request_def rt_spawn_supervisor_def
      supervisor_pick_def supervisor_insert_def rt_schedule_timer_def rt_schedule_interval_def
      rt_cancel_timer_def rt_timer_def fetch_add1_def Let_def enlist_def set_net_def set_replies_def
      split: prod.splits sum.splits if_splits intro: timers_op_intros(1) timers_op_snd)

lemma client_op_rest:
  "client_op A s t \<Longrightarrow> rt_stop t = rt_stop s \<and> rt_timer_stop t = rt_timer_stop s"
  by (cases rule: client_op.cases)
     (auto simp: rt_send_def rt_send_blocking_def rt_request_def rt_spawn_supervisor_def
      supervisor_pick_def supervisor_insert_def rt_schedule_timer_def rt_schedule_interval_def
      rt_cancel_timer_def rt_timer_def fetch_add1_def Let_def enlist_def set_net_def set_replies_def
      split: prod.splits sum.splits if_splits)

lemma drop_closure_timers: "wd_timers (drop_closure A view lp w) = wd_timers w"
  by (simp add: drop_closure_def close_loop_def release_loop_def Let_def split: option.splits)

lemma shutdown_next_timers:
  assumes "shutdown_next A s = Some t"
  shows "rt_timer_stop (sy_rt t) = rt_timer_stop (sy_rt s) \<or> rt_timer_stop (sy_rt t)"
  using assms
  by (auto simp: shutdown_next_def Let_def set_net_def split: shut_pc.splits if_splits tphase.splits)

lemma sys_timers_move:
  fixes s :: "('c, 'r, 'q, 'p, 'v, 's) system"
  assumes inv: "sys_timers A s" and move: "sys_move A view qview ty handle s took u"
  shows "sys_timers A u"
proof -
  have keep: "sys_timers A u"
    if "timers_op (rt_timers (sy_rt s)) (rt_timers (sy_rt u))" "sy_timer u = sy_timer s"
      "rt_timer_stop (sy_rt u) = rt_timer_stop (sy_rt s)" "sy_fired u = sy_fired s" "sy_reading u = sy_reading s"
    using timers_moved [OF inv that] .
  show ?thesis
    using move
  proof cases
    case (spawned a i rt lp)
    then show ?thesis using rt_spawn_parts [OF spawned(5)] by (intro keep) (simp_all add: timers_op_intros)
  next
    case (client rt)
    then show ?thesis
      using client_op_timers [OF client(4)] client_op_rest [OF client(4)] by (intro keep) simp_all
  next
    case (handles w)
    then show ?thesis using handle_op_net [OF handles(3)] by (intro keep) (simp_all add: timers_op_intros)
  next
    case (actor i r th inp th' w)
    then show ?thesis using thread_next_timers [OF actor(4)] by (intro keep) simp_all
  next
    case (timer reading t)
    obtain created shots where r: "reachable ty_init (ty_step (on_mailbox A)) (timer_view created shots s)"
      using inv by (auto simp: sys_timers_def)
    from reach_step [OF r timer_next_step [OF timer_next_histories [OF timer(3)]]] show ?thesis
      unfolding sys_timers_def timer(2) by blast
  next
    case shutting
    note p = shutdown_next_parts [OF shutting(2)]
    from shutdown_next_timers [OF shutting(2)] show ?thesis
    proof
      assume "rt_timer_stop (sy_rt u) = rt_timer_stop (sy_rt s)"
      then show ?thesis using p by (intro keep) (simp_all add: timers_op_intros)
    next
      assume stop: "rt_timer_stop (sy_rt u)"
      obtain created shots where r: "reachable ty_init (ty_step (on_mailbox A)) (timer_view created shots s)"
        using inv by (auto simp: sys_timers_def)
      have "timer_view created shots u
          = (timer_view created shots s)\<lparr>ty_stop := True\<rparr>\<lparr>ty_net := rt_net (sy_rt u)\<rparr>"
        using p stop by (simp add: timer_view_def)
      then show ?thesis
        using reach_step [OF reach_step [OF r ty_step.shutdown] ty_step.network] unfolding sys_timers_def by metis
    qed
  qed (intro keep; simp add: timers_op_intros drop_closure_timers)+
qed


section \<open>The whole\<close>

definition sys_ok ::
  "('c, 'r, 'q, 'p, 'v) apis \<Rightarrow> ('c \<Rightarrow> 'v envelope chan_view) \<Rightarrow> ('q \<Rightarrow> 'v task chan_view)
    \<Rightarrow> ('c, 'r, 'q, 'p, 'v, 's) system \<Rightarrow> bool" where
  "sys_ok A view qview s \<longleftrightarrow> sys_mail view s \<and> sys_tasks s \<and> sys_pool A qview s \<and> sys_timers A s"

lemma histories_ok:
  "sys_pool A qview (s\<lparr>sy_accepted := a, sy_handled := g\<rparr>) = sys_pool A qview s"
  "sys_timers A (s\<lparr>sy_accepted := a, sy_handled := g\<rparr>) = sys_timers A s"
  by (simp_all add: sys_pool_def sys_timers_def holders_def timer_view_def)

lemma sys_ok_step:
  fixes s :: "('c, 'r, 'q, 'p, 'v, 's) system"
  assumes ch: "chan (on_mailbox A) view" and qch: "chan (on_tasks A) qview"
    and inv: "sys_ok A view qview s" and step: "sys_step A view qview ty handle s t"
  shows "sys_ok A view qview t"
proof -
  have mail: "sys_mail view s" and tasks: "sys_tasks s" and pool: "sys_pool A qview s" and tm: "sys_timers A s"
    using inv by (simp_all add: sys_ok_def)
  obtain took u a g where move: "sys_move A view qview ty handle s took u"
    and t: "t = u\<lparr>sy_accepted := a, sy_handled := g\<rparr>"
    using step by (auto simp: sys_step_def)
  note moved = sys_move_pool [OF qch threads_finite [OF tasks] _ spawned_fresh [OF ch mail] move]
  then show ?thesis
    using sys_mail_step [OF ch mail step] sys_tasks_step [OF ch mail tasks step]
      pool_moved [OF pool moved] sys_timers_move [OF tm move] pool
    by (simp add: sys_ok_def t histories_ok sys_pool_def [of A qview s])
qed

lemma sys_ok_init:
  assumes qch: "chan (on_tasks A) qview" and init: "sys_init A s"
  shows "sys_ok A view qview s"
proof -
  obtain par tasks config where w: "with_config (on_tasks A) par 0 tasks config = Inr (sy_rt s)"
    and k: "0 < cfg_mailbox_capacity config" "0 < num_workers par"
    and e: "sy_threads s = Map.empty" "sy_timer s = TkTop" "sy_fired s = []" "sy_shutdown s = ShIdle"
      "sy_accepted s = (\<lambda>_. [])" "sy_handled s = (\<lambda>_. [])"
    using init by (auto simp: sys_init_def)
  obtain p where p: "compute_new (on_tasks A) (cfg_compute config) store_empty tasks = Inr p"
    and rt: "rt_net (sy_rt s) = net_empty" "rt_compute (sy_rt s) = p" "rt_timers (sy_rt s) = timers_new"
      "rt_scheduler (sy_rt s) = scheduler_new (num_workers par)" "\<not> rt_timer_stop (sy_rt s)"
      "rt_mailbox_capacity (sy_rt s) = cfg_mailbox_capacity config"
    using w [symmetric] by (auto simp: with_config_def timers_new_def rt_net_def split: sum.splits)
  have "sys_mail view s"
    using k(1) by (auto simp: sys_mail_def mail_ok_def rt e net_empty_def store_empty_def net_ok_def store_ok_def)
  moreover have "sys_tasks s"
    using sched_init_inv [of "scheduler_new (num_workers par)"] k(2)
    by (auto simp: sys_tasks_def rt e net_empty_def store_empty_def scheduler_new_def sched_init_def Let_def)
  moreover have "cp_init (on_tasks A) p" using p by (auto simp: cp_init_def)
  then have "sys_pool A qview s"
    using p chan.new_receivers [OF qch] chan.drop_receiver_view [OF qch] chan.unbounded_view [OF qch]
    by (auto simp: sys_pool_def rt holders_def e senders_ok_def compute_new_def Let_def intro: reach_init)
  moreover have "sys_timers A s"
    unfolding sys_timers_def
    by (intro exI [of _ 0] exI [of _ "{}"] reach_init) (simp add: ty_init_def timer_view_def rt e)
  ultimately show ?thesis by (simp add: sys_ok_def)
qed

lemma sys_invariant:
  fixes A :: "('c, 'r, 'q, 'p, 'v) apis" and handle :: "('v, 's) behaviour"
  assumes "chan (on_mailbox A) view" and "chan (on_tasks A) qview"
  shows "invariant_of (sys_init A) (sys_step A view qview ty handle) (sys_ok A view qview)"
  by unfold_locales (rule sys_ok_init [OF assms(2)], assumption, rule sys_ok_step [OF assms])

lemmas sys_always = invariant_of.always [OF sys_invariant]

lemma chan_refs: "chan (on_mailbox ref_apis) (\<lambda>v. v)" "chan (on_tasks ref_apis) (\<lambda>v. v)"
  "chan (on_reply ref_apis) (\<lambda>v. v)" "chan (on_result ref_apis) (\<lambda>v. v)"
  by (simp_all add: ref_apis_def chan_ref)

text \<open>The program on channels as documented, with its invariant.\<close>

interpretation program: invariant_of "sys_init ref_apis" "sys_step ref_apis (\<lambda>v. v) (\<lambda>v. v) ty handle"
  "sys_ok ref_apis (\<lambda>v. v) (\<lambda>v. v)"
  by (rule sys_invariant [OF chan_refs(1,2)])

end
