(* ===== verification/SystemProps.thy ===== *)
theory SystemProps
  imports SystemParts
begin

text \<open>
  What the running program guarantees, in any interleaving of its threads, and where it
  stops making progress.
\<close>

section \<open>Lemmas\<close>

lemma scheduler_runs:
  assumes ch: "chan (on_mailbox A) view" and qch: "chan (on_tasks A) qview"
    and r: "reachable (sys_init A) (sys_step A view qview ty handle) s"
  shows "reachable sched_init sched_step (rt_scheduler (sy_rt s))"
  using r
proof (induction rule: reachable.induct)
  case (reach_init s)
  then obtain par tasks config where w: "with_config (on_tasks A) par 0 tasks config = Inr (sy_rt s)"
    and k: "0 < num_workers par"
    by (auto simp: sys_init_def)
  have "rt_scheduler (sy_rt s) = scheduler_new (num_workers par)"
    using w [symmetric] by (auto simp: with_config_def split: sum.splits)
  then show ?case using k by (auto simp: sched_init_def intro: reachable.reach_init)
next
  case (reach_step s t)
  obtain took u where move: "sys_move A view qview ty handle s took u" and t: "sy_rt t = sy_rt u"
    using reach_step.hyps(2) by (auto simp: sys_step_def)
  have "all_buffered view (rt_net (sy_rt s))"
    using sys_always [OF ch qch reach_step.hyps(1)] mail_okD(4) by (auto simp: sys_ok_def sys_mail_def)
  from sys_move_scheduler [OF ch this move] show ?case
    using reach_step.IH t by (auto intro: reachable.reach_step)
qed

lemma sys_ok_mail:
  assumes "chan (on_mailbox A) view" and "chan (on_tasks A) qview"
    and "reachable (sys_init A) (sys_step A view qview ty handle) s"
  shows "mail_ok view (rt_mailbox_capacity (sy_rt s)) (dom (sy_threads s)) (sy_accepted s) (sy_handled s)
      (rt_net (sy_rt s))"
    "sy_threads s r = Some th \<Longrightarrow> al_rx (at_loop th) = r"
  using sys_always [OF assms] by (simp_all add: sys_ok_def sys_mail_def)

lemma sys_ok_running:
  assumes ok: "sys_ok A view qview s"
    and i: "i < length (sc_workers (rt_scheduler (sy_rt s)))" "sc_workers (rt_scheduler (sy_rt s)) ! i = Running r"
  shows "r \<in> dom (sy_threads s)"
proof -
  have t: "sys_tasks s" using ok by (simp add: sys_ok_def)
  then have "sched_inv (rt_scheduler (sy_rt s))" "distinct (sc_spawned (rt_scheduler (sy_rt s)))"
    by (simp_all add: sys_tasks_def Let_def)
  from running_alone [OF this i] t show ?thesis by (simp add: sys_tasks_def Let_def)
qed

section \<open>Deadlock\<close>

text \<open>
  \<open>waits_for\<close>: the handler on mailbox \<open>r\<close> is in a send to an actor whose mailbox \<open>q\<close> is
  full. A set of actors each of which waits for another of the set is deadlocked.
\<close>

definition waits_for ::
  "('c \<Rightarrow> 'v envelope chan_view) \<Rightarrow> ('c, 'r, 'q, 'p, 'v, 's) system \<Rightarrow> chan_ref \<Rightarrow> chan_ref \<Rightarrow> bool" where
  "waits_for view s r q \<longleftrightarrow> (\<exists>th b target m k c. sy_threads s r = Some th \<and> at_pc th = InSend b target m k
     \<and> nt_senders (rt_net (sy_rt s)) target = Some q \<and> st_map (nt_store (rt_net (sy_rt s))) q = Some c
     \<and> cv_full (view c))"

definition deadlocked ::
  "('c \<Rightarrow> 'v envelope chan_view) \<Rightarrow> chan_ref set \<Rightarrow> ('c, 'r, 'q, 'p, 'v, 's) system \<Rightarrow> bool" where
  "deadlocked view D s \<longleftrightarrow> D \<noteq> {} \<and> (\<forall>r \<in> D. \<exists>q \<in> D. waits_for view s r q)"

lemma waits_guarding:
  assumes "waits_for view s r q"
  shows "\<not> unguarded s" "r \<in> dom (sy_threads s)"
  using assms by (auto simp: waits_for_def unguarded_def intro!: bexI [of _ r])

lemma deadlocked_kept:
  assumes d: "deadlocked view D s"
    and th: "\<And>r. r \<in> D \<Longrightarrow> sy_threads u r = sy_threads s r"
    and s: "nt_senders (rt_net (sy_rt u)) = nt_senders (rt_net (sy_rt s))"
    and f: "\<And>q c. q \<in> D \<Longrightarrow> st_map (nt_store (rt_net (sy_rt s))) q = Some c \<Longrightarrow> cv_full (view c) \<Longrightarrow>
      \<exists>c'. st_map (nt_store (rt_net (sy_rt u))) q = Some c' \<and> cv_full (view c')"
  shows "deadlocked view D u"
  unfolding deadlocked_def
proof (intro conjI ballI)
  show "D \<noteq> {}" using d by (simp add: deadlocked_def)
  fix r
  assume r: "r \<in> D"
  then obtain q where q: "q \<in> D" "waits_for view s r q" using d by (auto simp: deadlocked_def)
  then obtain th' b target m k c where w: "sy_threads s r = Some th'" "at_pc th' = InSend b target m k"
    "nt_senders (rt_net (sy_rt s)) target = Some q" "st_map (nt_store (rt_net (sy_rt s))) q = Some c"
    "cv_full (view c)"
    by (auto simp: waits_for_def)
  obtain c' where "st_map (nt_store (rt_net (sy_rt u))) q = Some c'" "cv_full (view c')"
    using f [OF q(1) w(4,5)] by blast
  then have "waits_for view u r q" using w(1-3) th [OF r] s unfolding waits_for_def by metis
  then show "\<exists>q \<in> D. waits_for view u r q" using q(1) by blast
qed

lemma appended_full: "appended v v' \<Longrightarrow> cv_full v \<Longrightarrow> cv_full v'"
  by (auto simp: appended_def cv_full_def split: option.splits)

lemma grows_full:
  assumes "grows view n n'" and "st_map (nt_store n) q = Some c" and "cv_full (view c)"
  shows "\<exists>c'. st_map (nt_store n') q = Some c' \<and> cv_full (view c')"
proof -
  have "rel_option (\<lambda>c c'. appended (view c) (view c')) (Some c) (st_map (nt_store n') q)"
    using assms(1,2) by (simp add: grows_def) metis
  then show ?thesis using assms(3) appended_full by (auto simp: option_rel_Some1)
qed

lemma waiting_thread_stays:
  assumes ch: "chan (on_mailbox A) view" and ok: "sys_mail view s" and w: "waits_for view s r q"
    and q: "q \<in> dom (sy_threads s)" and th: "sy_threads s r = Some th"
  shows "thread_next A ty handle stop inp th (world_of (sy_rt s)) = None"
proof -
  let ?n = "rt_net (sy_rt s)"
  have m: "mail_ok view (rt_mailbox_capacity (sy_rt s)) (dom (sy_threads s)) (sy_accepted s) (sy_handled s) ?n"
    using ok by (simp add: sys_mail_def)
  obtain b target m' k c where w: "at_pc th = InSend b target m' k" "nt_senders ?n target = Some q"
    "st_map (nt_store ?n) q = Some c" "cv_full (view c)"
    using w th by (auto simp: waits_for_def)
  have f: "find_sender target ?n = Inr (q, c)" using w mail_okD(2) [OF m] by (simp add: find_sender_Inr_iff)
  have "0 < cv_receivers (view c)" using mail_okD(6) [OF m w(3)] q by (simp add: box_ok_def)
  moreover have "buffered (view c)" using mail_okD(4) [OF m] w(3) by (simp add: all_buffered_def)
  ultimately have "net_send (on_mailbox A) target (Message m') ?n = None"
    using net_send_cases [OF ch f, of "Message m'"] w(4) by simp
  then show ?thesis using w(1) by (simp add: thread_next_def)
qed

definition stuck ::
  "('c \<Rightarrow> 'v envelope chan_view) \<Rightarrow> chan_ref set \<Rightarrow> ('c, 'r, 'q, 'p, 'v, 's) system
    \<Rightarrow> ('c, 'r, 'q, 'p, 'v, 's) system \<Rightarrow> bool" where
  "stuck view D s u \<longleftrightarrow> deadlocked view D u \<and> (\<forall>r \<in> D. sy_threads u r = sy_threads s r)
     \<and> nt_senders (rt_net (sy_rt u)) = nt_senders (rt_net (sy_rt s)) \<and> sy_shutdown u \<in> {ShIdle, ShWait}"

lemma stuck_move:
  fixes s :: "('c, 'r, 'q, 'p, 'v, 's) system"
  assumes ch: "chan (on_mailbox A) view" and ok: "sys_mail view s" and st: "stuck view D s0 s"
    and move: "sys_move A view qview ty handle s took u"
  shows "stuck view D s0 u"
proof -
  let ?n = "rt_net (sy_rt s)"
  have m: "mail_ok view (rt_mailbox_capacity (sy_rt s)) (dom (sy_threads s)) (sy_accepted s) (sy_handled s) ?n"
    and rx: "\<And>r th. sy_threads s r = Some th \<Longrightarrow> al_rx (at_loop th) = r"
    using ok by (simp_all add: sys_mail_def)
  have buf: "all_buffered view ?n" using mail_okD(4) [OF m] .
  have d: "deadlocked view D s" and sh: "sy_shutdown s \<in> {ShIdle, ShWait}" using st by (simp_all add: stuck_def)
  have waiting: "\<exists>q \<in> D. waits_for view s r q \<and> q \<in> dom (sy_threads s)" if r: "r \<in> D" for r
  proof -
    obtain q where "q \<in> D" "waits_for view s r q" using d r by (auto simp: deadlocked_def)
    moreover obtain q' where "waits_for view s q q'" using d calculation(1) by (auto simp: deadlocked_def)
    ultimately show ?thesis using waits_guarding by blast
  qed
  obtain r0 where r0: "r0 \<in> D" using d by (auto simp: deadlocked_def)
  then have guard: "\<not> unguarded s" using waiting waits_guarding by blast
  have stay: "thread_next A ty handle stop inp th (world_of (sy_rt s)) = None"
    if "r \<in> D" "sy_threads s r = Some th" for r th stop inp
    using waiting [OF that(1)] waiting_thread_stays [OF ch ok] that(2) by blast
  have sending: "\<exists>b t m k. at_pc th = InSend b t m k" if "r \<in> D" "sy_threads s r = Some th" for r th
    using waiting [OF that(1)] that(2) by (auto simp: waits_for_def)
  have keep: "stuck view D s0 u"
    if "grows view ?n (rt_net (sy_rt u))" "\<And>r. r \<in> D \<Longrightarrow> sy_threads u r = sy_threads s r"
      "sy_shutdown u \<in> {ShIdle, ShWait}"
    using st that deadlocked_kept [OF d, of u] grows_full [OF that(1)]
    by (simp add: stuck_def grows_def)
  have idle: "stuck view D s0 u"
    if "rt_net (sy_rt u) = ?n" "sy_threads u = sy_threads s" "sy_shutdown u \<in> {ShIdle, ShWait}"
    using keep that by simp
  have away: "stuck view D s0 u"
    if "r \<notin> D" "rt_net (sy_rt u) = put_channel r c ?n"
      "\<And>x. x \<noteq> r \<Longrightarrow> sy_threads u x = sy_threads s x" "sy_shutdown u \<in> {ShIdle, ShWait}" for r c
    using st that deadlocked_kept [OF d, of u]
    by (simp add: stuck_def put_channel_def) metis
  have closing: "stuck view D s0 u"
    if e: "sy_threads s r = Some th" "at_pc th = LoopLeft \<or> at_pc th = LoopUnwound"
      "sy_threads u = (sy_threads s)(r := None)"
      "rt_net (sy_rt u) = sh_net (drop_closure A view (at_loop th) (world_of (sy_rt s)))"
      "sy_shutdown u = sy_shutdown s" for r th
  proof -
    obtain c where c: "st_map (nt_store ?n) r = Some c" using mail_okD(7) [OF m, of r] e(1) by blast
    have "r \<notin> D" using sending [of r th] e(1,2) by auto
    then show ?thesis
      using away [of r] drop_closure_net [of "world_of (sy_rt s)" "at_loop th" c A view] rx [OF e(1)] e c sh
      by simp
  qed
  show ?thesis
    using move
  proof cases
    case (spawned a i rt lp)
    then show ?thesis using guard by simp
  next
    case (client rt)
    then show ?thesis using client_op_net [OF ch buf client(4)] sh by (intro keep) auto
  next
    case (handles w)
    then show ?thesis using handle_op_net [OF handles(3)] sh by (intro idle) simp_all
  next
    case (actor i r th inp th' w)
    have th: "sy_threads s r = Some th" using on_worker_thread [OF actor(3)] .
    then have rD: "r \<notin> D" using stay actor(4) by (metis option.distinct(1))
    note net = thread_next_net [OF ch _ actor(4), simplified, OF buf]
    show ?thesis
    proof (cases "receiving (at_pc th)")
      case False
      then show ?thesis using net actor sh rD by (intro keep) auto
    next
      case True
      then have "sh_net w = ?n \<or> (\<exists>c'. sh_net w = put_channel r c' ?n)" using net(2) rx [OF th] by auto
      then show ?thesis
      proof
        assume "sh_net w = ?n"
        then show ?thesis using actor sh rD by (intro keep) auto
      next
        assume "\<exists>c'. sh_net w = put_channel r c' ?n"
        then show ?thesis using actor sh away [OF rD] by auto
      qed
    qed
  next
    case (left i r th)
    then show ?thesis by (intro closing [of r th]) (simp_all add: on_worker_def)
  next
    case (unwound i r th)
    then show ?thesis by (intro closing [of r th]) (simp_all add: on_worker_def)
  next
    case (timer reading y)
    have "grows view ?n (ty_net y)"
      using timer_next_net [OF ch _ timer(3)] buf by (simp add: timer_view_def)
    then show ?thesis using timer sh by (intro keep) simp_all
  next
    case shutting
    then show ?thesis using sh guard mail_okD(2) [OF m] by (auto simp: shutdown_next_def Let_def)
  qed (use sh in \<open>intro idle; simp\<close>)+
qed

lemma waits_histories [simp]:
  "waits_for view (u\<lparr>sy_accepted := a, sy_handled := g\<rparr>) r q = waits_for view u r q"
  by (simp add: waits_for_def)

lemma stuck_histories: "stuck view D s0 (u\<lparr>sy_accepted := a, sy_handled := g\<rparr>) = stuck view D s0 u"
  by (simp add: stuck_def deadlocked_def)

lemma stuck_invariant:
  assumes ch: "chan (on_mailbox A) view" and qch: "chan (on_tasks A) qview"
  shows "invariant_of (\<lambda>s. sys_ok A view qview s \<and> stuck view D s0 s) (sys_step A view qview ty handle)
    (\<lambda>s. sys_ok A view qview s \<and> stuck view D s0 s)"
proof
  fix s t
  assume ok: "sys_ok A view qview s \<and> stuck view D s0 s" and step: "sys_step A view qview ty handle s t"
  obtain took u a g where move: "sys_move A view qview ty handle s took u"
    and t: "t = u\<lparr>sy_accepted := a, sy_handled := g\<rparr>"
    using step by (auto simp: sys_step_def)
  have "stuck view D s0 u" using stuck_move [OF ch _ _ move] ok by (simp add: sys_ok_def)
  then have "stuck view D s0 t" by (simp add: t stuck_histories)
  then show "sys_ok A view qview t \<and> stuck view D s0 t" using sys_ok_step [OF ch qch _ step] ok by blast
qed simp

text \<open>The deadlock, on channels as documented.\<close>

interpretation wedge: invariant_of "\<lambda>s. sys_ok ref_apis (\<lambda>v. v) (\<lambda>v. v) s \<and> stuck (\<lambda>v. v) D s0 s"
  "sys_step ref_apis (\<lambda>v. v) (\<lambda>v. v) ty handle"
  "\<lambda>s. sys_ok ref_apis (\<lambda>v. v) (\<lambda>v. v) s \<and> stuck (\<lambda>v. v) D s0 s"
  by (rule stuck_invariant [OF chan_refs(1,2)])


section \<open>A run of the program\<close>

text \<open>
  The runtime of the earlier examples with an actor that forwards every message to itself:
  a worker takes the actor, the actor takes a message, two clients fill its mailbox again,
  and its send finds no space.
\<close>

type_synonym demo_system = "(runact_value envelope chan_view, runact_value any chan_view,
  runact_value task chan_view, runact_value compute_result chan_view, runact_value, u64) system"

definition relay_behaviour :: "(runact_value, u64) behaviour" where
  "relay_behaviour v cx a = SendTo (cx_actor_id cx) (Any counter_message_type v) (\<lambda>_. Finish (Inr ()) a)"

abbreviation relay_step :: "demo_system \<Rightarrow> demo_system \<Rightarrow> bool" where
  "relay_step \<equiv> sys_step ref_apis (\<lambda>v. v) (\<lambda>v. v) (\<lambda>_. counter_message_type) relay_behaviour"

abbreviation relay_move :: "demo_system \<Rightarrow> chan_ref option \<Rightarrow> demo_system \<Rightarrow> bool" where
  "relay_move \<equiv> sys_move ref_apis (\<lambda>v. v) (\<lambda>v. v) (\<lambda>_. counter_message_type) relay_behaviour"

definition get_message :: "runact_value any" where
  "get_message = Any counter_message_type (CounterMsg GetValue)"

definition relay_net :: "runact_value envelope list \<Rightarrow> runact_value envelope chan_view net" where
  "relay_net q = \<lparr>nt_senders = [ActorId 1 \<mapsto> 0], nt_poisoned = False,
     nt_store = \<lparr>st_map = [0 \<mapsto> demo_mailbox q], st_next = 1\<rparr>\<rparr>"

definition relay_rt :: "runact_value envelope list \<Rightarrow> chan_ref sched \<Rightarrow> demo_runtime" where
  "relay_rt q sc = demo_rt\<lparr>rt_shared := \<lparr>sh_net = relay_net q, sh_replies = store_empty\<rparr>, rt_scheduler := sc\<rparr>"

definition relay_loop :: "(runact_value, u64) apc \<Rightarrow> (runact_value, u64) athread" where
  "relay_loop pc = \<lparr>at_loop = demo_loop, at_pc = pc\<rparr>"

lemma relay_rt_start: "demo_rt = relay_rt [] (rt_scheduler demo_rt)"
proof -
  have "rt_net demo_rt = relay_net []" by (rule net.equality) (simp_all add: relay_net_def)
  then have "rt_shared demo_rt = \<lparr>sh_net = relay_net [], sh_replies = store_empty\<rparr>"
    by (intro shared.equality) (simp_all add: rt_net_def)
  then show ?thesis by (simp add: relay_rt_def)
qed

lemma relay_rt_sel [simp]:
  "rt_scheduler (relay_rt q sc) = sc" "rt_net (relay_rt q sc) = relay_net q"
  "(relay_rt q sc)\<lparr>rt_scheduler := sc'\<rparr> = relay_rt q sc'" "set_net (relay_net q') (relay_rt q sc) = relay_rt q' sc"
  by (simp_all add: relay_rt_def rt_net_def set_net_def)

lemma relay_net_sel [simp]:
  "nt_senders (relay_net q) = [ActorId 1 \<mapsto> 0]" "\<not> nt_poisoned (relay_net q)"
  "st_map (nt_store (relay_net q)) = [0 \<mapsto> demo_mailbox q]"
  "put_channel 0 (demo_mailbox q') (relay_net q) = relay_net q'"
  by (simp_all add: relay_net_def put_channel_def store_set_def)

lemma relay_world [simp]:
  "set_world ((world_of (relay_rt q sc))\<lparr>sh_net := relay_net q'\<rparr>) (relay_rt q sc) = relay_rt q' sc"
  "set_world (world_of (relay_rt q sc)) (relay_rt q sc) = relay_rt q sc"
  by (simp_all add: set_world_def world_of_def relay_rt_def rt_net_def)

lemma relay_send:
  assumes "length q < 2"
  shows "rt_send (on_mailbox ref_apis) (ActorId 1) get_message (relay_rt q sc)
    = (Inr (), relay_rt (q @ [Message get_message]) sc)"
proof -
  have "ref_push m (demo_mailbox q) = demo_mailbox (q @ [m])" "\<not> cv_full (demo_mailbox q)"
    "cv_receivers (demo_mailbox q) = 1" for m
    using assms by (simp_all add: demo_mailbox_def ref_push_def cv_full_def)
  then show ?thesis
    by (simp add: rt_send_def net_try_send_def find_sender_def ref_apis_def ref_api_def)
qed

text \<open>One move after another, with what it does to the parts that matter here.\<close>

definition relayed :: "demo_runtime \<Rightarrow> (runact_value, u64) apc \<Rightarrow> bool" where
  "relayed rt pc \<longleftrightarrow> (\<exists>s. reachable (sys_init ref_apis) relay_step s \<and> sy_rt s = rt
     \<and> sy_threads s = [0 \<mapsto> relay_loop pc] \<and> sy_shutdown s = ShIdle)"

lemma move_reaches:
  assumes "reachable (sys_init ref_apis) relay_step s" and "relay_move s took u"
  obtains t where "reachable (sys_init ref_apis) relay_step t" "sy_rt t = sy_rt u"
    "sy_threads t = sy_threads u" "sy_shutdown t = sy_shutdown u"
proof
  let ?t = "u\<lparr>sy_accepted := accept (\<lambda>v. v) (rt_net (sy_rt s)) (rt_net (sy_rt u)) (sy_accepted s),
    sy_handled := receive (\<lambda>v. v) (rt_net (sy_rt s)) took (sy_handled s)\<rparr>"
  have "relay_step s ?t" using assms(2) by (auto simp: sys_step_def)
  then show "reachable (sys_init ref_apis) relay_step ?t" using reach_step [OF assms(1)] by blast
qed simp_all

lemma relay_moves:
  assumes "relayed rt pc"
    and "\<And>s. sy_rt s = rt \<Longrightarrow> sy_threads s = [0 \<mapsto> relay_loop pc] \<Longrightarrow> sy_shutdown s = ShIdle \<Longrightarrow>
      \<exists>took u. relay_move s took u \<and> sy_rt u = rt' \<and> sy_threads u = [0 \<mapsto> relay_loop pc'] \<and> sy_shutdown u = ShIdle"
  shows "relayed rt' pc'"
proof -
  obtain s where r: "reachable (sys_init ref_apis) relay_step s" and s: "sy_rt s = rt"
    "sy_threads s = [0 \<mapsto> relay_loop pc]" "sy_shutdown s = ShIdle"
    using assms(1) by (auto simp: relayed_def)
  obtain took u where m: "relay_move s took u" and u: "sy_rt u = rt'" "sy_threads u = [0 \<mapsto> relay_loop pc']"
    "sy_shutdown u = ShIdle"
    using assms(2) [OF s] by blast
  from move_reaches [OF r m] u show ?thesis unfolding relayed_def by metis
qed

lemma relay_sends:
  assumes "relayed (relay_rt q sc) pc" and "length q < 2"
  shows "relayed (relay_rt (q @ [Message get_message]) sc) pc"
  using assms(1)
proof (rule relay_moves)
  fix s :: demo_system
  assume s: "sy_rt s = relay_rt q sc" "sy_threads s = [0 \<mapsto> relay_loop pc]" "sy_shutdown s = ShIdle"
  have "client_op ref_apis (sy_rt s) (relay_rt (q @ [Message get_message]) sc)"
    using relay_send [OF assms(2)] s(1) by (auto intro: client_op.op_send)
  then have "relay_move s None (s\<lparr>sy_rt := relay_rt (q @ [Message get_message]) sc\<rparr>)"
    using s(3) by (auto intro: sys_move.client)
  then show "\<exists>took u. relay_move s took u \<and> sy_rt u = relay_rt (q @ [Message get_message]) sc
      \<and> sy_threads u = [0 \<mapsto> relay_loop pc] \<and> sy_shutdown u = ShIdle"
    using s by force
qed

lemma relay_works:
  assumes "relayed (relay_rt q sc) pc" and "0 < length (sc_workers sc)" and "worker_step 0 sc = Some sc'"
  shows "relayed (relay_rt q sc') pc"
  using assms(1)
proof (rule relay_moves)
  fix s :: demo_system
  assume s: "sy_rt s = relay_rt q sc" "sy_threads s = [0 \<mapsto> relay_loop pc]" "sy_shutdown s = ShIdle"
  have "relay_move s None (s\<lparr>sy_rt := (sy_rt s)\<lparr>rt_scheduler := sc'\<rparr>\<rparr>)"
    by (rule sys_move.worker [of 0]) (use assms(2,3) s in simp_all)
  then show "\<exists>took u. relay_move s took u \<and> sy_rt u = relay_rt q sc'
      \<and> sy_threads u = [0 \<mapsto> relay_loop pc] \<and> sy_shutdown u = ShIdle"
    using s by force
qed

lemma relay_acts:
  assumes "relayed (relay_rt q sc) pc" and "0 < length (sc_workers sc)" and "sc_workers sc ! 0 = Running 0"
    and "thread_next ref_apis (\<lambda>_. counter_message_type) relay_behaviour (rt_stop (relay_rt q sc)) (0, [])
      (relay_loop pc) (world_of (relay_rt q sc))
      = Some (relay_loop pc', (world_of (relay_rt q sc))\<lparr>sh_net := relay_net q'\<rparr>)"
  shows "relayed (relay_rt q' sc) pc'"
  using assms(1)
proof (rule relay_moves)
  fix s :: demo_system
  assume s: "sy_rt s = relay_rt q sc" "sy_threads s = [0 \<mapsto> relay_loop pc]" "sy_shutdown s = ShIdle"
  have w: "on_worker 0 0 (relay_loop pc) s" using s assms(2,3) by (simp add: on_worker_def)
  from sys_move.actor [OF w, of ref_apis "\<lambda>_. counter_message_type" relay_behaviour "(0, [])"] assms(4) s
  have "relay_move s (if receiving (at_pc (relay_loop pc)) then Some 0 else None)
      (s\<lparr>sy_rt := relay_rt q' sc, sy_threads := [0 \<mapsto> relay_loop pc']\<rparr>)"
    by simp
  then show "\<exists>took u. relay_move s took u \<and> sy_rt u = relay_rt q' sc
      \<and> sy_threads u = [0 \<mapsto> relay_loop pc'] \<and> sy_shutdown u = ShIdle"
    using s by force
qed

definition busy_sched :: "chan_ref sched" where
  "busy_sched = set_pc 0 (Running 0) (set_queue 0 [] (set_pc 0 AtPop (rt_scheduler demo_rt)))"

definition demo_program :: demo_system where
  "demo_program = \<lparr>sy_rt = demo_start, sy_threads = Map.empty, sy_timer = TkTop, sy_reading = 0, sy_fired = [],
    sy_shutdown = ShIdle, sy_accepted = (\<lambda>_. []), sy_handled = (\<lambda>_. [])\<rparr>"

lemma demo_program_starts: "reachable (sys_init ref_apis) relay_step demo_program"
proof (rule reach_init)
  show "sys_init ref_apis demo_program"
    unfolding sys_init_def
    by (intro conjI exI [of _ "Some 2"] exI [of _ 0] exI [of _ demo_config])
       (simp_all add: demo_program_def ref_apis_def demo_with_config, simp_all add: demo_config_def num_workers_def)
qed

lemma relayed_started: "relayed (relay_rt [] (rt_scheduler demo_rt)) LoopTop"
proof -
  note r = demo_program_starts
  have "relay_move demo_program None (demo_program\<lparr>sy_rt := demo_rt, sy_threads := (sy_threads demo_program)
      (al_rx demo_loop \<mapsto> \<lparr>at_loop = demo_loop, at_pc = LoopTop\<rparr>)\<rparr>)"
    by (rule sys_move.spawned [where a = 5 and i = "ActorId 1"])
       (simp_all add: unguarded_def ref_apis_def demo_rt_spawn demo_program_def)
  from move_reaches [OF r this] show ?thesis
    unfolding relayed_def relay_rt_start [symmetric]
    by (simp add: relay_loop_def demo_loop_def demo_program_def) metis
qed

lemma relayed_top: "relayed (relay_rt [] busy_sched) LoopTop"
proof -
  have sc: "rt_scheduler demo_rt = sched_spawn 0 (scheduler_new 2)"
    using rt_spawn_parts(3) [OF demo_rt_spawn] by (simp add: demo_loop_def)
  have 1: "worker_step 0 (rt_scheduler demo_rt) = Some (set_pc 0 AtPop (rt_scheduler demo_rt))"
    "worker_step 0 (set_pc 0 AtPop (rt_scheduler demo_rt)) = Some busy_sched"
    "sc_workers (rt_scheduler demo_rt) = [AtTop, AtTop]"
    by (simp_all add: sc sched_spawn_def scheduler_new_def worker_step_def set_pc_def rq_new_def rq_push_def
        rq_pop_def busy_sched_def set_queue_def eval_nat_numeral Let_def)
  then show ?thesis
    using relay_works [OF relay_works [OF relayed_started _ 1(1)] _ 1(2)] by (simp add: set_pc_def)
qed

lemma relayed_stuck: "relayed (relay_rt [Message get_message, Message get_message] busy_sched)
    (InSend True (ActorId 1) get_message (\<lambda>_. Finish (Inr ()) 5))"
proof -
  have b: "0 < length (sc_workers busy_sched)" "sc_workers busy_sched ! 0 = Running 0"
    by (simp_all add: busy_sched_def sched_spawn_def scheduler_new_def set_pc_def set_queue_def
        rt_spawn_parts(3) [OF demo_rt_spawn] Let_def eval_nat_numeral)
  have stop: "\<not> rt_stop (relay_rt q sc)" for q sc
    by (simp add: relay_rt_def demo_rt_def rt_spawn_def demo_start_def with_config_def compute_new_def Let_def
        set_net_def enlist_def split: prod.splits)
  let ?m = "Message get_message" and ?k = "\<lambda>_. Finish (Inr ()) 5 :: (runact_value, u64) act"
  let ?next = "\<lambda>q pc. thread_next ref_apis (\<lambda>_. counter_message_type) relay_behaviour
      (rt_stop (relay_rt q busy_sched)) (0, []) (relay_loop pc) (world_of (relay_rt q busy_sched))"
  have taken: "ref_pop (demo_mailbox [?m]) = (?m, demo_mailbox [])" by (simp add: demo_mailbox_def ref_pop_def)
  have same: "world_of (relay_rt q sc) = (world_of (relay_rt q sc))\<lparr>sh_net := relay_net q\<rparr>" for q sc
    by (simp add: world_of_def)
  have start: "set_reply_sender None (al_ctx demo_loop) = al_ctx demo_loop"
    "cx_reply_sender (al_ctx demo_loop) = None" "cx_actor_id (al_ctx demo_loop) = ActorId 1"
    "cx_senders (al_ctx demo_loop)" "al_rx demo_loop = 0" "al_actor demo_loop = 5"
    by (simp_all add: demo_loop_def actor_start_context_def context_new_def set_senders_def
        set_timer_handle_def set_compute_sender_def set_reply_sender_def)
  have opened: "open_envelope A (\<lambda>_. counter_message_type) relay_behaviour True ?m demo_loop w
      = (relay_loop (InHandler True (SendTo (ActorId 1) get_message ?k)), w)"
    for A and w :: "(runact_value envelope chan_view, runact_value any chan_view,
      runact_value task chan_view, runact_value compute_result chan_view, runact_value) world"
    using start
    by (simp add: open_envelope_def call_handler_def Let_def relay_behaviour_def drop_reply_def relay_loop_def
        get_message_def)
  have top: "?next [?m] LoopTop = Some (relay_loop TimedRecv, (world_of (relay_rt [?m] busy_sched))\<lparr>sh_net := relay_net [?m]\<rparr>)"
    using stop same [of "[?m]"] by (simp add: thread_next_def relay_loop_def)
  have recv: "?next [?m] TimedRecv = Some (relay_loop (InHandler True (SendTo (ActorId 1) get_message ?k)),
      (world_of (relay_rt [?m] busy_sched))\<lparr>sh_net := relay_net []\<rparr>)"
    using taken opened [of "ref_apis"] start(5)
    by (simp add: thread_next_def relay_loop_def [of TimedRecv] ref_apis_def ref_api_def demo_mailbox_def [of "[?m]"])
  have enter: "?next [?m, ?m] (InHandler True (SendTo (ActorId 1) get_message ?k))
      = Some (relay_loop (InSend True (ActorId 1) get_message ?k),
        (world_of (relay_rt [?m, ?m] busy_sched))\<lparr>sh_net := relay_net [?m, ?m]\<rparr>)"
    using same [of "[?m, ?m]"] by (simp add: thread_next_def relay_loop_def start)
  have "relayed (relay_rt [?m] busy_sched) TimedRecv"
    using relay_acts [OF relay_sends [OF relayed_top] b, simplified, OF top] .
  then have "relayed (relay_rt [] busy_sched) (InHandler True (SendTo (ActorId 1) get_message ?k))"
    by (rule relay_acts [OF _ b recv])
  then have "relayed (relay_rt [?m] busy_sched) (InHandler True (SendTo (ActorId 1) get_message ?k))"
    using relay_sends [of "[]"] by simp
  then have "relayed (relay_rt [?m, ?m] busy_sched) (InHandler True (SendTo (ActorId 1) get_message ?k))"
    using relay_sends [of "[?m]"] by simp
  then show ?thesis by (rule relay_acts [OF _ b enter])
qed


section \<open>The program\<close>

lemma relay_stuck_state:
  obtains s :: demo_system where "reachable (sys_init ref_apis) relay_step s"
    "sy_rt s = relay_rt [Message get_message, Message get_message] busy_sched"
    "sy_threads s = [0 \<mapsto> relay_loop (InSend True (ActorId 1) get_message (\<lambda>_. Finish (Inr ()) 5))]"
    "sy_shutdown s = ShIdle"
  using relayed_stuck by (auto simp: relayed_def)

lemma relay_rt_capacity [simp]: "rt_mailbox_capacity (relay_rt q sc) = 2"
  using rt_spawn_parts(2) [OF demo_rt_spawn] by (simp add: relay_rt_def)

text \<open>
  C1: whatever the interleaving of clients, actors, timers and shutdown, no mailbox loses,
  duplicates or reorders a message while its actor runs: the messages it accepted are those
  the loop received followed by those it holds, never more than the capacity. Once the loop
  has ended the mailbox is empty and what was handled is an initial part of what was
  accepted: messages that arrive after the last look at the mailbox are dropped.
\<close>

theorem mailboxes_lose_nothing:
  assumes "chan (on_mailbox A) view" and "chan (on_tasks A) qview"
    and "reachable (sys_init A) (sys_step A view qview ty handle) s"
    and "st_map (nt_store (rt_net (sy_rt s))) r = Some c"
  shows "length (cv_queue (view c)) \<le> rt_mailbox_capacity (sy_rt s)
    \<and> (if r \<in> dom (sy_threads s) then sy_accepted s r = sy_handled s r @ cv_queue (view c)
       else cv_queue (view c) = [] \<and> take (length (sy_handled s r)) (sy_accepted s r) = sy_handled s r)"
  using mail_okD(6) [OF sys_ok_mail(1) [OF assms(1-3)] assms(4)] by (auto simp: box_ok_def)

theorem mailboxes_lose_nothing_witness:
  "\<exists>s :: demo_system. reachable (sys_init ref_apis) relay_step s
    \<and> sy_accepted s 0 = sy_handled s 0 @ [Message get_message, Message get_message]"
proof -
  obtain s :: demo_system where s: "reachable (sys_init ref_apis) relay_step s"
    "sy_rt s = relay_rt [Message get_message, Message get_message] busy_sched"
    "sy_threads s = [0 \<mapsto> relay_loop (InSend True (ActorId 1) get_message (\<lambda>_. Finish (Inr ()) 5))]"
    by (rule relay_stuck_state)
  have c: "st_map (nt_store (rt_net (sy_rt s))) 0 = Some (demo_mailbox [Message get_message, Message get_message])"
    by (simp add: s)
  from mailboxes_lose_nothing [OF chan_refs(1,2) s(1) c] s(1) show ?thesis
    by (intro exI [of _ s]) (simp add: s(3) demo_mailbox_def)
qed

text \<open>
  C12: an actor is run by one worker at a time. The task a worker runs is in no run queue, in
  no other worker's hands and not among the ended ones, and its loop exists and reads the
  mailbox the task is named by.
\<close>

theorem actor_runs_on_one_worker:
  assumes "chan (on_mailbox A) view" and "chan (on_tasks A) qview"
    and "reachable (sys_init A) (sys_step A view qview ty handle) s"
    and "i < length (sc_workers (rt_scheduler (sy_rt s)))"
    and "sc_workers (rt_scheduler (sy_rt s)) ! i = Running r"
  shows "(\<exists>th. sy_threads s r = Some th \<and> al_rx (at_loop th) = r)
    \<and> r \<notin> set (concat (sc_queues (rt_scheduler (sy_rt s))))
    \<and> r \<notin> set (sc_done (rt_scheduler (sy_rt s))) \<union> set (sc_panicked (rt_scheduler (sy_rt s)))
    \<and> (\<forall>j. j < length (sc_workers (rt_scheduler (sy_rt s))) \<and> j \<noteq> i \<longrightarrow>
         r \<notin> set (held (sc_workers (rt_scheduler (sy_rt s)) ! j)))"
proof -
  have ok: "sys_ok A view qview s" by (rule sys_always [OF assms(1-3)])
  then have t: "sched_inv (rt_scheduler (sy_rt s))" "distinct (sc_spawned (rt_scheduler (sy_rt s)))"
    by (simp_all add: sys_ok_def sys_tasks_def Let_def)
  have "r \<in> dom (sy_threads s)" by (rule sys_ok_running [OF ok assms(4,5)])
  then show ?thesis
    using running_alone [OF t assms(4,5)] sys_ok_mail(2) [OF assms(1-3)] by blast
qed

lemma busy_worker: "sc_workers busy_sched = [Running 0, AtTop]"
  by (simp add: busy_sched_def sched_spawn_def scheduler_new_def set_pc_def set_queue_def
      rt_spawn_parts(3) [OF demo_rt_spawn] Let_def eval_nat_numeral)

theorem actor_runs_on_one_worker_witness:
  "\<exists>s :: demo_system. reachable (sys_init ref_apis) relay_step s
    \<and> sc_workers (rt_scheduler (sy_rt s)) ! 0 = Running 0
    \<and> 0 \<notin> set (concat (sc_queues (rt_scheduler (sy_rt s))))"
proof -
  obtain s :: demo_system where s: "reachable (sys_init ref_apis) relay_step s"
    "sy_rt s = relay_rt [Message get_message, Message get_message] busy_sched"
    by (rule relay_stuck_state)
  have i: "0 < length (sc_workers (rt_scheduler (sy_rt s)))" "sc_workers (rt_scheduler (sy_rt s)) ! 0 = Running 0"
    by (simp_all add: s(2) busy_worker)
  from actor_runs_on_one_worker [OF chan_refs(1,2) s(1) i] s(1) i(2) show ?thesis by blast
qed





text \<open>
  C8: a set of actors each of which sends to a full mailbox of another of the set, or an
  actor that sends to itself while its mailbox is full, never moves again. The sends hold
  the read guard of the map of senders, so from then on no actor is spawned, and a
  shutdown waits for the write lock for ever, whatever its timeout.
\<close>

theorem deadlock_is_permanent:
  assumes "chan (on_mailbox A) view" and "chan (on_tasks A) qview"
    and "reachable (sys_init A) (sys_step A view qview ty handle) s"
    and "deadlocked view D s" and "sy_shutdown s \<in> {ShIdle, ShWait}"
    and "(sys_step A view qview ty handle)\<^sup>*\<^sup>* s t"
  shows "deadlocked view D t \<and> (\<forall>r \<in> D. sy_threads t r = sy_threads s r)
    \<and> nt_senders (rt_net (sy_rt t)) = nt_senders (rt_net (sy_rt s)) \<and> sy_shutdown t \<in> {ShIdle, ShWait}"
proof -
  have "sys_ok A view qview s \<and> stuck view D s s"
    using sys_always [OF assms(1-3)] assms(4,5) by (simp add: stuck_def)
  with invariant_of.kept_by_run [OF stuck_invariant [OF assms(1,2), of D s] assms(6)] show ?thesis
    by (simp add: stuck_def)
qed

theorem deadlock_is_permanent_witness:
  "\<exists>s t :: demo_system. reachable (sys_init ref_apis) relay_step s \<and> relay_step\<^sup>*\<^sup>* s t
    \<and> sy_shutdown s = ShIdle \<and> sy_shutdown t = ShWait \<and> deadlocked (\<lambda>v. v) {0} t
    \<and> shutdown_next ref_apis t = None"
proof -
  obtain s :: demo_system where s: "reachable (sys_init ref_apis) relay_step s"
    "sy_rt s = relay_rt [Message get_message, Message get_message] busy_sched"
    "sy_threads s = [0 \<mapsto> relay_loop (InSend True (ActorId 1) get_message (\<lambda>_. Finish (Inr ()) 5))]"
    "sy_shutdown s = ShIdle"
    by (rule relay_stuck_state)
  have d: "deadlocked (\<lambda>v. v) {0} s"
    by (auto simp: deadlocked_def waits_for_def s(2,3) relay_loop_def demo_mailbox_def cv_full_def)
  let ?u = "s\<lparr>sy_rt := (sy_rt s)\<lparr>rt_stop := True\<rparr>, sy_shutdown := ShWait\<rparr>"
  have "relay_move s None ?u" by (rule sys_move.shut) (simp add: s(4))
  then obtain t where "relay_step s t" and sh: "sy_shutdown t = ShWait" and t: "sy_threads t = sy_threads s"
    and n: "rt_net (sy_rt t) = rt_net (sy_rt s)"
    unfolding sys_step_def by fastforce
  then have run: "relay_step\<^sup>*\<^sup>* s t" by blast
  have "deadlocked (\<lambda>v. v) {0} t"
    using deadlock_is_permanent [OF chan_refs(1,2) s(1) d _ run] s(4) by blast
  moreover have "shutdown_next ref_apis t = None"
    using t n by (simp add: shutdown_next_def sh unguarded_def s(2,3) relay_loop_def)
  ultimately show ?thesis using s(1,4) run sh by blast
qed

end
