(* ===== verification/SystemShutdown.thy ===== *)
theory SystemShutdown
  imports SystemProps
begin

text \<open>
  \<open>Runtime::shutdown\<close> in the running program: it works through its program points in
  order, and has stopped every thread of the runtime when it returns.
\<close>

section \<open>Threads that have ended\<close>

definition timer_ended :: "('c, 'r, 'q, 'p, 'v, 's) system \<Rightarrow> bool" where
  "timer_ended s \<longleftrightarrow> sy_timer s = TkStopped \<or> sy_timer s = TkDead"

text \<open>What holds at each program point of the shutdown.\<close>

definition stage_ok :: "('c, 'r, 'q, 'p, 'v, 's) system \<Rightarrow> bool" where
  "stage_ok s \<longleftrightarrow> \<not> rt_actors_poisoned (sy_rt s) \<and> \<not> nt_poisoned (rt_net (sy_rt s))
     \<and> (case sy_shutdown s of
          ShIdle \<Rightarrow> True
        | ShWait \<Rightarrow> rt_stop (sy_rt s)
        | ShActors \<Rightarrow> True
        | ShTimers \<Rightarrow> True
        | ShJoinTimers \<Rightarrow> rt_timer_stop (sy_rt s)
        | ShStopWorkers \<Rightarrow> timer_ended s
        | ShJoinWorkers \<Rightarrow> timer_ended s \<and> sc_stop (rt_scheduler (sy_rt s))
        | ShStopPool \<Rightarrow> timer_ended s \<and> joined (rt_scheduler (sy_rt s))
        | ShDropSender \<Rightarrow> timer_ended s \<and> joined (rt_scheduler (sy_rt s))
        | ShJoinPool \<Rightarrow> timer_ended s \<and> joined (rt_scheduler (sy_rt s)) \<and> \<not> cp_sender (rt_compute (sy_rt s))
        | ShDone \<Rightarrow> timer_ended s \<and> joined (rt_scheduler (sy_rt s)) \<and> pool_joined (rt_compute (sy_rt s))
            \<and> \<not> cp_sender (rt_compute (sy_rt s)))"

section \<open>What no step undoes\<close>

lemma pool_joined_step:
  assumes "cp_step qapi qview rapi p p'"
  shows "pool_joined p \<Longrightarrow> pool_joined p'" and "cp_sender p' \<Longrightarrow> cp_sender p"
proof -
  assume j: "pool_joined p"
  from cp_step_split [OF assms] show "pool_joined p'"
  proof
    assume "\<exists>w < length (cp_workers p). worker_next qapi qview rapi w p = Some p'"
    then obtain w where w: "w < length (cp_workers p)" "worker_next qapi qview rapi w p = Some p'" by blast
    then have "cp_workers p ! w = CpExited" using j by (simp add: pool_joined_def list_all_length)
    then show ?thesis using w(2) by (simp add: worker_next_def)
  qed (use j in \<open>simp add: aside_def pool_joined_def\<close>)
next
  have w: "cp_sender t = cp_sender p" if "worker_next qapi qview rapi i p = Some t" for i t
    using that
    by (cases "cp_workers p ! i")
       (auto simp: worker_next_def leave_loop_def Let_def split: if_splits sum.splits option.splits recv_timeout_error.splits)
  show "cp_sender p' \<Longrightarrow> cp_sender p"
    using assms w
    by cases
       (auto simp: compute_spawn_def submit_task_def abandon_def pool_raise_stop_def pool_take_sender_def
         dest: make_task_queue split: prod.splits if_splits option.splits sum.splits)
qed

lemma sched_stop_step: "sched_step s t \<Longrightarrow> sc_stop s \<Longrightarrow> sc_stop t"
  by (cases rule: sched_step.cases)
     (auto simp: sched_spawn_def sched_stop_def set_pc_def Let_def worker_step_move dest: worker_move_frame(7))

lemma rt_spawn_flags:
  assumes "rt_spawn api qapi a rt = (Inr i, rt', Some lp)"
  shows "rt_actors_poisoned rt' = rt_actors_poisoned rt"
  using assms by (auto simp: rt_spawn_def Let_def enlist_def set_net_def split: if_splits prod.splits)

lemma client_op_actors: "client_op A s t \<Longrightarrow> rt_actors_poisoned t = rt_actors_poisoned s"
  by (cases rule: client_op.cases)
     (auto simp: rt_send_def rt_send_blocking_def rt_request_def rt_spawn_supervisor_def
      supervisor_pick_def supervisor_insert_def rt_schedule_timer_def rt_schedule_interval_def
      rt_cancel_timer_def rt_timer_def fetch_add1_def Let_def enlist_def set_net_def set_replies_def
      split: prod.splits sum.splits if_splits)

lemma shutdown_next_flags:
  assumes "shutdown_next A s = Some t"
  shows "rt_actors_poisoned (sy_rt t) = rt_actors_poisoned (sy_rt s)" "sy_timer t = sy_timer s"
  using assms
  by (auto simp: shutdown_next_def Let_def set_net_def split: shut_pc.splits if_splits tphase.splits)

text \<open>The flags and the ended threads, across a step of the program.\<close>

definition lasting :: "('c, 'r, 'q, 'p, 'v, 's) system \<Rightarrow> ('c, 'r, 'q, 'p, 'v, 's) system \<Rightarrow> bool" where
  "lasting s u \<longleftrightarrow> rt_actors_poisoned (sy_rt u) = rt_actors_poisoned (sy_rt s)
     \<and> (rt_stop (sy_rt s) \<longrightarrow> rt_stop (sy_rt u)) \<and> (rt_timer_stop (sy_rt s) \<longrightarrow> rt_timer_stop (sy_rt u))
     \<and> (timer_ended s \<longrightarrow> timer_ended u)
     \<and> (sc_stop (rt_scheduler (sy_rt s)) \<longrightarrow> sc_stop (rt_scheduler (sy_rt u)))
     \<and> (joined (rt_scheduler (sy_rt s)) \<longrightarrow> joined (rt_scheduler (sy_rt u)))
     \<and> (pool_joined (rt_compute (sy_rt s)) \<longrightarrow> pool_joined (rt_compute (sy_rt u)))
     \<and> (cp_sender (rt_compute (sy_rt u)) \<longrightarrow> cp_sender (rt_compute (sy_rt s)))"

lemma set_world_flags [simp]: "rt_actors_poisoned (set_world w rt) = rt_actors_poisoned rt"
  by (simp add: set_world_def)

lemma set_timer_view_flags [simp]:
  "rt_actors_poisoned (sy_rt (set_timer_view t s)) = rt_actors_poisoned (sy_rt s)"
  by (simp add: set_timer_view_def set_net_def)

lemma move_flags:
  assumes ch: "chan (on_mailbox A) view" and move: "sys_move A view qview ty handle s took u"
  shows "rt_actors_poisoned (sy_rt u) = rt_actors_poisoned (sy_rt s)"
    and "rt_stop (sy_rt s) \<longrightarrow> rt_stop (sy_rt u)"
    and "rt_timer_stop (sy_rt s) \<longrightarrow> rt_timer_stop (sy_rt u)"
    and "timer_ended s \<longrightarrow> timer_ended u"
proof -
  have "rt_actors_poisoned (sy_rt u) = rt_actors_poisoned (sy_rt s) \<and> (rt_stop (sy_rt s) \<longrightarrow> rt_stop (sy_rt u))
      \<and> (rt_timer_stop (sy_rt s) \<longrightarrow> rt_timer_stop (sy_rt u)) \<and> (timer_ended s \<longrightarrow> timer_ended u)"
    using move
  proof cases
    case (spawned a i rt lp)
    then show ?thesis using rt_spawn_parts [OF spawned(5)] rt_spawn_flags [OF spawned(5)]
      by (simp add: timer_ended_def)
  next
    case (client rt)
    then show ?thesis using client_op_rest [OF client(4)] client_op_actors [OF client(4)]
      by (simp add: timer_ended_def)
  next
    case (timer reading t)
    have "\<not> timer_ended s"
      using timer(3) by (auto simp: timer_ended_def timer_next_def timer_view_def)
    then show ?thesis using timer(2) by simp
  next
    case shutting
    note p = shutdown_next_parts [OF shutting(2)] shutdown_next_flags [OF shutting(2)]
      shutdown_next_timers [OF shutting(2)]
    then show ?thesis by (auto simp: timer_ended_def)
  qed (simp_all add: timer_ended_def)
  then show "rt_actors_poisoned (sy_rt u) = rt_actors_poisoned (sy_rt s)"
    and "rt_stop (sy_rt s) \<longrightarrow> rt_stop (sy_rt u)"
    and "rt_timer_stop (sy_rt s) \<longrightarrow> rt_timer_stop (sy_rt u)"
    and "timer_ended s \<longrightarrow> timer_ended u" by blast+
qed

lemma move_lasting:
  assumes ch: "chan (on_mailbox A) view" and qch: "chan (on_tasks A) qview"
    and ok: "sys_ok A view qview s" and move: "sys_move A view qview ty handle s took u"
  shows "lasting s u"
proof -
  have mail: "sys_mail view s" and tasks: "sys_tasks s" and pool: "sys_pool A qview s"
    using ok by (simp_all add: sys_ok_def)
  have buf: "all_buffered view (rt_net (sy_rt s))" using mail mail_okD(4) by (auto simp: sys_mail_def)
  have "cp_moved A qview (card (holders s)) (rt_compute (sy_rt s)) (card (holders u)) (rt_compute (sy_rt u))"
    using sys_move_pool [OF qch threads_finite [OF tasks] _ spawned_fresh [OF ch mail] move] pool
    by (simp add: sys_pool_def)
  then have "rt_compute (sy_rt u) = rt_compute (sy_rt s)
      \<or> cp_step (on_tasks A) qview (on_result A) (rt_compute (sy_rt s)) (rt_compute (sy_rt u))"
    by (simp add: cp_moved_def)
  then have "(pool_joined (rt_compute (sy_rt s)) \<longrightarrow> pool_joined (rt_compute (sy_rt u)))
     \<and> (cp_sender (rt_compute (sy_rt u)) \<longrightarrow> cp_sender (rt_compute (sy_rt s)))"
    by (elim disjE) (simp_all add: pool_joined_step)
  moreover from sys_move_scheduler [OF ch buf move]
  have "(sc_stop (rt_scheduler (sy_rt s)) \<longrightarrow> sc_stop (rt_scheduler (sy_rt u)))
     \<and> (joined (rt_scheduler (sy_rt s)) \<longrightarrow> joined (rt_scheduler (sy_rt u)))"
    by (elim disjE) (simp_all add: sched_stop_step joined_frozen)
  ultimately show ?thesis using move_flags [OF ch move] unfolding lasting_def by blast
qed


section \<open>The program points in order\<close>

lemma stage_kept:
  assumes "stage_ok s" and "lasting s u" and "sy_shutdown u = sy_shutdown s" and "\<not> nt_poisoned (rt_net (sy_rt u))"
  shows "stage_ok u"
  using assms by (cases "sy_shutdown s") (simp_all add: stage_ok_def lasting_def)

lemma shutdown_next_point:
  assumes "shutdown_next A s = Some u" and "\<not> rt_actors_poisoned (sy_rt s)" and "\<not> nt_poisoned (rt_net (sy_rt s))"
  shows "case sy_shutdown s of
      ShIdle \<Rightarrow> False
    | ShWait \<Rightarrow> sy_shutdown u = ShActors
    | ShActors \<Rightarrow> sy_shutdown u = ShTimers
    | ShTimers \<Rightarrow> sy_shutdown u = ShJoinTimers \<and> rt_timer_stop (sy_rt u)
    | ShJoinTimers \<Rightarrow> sy_shutdown u = ShStopWorkers \<and> timer_ended s
    | ShStopWorkers \<Rightarrow> sy_shutdown u = ShJoinWorkers \<and> sc_stop (rt_scheduler (sy_rt u))
    | ShJoinWorkers \<Rightarrow> sy_shutdown u = ShStopPool \<and> joined (rt_scheduler (sy_rt s))
    | ShStopPool \<Rightarrow> sy_shutdown u = ShDropSender
    | ShDropSender \<Rightarrow> sy_shutdown u = ShJoinPool \<and> \<not> cp_sender (rt_compute (sy_rt u))
    | ShJoinPool \<Rightarrow> sy_shutdown u = ShDone \<and> pool_joined (rt_compute (sy_rt s))
    | ShDone \<Rightarrow> False"
  using assms
  by (cases "sy_shutdown s"; cases "sy_timer s")
     (auto simp: shutdown_next_def Let_def timer_ended_def sched_stop_def pool_take_sender_def split: if_splits)

lemma shutting_stage:
  assumes st: "stage_ok s" and last: "lasting s u" and np: "\<not> nt_poisoned (rt_net (sy_rt u))"
    and step: "shutdown_next A s = Some u"
  shows "stage_ok u"
proof -
  note p = shutdown_next_point [OF step]
  show ?thesis using st last np p by (cases "sy_shutdown s") (simp_all add: stage_ok_def lasting_def)
qed

lemma stage_move:
  assumes st: "stage_ok s" and last: "lasting s u" and np: "\<not> nt_poisoned (rt_net (sy_rt u))"
    and move: "sys_move A view qview ty handle s took u"
  shows "stage_ok u"
  using move
proof cases
  case shut
  then show ?thesis using st np last by (simp add: stage_ok_def)
next
  case shutting
  then show ?thesis using shutting_stage [OF st last np] by simp
qed (rule stage_kept [OF st last _ np]; simp)+

lemma stage_histories: "stage_ok (u\<lparr>sy_accepted := a, sy_handled := g\<rparr>) = stage_ok u"
  "timer_ended (u\<lparr>sy_accepted := a, sy_handled := g\<rparr>) = timer_ended u"
  "lasting s (u\<lparr>sy_accepted := a, sy_handled := g\<rparr>) = lasting s u"
  by (simp_all add: stage_ok_def timer_ended_def lasting_def split: shut_pc.splits)

lemma stage_init: "sys_init A s \<Longrightarrow> stage_ok s"
proof -
  assume "sys_init A s"
  then obtain par tasks config where w: "with_config (on_tasks A) par 0 tasks config = Inr (sy_rt s)"
    and e: "sy_shutdown s = ShIdle"
    by (auto simp: sys_init_def)
  show "stage_ok s"
    using w [symmetric] e by (auto simp: stage_ok_def with_config_def net_empty_def rt_net_def split: sum.splits)
qed

lemma step_lasting:
  assumes ch: "chan (on_mailbox A) view" and qch: "chan (on_tasks A) qview"
    and ok: "sys_ok A view qview s" and step: "sys_step A view qview ty handle s t"
  shows "lasting s t" and "stage_ok s \<Longrightarrow> stage_ok t"
proof -
  obtain took u a g where move: "sys_move A view qview ty handle s took u"
    and t: "t = u\<lparr>sy_accepted := a, sy_handled := g\<rparr>"
    using step by (auto simp: sys_step_def)
  have l: "lasting s u" by (rule move_lasting [OF ch qch ok move])
  then show "lasting s t" by (simp add: t stage_histories)
  have "sys_ok A view qview t" by (rule sys_ok_step [OF ch qch ok step])
  then have "sys_mail view t" by (simp add: sys_ok_def)
  then have "\<not> nt_poisoned (rt_net (sy_rt u))" by (simp add: sys_mail_def mail_ok_def t)
  then show "stage_ok s \<Longrightarrow> stage_ok t" using stage_move [OF _ l _ move] by (simp add: t stage_histories)
qed

lemma stage_invariant:
  assumes "chan (on_mailbox A) view" and "chan (on_tasks A) qview"
  shows "invariant_of (sys_init A) (sys_step A view qview ty handle) (\<lambda>s. sys_ok A view qview s \<and> stage_ok s)"
  by unfold_locales
     (use sys_ok_init [OF assms(2)] stage_init sys_ok_step [OF assms] step_lasting [OF assms] in blast)+

interpretation stages: invariant_of "sys_init ref_apis" "sys_step ref_apis (\<lambda>v. v) (\<lambda>v. v) ty handle"
  "\<lambda>s. sys_ok ref_apis (\<lambda>v. v) (\<lambda>v. v) s \<and> stage_ok s"
  by (rule stage_invariant [OF chan_refs(1,2)])

section \<open>After the shutdown\<close>

text \<open>With every thread ended no loop moves and none receives.\<close>

definition silent ::
  "('c, 'r, 'q, 'p, 'v, 's) system \<Rightarrow> ('c, 'r, 'q, 'p, 'v, 's) system \<Rightarrow> bool" where
  "silent s t \<longleftrightarrow> timer_ended t \<and> joined (rt_scheduler (sy_rt t)) \<and> pool_joined (rt_compute (sy_rt t))
     \<and> sy_handled t = sy_handled s \<and> sy_fired t = sy_fired s \<and> sy_threads s \<subseteq>\<^sub>m sy_threads t"

lemma joined_idle: "joined (rt_scheduler (sy_rt s)) \<Longrightarrow> \<not> on_worker i r th s"
  using nth_mem [of i "sc_workers (rt_scheduler (sy_rt s))"] by (fastforce simp: joined_def on_worker_def)

lemma silent_step:
  assumes ch: "chan (on_mailbox A) view" and qch: "chan (on_tasks A) qview"
    and ok: "sys_ok A view qview s" and si: "silent s0 s" and step: "sys_step A view qview ty handle s t"
  shows "silent s0 t"
proof -
  obtain took u where move: "sys_move A view qview ty handle s took u"
    and t: "sy_threads t = sy_threads u" "sy_fired t = sy_fired u"
      "sy_handled t = receive view (rt_net (sy_rt s)) took (sy_handled s)"
    using step by (auto simp: sys_step_def)
  have idle: "\<not> on_worker i r th s" for i r th using joined_idle si by (auto simp: silent_def)
  have "took = None \<and> sy_fired u = sy_fired s \<and> sy_threads s \<subseteq>\<^sub>m sy_threads u"
    using move
  proof cases
    case (spawned a i rt lp)
    then show ?thesis
      using spawned_fresh [OF ch _ spawned(5)] ok
      by (auto simp: sys_ok_def map_le_def)
  next
    case (timer reading y)
    then have "\<not> timer_ended s" by (auto simp: timer_ended_def timer_next_def timer_view_def)
    then show ?thesis using si by (simp add: silent_def)
  next
    case shutting
    then show ?thesis using shutdown_next_parts(1,5) [OF shutting(2)] by simp
  qed (use idle in simp_all)
  then show ?thesis
    using si step_lasting(1) [OF ch qch ok step]
    by (auto simp: silent_def lasting_def t receive_def intro: map_le_trans)
qed

lemma silent_invariant:
  assumes "chan (on_mailbox A) view" and "chan (on_tasks A) qview"
  shows "invariant_of (\<lambda>s. sys_ok A view qview s \<and> silent s0 s) (sys_step A view qview ty handle)
    (\<lambda>s. sys_ok A view qview s \<and> silent s0 s)"
  by unfold_locales (use sys_ok_step [OF assms] silent_step [OF assms] in blast)+

interpretation aftermath: invariant_of "\<lambda>s. sys_ok ref_apis (\<lambda>v. v) (\<lambda>v. v) s \<and> silent s0 s"
  "sys_step ref_apis (\<lambda>v. v) (\<lambda>v. v) ty handle" "\<lambda>s. sys_ok ref_apis (\<lambda>v. v) (\<lambda>v. v) s \<and> silent s0 s"
  by (rule silent_invariant [OF chan_refs(1,2)])

text \<open>
  C3: when \<open>shutdown\<close> has returned, every thread of the runtime has ended: the timer
  thread, every scheduler worker and every compute worker. Whatever the clients do from
  then on, a second shutdown and new spawns included, no actor handles another message and
  no timer is delivered, and the loops that were left, of actors no worker ever took, stay
  as they are.
\<close>

theorem shutdown_ends_every_thread:
  assumes "chan (on_mailbox A) view" and "chan (on_tasks A) qview"
    and "reachable (sys_init A) (sys_step A view qview ty handle) s" and "sy_shutdown s = ShDone"
    and "(sys_step A view qview ty handle)\<^sup>*\<^sup>* s t"
  shows "(sy_timer t = TkStopped \<or> sy_timer t = TkDead) \<and> joined (rt_scheduler (sy_rt t))
    \<and> pool_joined (rt_compute (sy_rt t)) \<and> sy_handled t = sy_handled s \<and> sy_fired t = sy_fired s
    \<and> sy_threads s \<subseteq>\<^sub>m sy_threads t"
proof -
  have "sys_ok A view qview s \<and> stage_ok s"
    by (rule invariant_of.always [OF stage_invariant [OF assms(1,2)] assms(3)])
  then have "sys_ok A view qview s \<and> silent s s"
    using assms(4) by (simp add: silent_def stage_ok_def)
  from invariant_of.kept_by_run [OF silent_invariant [OF assms(1,2), of s] assms(5) this]
  show ?thesis by (simp add: silent_def timer_ended_def)
qed


text \<open>A runtime without actors that is shut down.\<close>

definition quiet ::
  "chan_ref sched \<Rightarrow> (runact_value task chan_view, runact_value compute_result chan_view, runact_value) cpool
    \<Rightarrow> bool \<Rightarrow> runact_value tphase \<Rightarrow> shut_pc \<Rightarrow> bool" where
  "quiet sc p ts tm sh \<longleftrightarrow> (\<exists>s. reachable (sys_init ref_apis) relay_step s \<and> rt_scheduler (sy_rt s) = sc
     \<and> rt_compute (sy_rt s) = p \<and> rt_timer_stop (sy_rt s) = ts \<and> \<not> rt_actors_poisoned (sy_rt s)
     \<and> \<not> nt_poisoned (rt_net (sy_rt s)) \<and> sy_threads s = Map.empty \<and> sy_timer s = tm \<and> sy_shutdown s = sh)"

lemma quiet_moves:
  assumes "quiet sc p ts tm sh"
    and "\<And>s. rt_scheduler (sy_rt s) = sc \<Longrightarrow> rt_compute (sy_rt s) = p \<Longrightarrow> rt_timer_stop (sy_rt s) = ts \<Longrightarrow>
      \<not> rt_actors_poisoned (sy_rt s) \<Longrightarrow> \<not> nt_poisoned (rt_net (sy_rt s)) \<Longrightarrow> sy_threads s = Map.empty \<Longrightarrow>
      sy_timer s = tm \<Longrightarrow> sy_shutdown s = sh \<Longrightarrow>
      \<exists>took u. relay_move s took u \<and> rt_scheduler (sy_rt u) = sc' \<and> rt_compute (sy_rt u) = p'
        \<and> rt_timer_stop (sy_rt u) = ts' \<and> sy_threads u = Map.empty \<and> sy_timer u = tm' \<and> sy_shutdown u = sh'"
  shows "quiet sc' p' ts' tm' sh'"
proof -
  obtain s where r: "reachable (sys_init ref_apis) relay_step s"
    and s: "rt_scheduler (sy_rt s) = sc" "rt_compute (sy_rt s) = p" "rt_timer_stop (sy_rt s) = ts"
      "\<not> rt_actors_poisoned (sy_rt s)" "\<not> nt_poisoned (rt_net (sy_rt s))" "sy_threads s = Map.empty"
      "sy_timer s = tm" "sy_shutdown s = sh"
    using assms(1) by (auto simp: quiet_def)
  obtain took u where m: "relay_move s took u"
    and u: "rt_scheduler (sy_rt u) = sc'" "rt_compute (sy_rt u) = p'" "rt_timer_stop (sy_rt u) = ts'"
      "sy_threads u = Map.empty" "sy_timer u = tm'" "sy_shutdown u = sh'"
    using assms(2) [OF s] by blast
  let ?t = "u\<lparr>sy_accepted := accept (\<lambda>v. v) (rt_net (sy_rt s)) (rt_net (sy_rt u)) (sy_accepted s),
    sy_handled := receive (\<lambda>v. v) (rt_net (sy_rt s)) took (sy_handled s)\<rparr>"
  have "relay_step s ?t" using m by (auto simp: sys_step_def)
  then have "reachable (sys_init ref_apis) relay_step ?t" using reach_step [OF r] by blast
  moreover from sys_always [OF chan_refs(1,2) this] have "\<not> nt_poisoned (rt_net (sy_rt u))"
    by (simp add: sys_ok_def sys_mail_def mail_ok_def)
  moreover have "\<not> rt_actors_poisoned (sy_rt u)" using move_flags(1) [OF chan_refs(1) m] s(4) by simp
  ultimately show ?thesis unfolding quiet_def using u by (intro exI [of _ ?t]) simp
qed

lemma quiet_shutting:
  assumes "quiet sc p ts tm sh"
    and "\<And>s. rt_scheduler (sy_rt s) = sc \<Longrightarrow> rt_compute (sy_rt s) = p \<Longrightarrow> rt_timer_stop (sy_rt s) = ts \<Longrightarrow>
      \<not> rt_actors_poisoned (sy_rt s) \<Longrightarrow> \<not> nt_poisoned (rt_net (sy_rt s)) \<Longrightarrow> sy_threads s = Map.empty \<Longrightarrow>
      sy_timer s = tm \<Longrightarrow> sy_shutdown s = sh \<Longrightarrow>
      \<exists>u :: demo_system. shutdown_next ref_apis s = Some u \<and> rt_scheduler (sy_rt u) = sc' \<and> rt_compute (sy_rt u) = p'
        \<and> rt_timer_stop (sy_rt u) = ts' \<and> sy_shutdown u = sh'"
  shows "quiet sc' p' ts' tm sh'"
  using assms(1)
proof (rule quiet_moves)
  fix s :: demo_system
  assume s: "rt_scheduler (sy_rt s) = sc" "rt_compute (sy_rt s) = p" "rt_timer_stop (sy_rt s) = ts"
      "\<not> rt_actors_poisoned (sy_rt s)" "\<not> nt_poisoned (rt_net (sy_rt s))" "sy_threads s = Map.empty"
      "sy_timer s = tm" "sy_shutdown s = sh"
  obtain u :: demo_system where u: "shutdown_next ref_apis s = Some u" "rt_scheduler (sy_rt u) = sc'"
    "rt_compute (sy_rt u) = p'" "rt_timer_stop (sy_rt u) = ts'" "sy_shutdown u = sh'"
    using assms(2) [OF s] by blast
  then show "\<exists>took u. relay_move s took u \<and> rt_scheduler (sy_rt u) = sc' \<and> rt_compute (sy_rt u) = p'
        \<and> rt_timer_stop (sy_rt u) = ts' \<and> sy_threads u = Map.empty \<and> sy_timer u = tm \<and> sy_shutdown u = sh'"
    using sys_move.shutting [OF u(1)] shutdown_next_parts(1,4) [OF u(1)] s by metis
qed


abbreviation demo_pool0 :: "(runact_value task chan_view, runact_value compute_result chan_view, runact_value) cpool" where
  "demo_pool0 \<equiv> rt_compute demo_start"

definition demo_pool1 :: "(runact_value task chan_view, runact_value compute_result chan_view, runact_value) cpool" where
  "demo_pool1 = pool_take_sender (on_tasks ref_apis) (pool_raise_stop demo_pool0)"

definition demo_pool2 :: "(runact_value task chan_view, runact_value compute_result chan_view, runact_value) cpool" where
  "demo_pool2 = leave_loop (on_tasks ref_apis) (\<lambda>v. v) (on_result ref_apis) 0 demo_pool1"

lemma demo_pools:
  "cp_workers demo_pool0 = [CpTop]" "cp_workers demo_pool1 = [CpTop]" "cp_stop demo_pool1"
  "cp_workers demo_pool2 = [CpExited]"
  by (simp_all add: demo_pool1_def demo_pool2_def pool_take_sender_def pool_raise_stop_def demo_start_def
      with_config_def compute_new_def Let_def demo_config_def)

lemma quiet_start: "quiet (scheduler_new 2) demo_pool0 False TkTop ShIdle"
  unfolding quiet_def
  by (rule exI [of _ demo_program], rule conjI [OF demo_program_starts])
     (simp add: demo_program_def net_empty_def, simp add: demo_start_def with_config_def compute_new_def Let_def)

lemma quiet_joining: "quiet (scheduler_new 2) demo_pool0 True TkTop ShJoinTimers"
proof -
  have "quiet (scheduler_new 2) demo_pool0 False TkTop ShWait"
    by (rule quiet_moves [OF quiet_start]) (use sys_move.shut in fastforce)
  then have "quiet (scheduler_new 2) demo_pool0 False TkTop ShActors"
    by (rule quiet_shutting) (simp add: shutdown_next_def unguarded_def set_net_def Let_def)
  then have "quiet (scheduler_new 2) demo_pool0 False TkTop ShTimers"
    by (rule quiet_shutting) (simp add: shutdown_next_def)
  then show ?thesis
    by (rule quiet_shutting) (simp add: shutdown_next_def)
qed

lemma quiet_workers:
  "quiet (sched_stop (scheduler_new 2)) demo_pool0 True TkStopped ShJoinWorkers"
proof -
  have "quiet (scheduler_new 2) demo_pool0 True TkStopped ShJoinTimers"
  proof (rule quiet_moves [OF quiet_joining])
    fix s :: demo_system
    assume s: "rt_scheduler (sy_rt s) = scheduler_new 2" "rt_compute (sy_rt s) = demo_pool0"
      "rt_timer_stop (sy_rt s) = True" "sy_threads s = Map.empty" "sy_timer s = TkTop"
      "sy_shutdown s = ShJoinTimers"
    have "timer_next (on_mailbox ref_apis) 0 (timer_view 0 {} s) = Some ((timer_view 0 {} s)\<lparr>ty_phase := TkStopped\<rparr>)"
      using s by (simp add: timer_next_def timer_view_def)
    from sys_move.timer [OF this]
    show "\<exists>took u. relay_move s took u \<and> rt_scheduler (sy_rt u) = scheduler_new 2
        \<and> rt_compute (sy_rt u) = demo_pool0 \<and> rt_timer_stop (sy_rt u) = True \<and> sy_threads u = Map.empty
        \<and> sy_timer u = TkStopped \<and> sy_shutdown u = ShJoinTimers"
      using s by (intro exI conjI) (assumption, simp_all)
  qed
  then have "quiet (scheduler_new 2) demo_pool0 True TkStopped ShStopWorkers"
    by (rule quiet_shutting) (simp add: shutdown_next_def)
  then show ?thesis by (rule quiet_shutting) (simp add: shutdown_next_def)
qed

lemma quiet_worker_exits:
  assumes "quiet sc p ts tm sh" and "i < length (sc_workers sc)" and "worker_step i sc = Some sc'"
  shows "quiet sc' p ts tm sh"
proof (rule quiet_moves [OF assms(1)])
  fix s :: demo_system
  assume s: "rt_scheduler (sy_rt s) = sc" "rt_compute (sy_rt s) = p" "rt_timer_stop (sy_rt s) = ts"
    "sy_threads s = Map.empty" "sy_timer s = tm" "sy_shutdown s = sh"
  have "relay_move s None (s\<lparr>sy_rt := (sy_rt s)\<lparr>rt_scheduler := sc'\<rparr>\<rparr>)"
    by (rule sys_move.worker [of i]) (use assms(2,3) s in simp_all)
  then show "\<exists>took u. relay_move s took u \<and> rt_scheduler (sy_rt u) = sc' \<and> rt_compute (sy_rt u) = p
        \<and> rt_timer_stop (sy_rt u) = ts \<and> sy_threads u = Map.empty \<and> sy_timer u = tm \<and> sy_shutdown u = sh"
    using s by force
qed

lemma quiet_done: "\<exists>sc. quiet sc demo_pool2 True TkStopped ShDone"
proof -
  let ?s0 = "sched_stop (scheduler_new 2) :: chan_ref sched"
  let ?s1 = "set_pc 0 Exited ?s0" let ?s2 = "set_pc 1 Exited ?s1"
  have w: "sc_workers ?s0 = [AtTop, AtTop]" "sc_workers ?s1 = [Exited, AtTop]" "sc_workers ?s2 = [Exited, Exited]"
    "sc_stop ?s0" "sc_stop ?s1"
    by (simp_all add: scheduler_new_def sched_stop_def set_pc_def eval_nat_numeral)
  have "quiet ?s1 demo_pool0 True TkStopped ShJoinWorkers"
    by (rule quiet_worker_exits [OF quiet_workers, of 0]) (simp_all add: w worker_step_def)
  then have "quiet ?s2 demo_pool0 True TkStopped ShJoinWorkers"
    by (rule quiet_worker_exits [of _ _ _ _ _ 1]) (simp_all add: w worker_step_def)
  then have "quiet ?s2 demo_pool0 True TkStopped ShStopPool"
    by (rule quiet_shutting) (simp add: shutdown_next_def joined_def w)
  then have "quiet ?s2 (pool_raise_stop demo_pool0) True TkStopped ShDropSender"
    by (rule quiet_shutting) (simp add: shutdown_next_def)
  then have "quiet ?s2 demo_pool1 True TkStopped ShJoinPool"
    by (rule quiet_shutting) (simp add: shutdown_next_def demo_pool1_def)
  then have "quiet ?s2 demo_pool2 True TkStopped ShJoinPool"
  proof (rule quiet_moves)
    fix s :: demo_system
    assume s: "rt_scheduler (sy_rt s) = ?s2" "rt_compute (sy_rt s) = demo_pool1" "rt_timer_stop (sy_rt s) = True"
      "sy_threads s = Map.empty" "sy_timer s = TkStopped" "sy_shutdown s = ShJoinPool"
    have "relay_move s None (s\<lparr>sy_rt := (sy_rt s)\<lparr>rt_compute := demo_pool2\<rparr>\<rparr>)"
      by (rule sys_move.pool [of 0]) (simp_all add: s demo_pools worker_next_def demo_pool2_def)
    then show "\<exists>took u. relay_move s took u \<and> rt_scheduler (sy_rt u) = ?s2 \<and> rt_compute (sy_rt u) = demo_pool2
        \<and> rt_timer_stop (sy_rt u) = True \<and> sy_threads u = Map.empty \<and> sy_timer u = TkStopped
        \<and> sy_shutdown u = ShJoinPool"
      using s by force
  qed
  then have "quiet ?s2 demo_pool2 True TkStopped ShDone"
    by (rule quiet_shutting) (simp add: shutdown_next_def pool_joined_def demo_pools)
  then show ?thesis ..
qed

theorem shutdown_ends_every_thread_witness:
  "\<exists>s t :: demo_system. reachable (sys_init ref_apis) relay_step s \<and> sy_shutdown s = ShDone
    \<and> relay_step\<^sup>*\<^sup>* s t \<and> sy_shutdown t = ShWait \<and> joined (rt_scheduler (sy_rt t))"
proof -
  obtain s :: demo_system where s: "reachable (sys_init ref_apis) relay_step s" "sy_shutdown s = ShDone"
    using quiet_done by (auto simp: quiet_def)
  let ?u = "s\<lparr>sy_rt := (sy_rt s)\<lparr>rt_stop := True\<rparr>, sy_shutdown := ShWait\<rparr>"
  have "relay_move s None ?u" by (rule sys_move.shut) (simp add: s(2))
  then obtain t where "relay_step s t" and sh: "sy_shutdown t = ShWait"
    unfolding sys_step_def by fastforce
  then have run: "relay_step\<^sup>*\<^sup>* s t" by blast
  from shutdown_ends_every_thread [OF chan_refs(1,2) s run] show ?thesis using s run sh by blast
qed

end
