(* ===== verification/SystemDrain.thy ===== *)
theory SystemDrain
  imports SystemShutdown
begin

text \<open>
  The drain of a shutdown (\<open>shutdown\<close> and the loop of \<open>spawn\<close>, \<open>src/runtime.rs\<close>): once the
  map of senders is cleared a mailbox accepts nothing, so every loop has at most the
  messages its mailbox then holds to handle before it ends.
\<close>

section \<open>Mailboxes no id leads to\<close>

definition unlisted :: "chan_ref \<Rightarrow> 'c net \<Rightarrow> bool" where
  "unlisted r n \<longleftrightarrow> r \<notin> ran (nt_senders n) \<and> r \<in> dom (st_map (nt_store n))"

text \<open>A step leaves it unlisted and adds nothing to it.\<close>

definition no_longer :: "('c \<Rightarrow> 'm chan_view) \<Rightarrow> chan_ref \<Rightarrow> 'c net \<Rightarrow> 'c net \<Rightarrow> bool" where
  "no_longer view r n n' \<longleftrightarrow> unlisted r n' \<and> length (queue_at view n' r) \<le> length (queue_at view n r)"

lemma no_longer_refl [simp]: "no_longer view r n n \<longleftrightarrow> unlisted r n"
  by (simp add: no_longer_def)

lemma no_longer_grows: "grows view n n' \<Longrightarrow> unlisted r n \<Longrightarrow> no_longer view r n n'"
  by (auto simp: no_longer_def unlisted_def grows_def queue_at_def dom_def)

lemma no_longer_put:
  assumes "unlisted r n" and "st_map (nt_store n) q = Some c"
    and "length (cv_queue (view c')) \<le> length (cv_queue (view c))"
  shows "no_longer view r n (put_channel q c' n)"
  using assms by (auto simp: no_longer_def unlisted_def queue_at_def)

lemma no_longer_clear:
  assumes "chan api view" and "unlisted r n"
  shows "no_longer view r n (clear_senders api n)"
  using assms(2)
  by (auto simp: no_longer_def unlisted_def clear_senders_def queue_at_def)

lemma no_longer_open:
  assumes "net_ok n" and "unlisted r n" and "open_mailbox api k i n = (q, n')"
  shows "no_longer view r n n'"
proof -
  have "q = st_next (nt_store n)" using assms(3) by (auto simp: open_mailbox_def store_new_def Let_def split: option.splits)
  moreover have "r < st_next (nt_store n)" using assms(1,2) by (auto simp: unlisted_def net_ok_iff)
  ultimately have r: "r \<noteq> q" by simp
  have s: "nt_senders n' = (nt_senders n)(i \<mapsto> q)"
    using assms(3) by (auto simp: open_mailbox_def store_new_def Let_def split: option.splits)
  show ?thesis using assms r s
    by (auto simp: no_longer_def unlisted_def ran_def open_mailbox_def store_new_def Let_def queue_at_def
        split: option.splits if_splits)
qed

lemma unlisted_move:
  assumes ch: "chan (on_mailbox A) view" and mail: "sys_mail view s" and un: "unlisted r (rt_net (sy_rt s))"
    and move: "sys_move A view qview ty handle s took u"
  shows "no_longer view r (rt_net (sy_rt s)) (rt_net (sy_rt u))"
proof -
  let ?n = "rt_net (sy_rt s)"
  have m: "mail_ok view (rt_mailbox_capacity (sy_rt s)) (dom (sy_threads s)) (sy_accepted s) (sy_handled s) ?n"
    and rx: "\<And>r th. sy_threads s r = Some th \<Longrightarrow> al_rx (at_loop th) = r"
    using mail by (simp_all add: sys_mail_def)
  have buf: "all_buffered view ?n" using mail_okD(4) [OF m] .
  have closing: "no_longer view r ?n (sh_net (drop_closure A view (at_loop th) (world_of (sy_rt s))))"
    if "on_worker i q th s" for i q th
  proof -
    have th: "sy_threads s q = Some th" using that by (simp add: on_worker_def)
    then obtain c where c: "st_map (nt_store ?n) q = Some c" using mail_okD(7) [OF m, of q] by blast
    have "cv_receivers (view c) = 1" using mail_okD(6) [OF m c] th by (simp add: box_ok_def dom_def)
    then have "length (cv_queue (view (ch_drop_sender (on_mailbox A) (ch_drop_receiver (on_mailbox A) c))))
        \<le> length (cv_queue (view c))"
      by (simp add: chan.drop_sender_view [OF ch] chan.drop_receiver_view [OF ch])
    from no_longer_put [OF un c this] show ?thesis
      using drop_closure_net [of "world_of (sy_rt s)" "at_loop th" c A view] rx [OF th] c by simp
  qed
  show ?thesis
    using move
  proof cases
    case (spawned a i rt lp)
    then show ?thesis using no_longer_open [OF mail_okD(1) [OF m] un] rt_spawn_parts(1) [OF spawned(5)] by auto
  next
    case (client rt)
    then show ?thesis using no_longer_grows [OF client_op_net(1) [OF ch buf client(4)] un] by simp
  next
    case (handles w)
    then show ?thesis using handle_op_net [OF handles(3)] un by simp
  next
    case (actor i q th inp th' w)
    note net = thread_next_net(2) [OF ch _ actor(4), simplified, OF buf]
    show ?thesis
    proof (cases "receiving (at_pc th)")
      case False
      then show ?thesis using net actor no_longer_grows un by simp
    next
      case True
      then obtain c where c: "st_map (nt_store ?n) (al_rx (at_loop th)) = Some c"
        and w: "sh_net w = ?n \<or> (\<exists>c' m ms. cv_queue (view c) = m # ms \<and> view c' = (view c)\<lparr>cv_queue := ms\<rparr>
          \<and> sh_net w = put_channel (al_rx (at_loop th)) c' ?n)"
        using net by auto
      then have "no_longer view r ?n (sh_net w)" 
        using un no_longer_put [where view = view, OF un c] by auto
      then show ?thesis using actor by simp
    qed
  next
    case (left i q th)
    then show ?thesis using closing [of i q th] by simp
  next
    case (unwound i q th)
    then show ?thesis using closing [of i q th] by simp
  next
    case (timer reading y)
    have "grows view ?n (ty_net y)"
      using timer_next_net [OF ch _ timer(3)] buf by (simp add: timer_view_def)
    then show ?thesis using timer no_longer_grows un by simp
  next
    case shutting
    then show ?thesis using shutdown_next_parts [OF shutting(2)] no_longer_clear [OF ch un] un by auto
  qed (use un in simp_all)
qed

section \<open>Once the senders are cleared\<close>

text \<open>
  \<open>drained\<close>: since the state \<open>s0\<close> the mailbox \<open>r\<close> has accepted nothing, and its loop has
  received some more messages, or none.
\<close>

definition drained ::
  "('c, 'r, 'q, 'p, 'v, 's) system \<Rightarrow> chan_ref \<Rightarrow> ('c, 'r, 'q, 'p, 'v, 's) system \<Rightarrow> bool" where
  "drained s0 r s \<longleftrightarrow> unlisted r (rt_net (sy_rt s)) \<and> sy_accepted s r = sy_accepted s0 r
     \<and> (\<exists>xs. sy_handled s r = sy_handled s0 r @ xs)"

lemma drained_step:
  assumes ch: "chan (on_mailbox A) view" and mail: "sys_mail view s" and d: "drained s0 r s"
    and step: "sys_step A view qview ty handle s t"
  shows "drained s0 r t"
proof -
  obtain took u where move: "sys_move A view qview ty handle s took u"
    and t: "t = u\<lparr>sy_accepted := accept view (rt_net (sy_rt s)) (rt_net (sy_rt u)) (sy_accepted s),
               sy_handled := receive view (rt_net (sy_rt s)) took (sy_handled s)\<rparr>"
    using step by (auto simp: sys_step_def)
  have "no_longer view r (rt_net (sy_rt s)) (rt_net (sy_rt u))"
    using unlisted_move [OF ch mail _ move] d by (simp add: drained_def)
  then show ?thesis
    using d by (auto simp: drained_def no_longer_def t accept_def receive_def split: option.split)
qed

lemma drained_invariant:
  assumes "chan (on_mailbox A) view" and "chan (on_tasks A) qview"
  shows "invariant_of (\<lambda>s. sys_ok A view qview s \<and> drained s0 r s) (sys_step A view qview ty handle)
    (\<lambda>s. sys_ok A view qview s \<and> drained s0 r s)"
proof
  fix s t
  assume ok: "sys_ok A view qview s \<and> drained s0 r s" and step: "sys_step A view qview ty handle s t"
  then have "sys_mail view s" by (simp add: sys_ok_def)
  from drained_step [OF assms(1) this _ step] sys_ok_step [OF assms _ step] ok
  show "sys_ok A view qview t \<and> drained s0 r t" by blast
qed simp

interpretation drain: invariant_of "\<lambda>s. sys_ok ref_apis (\<lambda>v. v) (\<lambda>v. v) s \<and> drained s0 r s"
  "sys_step ref_apis (\<lambda>v. v) (\<lambda>v. v) ty handle" "\<lambda>s. sys_ok ref_apis (\<lambda>v. v) (\<lambda>v. v) s \<and> drained s0 r s"
  by (rule drained_invariant [OF chan_refs(1,2)])

text \<open>Between the clearing of the map and the return of \<open>shutdown\<close> the map stays empty.\<close>

definition draining :: "('c, 'r, 'q, 'p, 'v, 's) system \<Rightarrow> bool" where
  "draining s \<longleftrightarrow> sy_shutdown s \<notin> {ShIdle, ShWait, ShDone}"

definition cleared :: "('c, 'r, 'q, 'p, 'v, 's) system \<Rightarrow> bool" where
  "cleared s \<longleftrightarrow> stage_ok s \<and> (draining s \<longrightarrow> rt_stop (sy_rt s) \<and> nt_senders (rt_net (sy_rt s)) = Map.empty)"

lemma grows_senders: "grows view n n' \<Longrightarrow> nt_senders n' = nt_senders n"
  by (simp add: grows_def)

lemma senders_kept:
  assumes ch: "chan (on_mailbox A) view" and mail: "sys_mail view s"
    and move: "sys_move A view qview ty handle s took u" and d: "draining s"
  shows "nt_senders (rt_net (sy_rt u)) = nt_senders (rt_net (sy_rt s))"
proof -
  let ?n = "rt_net (sy_rt s)"
  have m: "mail_ok view (rt_mailbox_capacity (sy_rt s)) (dom (sy_threads s)) (sy_accepted s) (sy_handled s) ?n"
    and rx: "\<And>r th. sy_threads s r = Some th \<Longrightarrow> al_rx (at_loop th) = r"
    using mail by (simp_all add: sys_mail_def)
  have buf: "all_buffered view ?n" using mail_okD(4) [OF m] .
  have closing: "nt_senders (sh_net (drop_closure A view (at_loop th) (world_of (sy_rt s)))) = nt_senders ?n"
    if "on_worker i q th s" for i q th
  proof -
    have th: "sy_threads s q = Some th" using that by (simp add: on_worker_def)
    then obtain c where "st_map (nt_store ?n) q = Some c" using mail_okD(7) [OF m, of q] by blast
    then show ?thesis
      using drop_closure_net [of "world_of (sy_rt s)" "at_loop th" c A view] rx [OF th] by simp
  qed
  show ?thesis
    using move
  proof cases
    case (handles w)
    then show ?thesis using handle_op_net [OF handles(3)] by simp
  next
    case (actor i q th inp th' w)
    then show ?thesis using thread_next_net(2) [OF ch _ actor(4), simplified, OF buf]
      by (auto split: if_splits dest: grows_senders)
  next
    case (left i q th)
    then show ?thesis using closing [of i q th] by simp
  next
    case (unwound i q th)
    then show ?thesis using closing [of i q th] by simp
  next
    case (timer reading y)
    then show ?thesis
      using timer_next_net [OF ch _ timer(3)] buf grows_senders by (fastforce simp: timer_view_def)
  next
    case shutting
    then show ?thesis using shutdown_next_parts(8) [OF shutting(2)] d by (auto simp: draining_def)
  qed (use d in \<open>simp_all add: draining_def\<close>)
qed

lemma cleared_move:
  assumes ch: "chan (on_mailbox A) view" and mail: "sys_mail view s" and st: "stage_ok u" and c: "cleared s"
    and move: "sys_move A view qview ty handle s took u"
  shows "cleared u"
proof (cases "draining s")
  case True
  then show ?thesis
    using c st senders_kept [OF ch mail move] move_flags(2) [OF ch move] by (simp add: cleared_def)
next
  case False
  have np: "\<not> nt_poisoned (rt_net (sy_rt s))" using c by (simp add: cleared_def stage_ok_def)
  have "draining u \<Longrightarrow> rt_stop (sy_rt u) \<and> nt_senders (rt_net (sy_rt u)) = Map.empty"
    using move
  proof cases
    case shutting
    assume "draining u"
    then have w: "sy_shutdown s = ShWait"
      using False shutting(2) by (auto simp: draining_def shutdown_next_def)
    then have "rt_stop (sy_rt s)" using c by (simp add: cleared_def stage_ok_def)
    then show ?thesis
      using shutting(2) w np \<open>draining u\<close>
      by (auto simp: shutdown_next_def Let_def draining_def clear_senders_def set_net_def rt_net_def split: if_splits)
  qed (use False in \<open>simp_all add: draining_def\<close>)
  then show ?thesis using st by (simp add: cleared_def)
qed

lemma cleared_invariant:
  assumes ch: "chan (on_mailbox A) view" and qch: "chan (on_tasks A) qview"
  shows "invariant_of (sys_init A) (sys_step A view qview ty handle) (\<lambda>s. sys_ok A view qview s \<and> cleared s)"
proof
  fix s
  assume "sys_init A s"
  then show "sys_ok A view qview s \<and> cleared s"
    using sys_ok_init [OF qch] stage_init by (fastforce simp: cleared_def draining_def sys_init_def)
next
  fix s t
  assume ok: "sys_ok A view qview s \<and> cleared s" and step: "sys_step A view qview ty handle s t"
  obtain took u a g where move: "sys_move A view qview ty handle s took u"
    and t: "t = u\<lparr>sy_accepted := a, sy_handled := g\<rparr>"
    using step by (auto simp: sys_step_def)
  have "stage_ok t" using step_lasting(2) [OF ch qch _ step] ok by (simp add: cleared_def)
  then have "stage_ok u" by (simp add: t stage_histories)
  then have "cleared u" using cleared_move [OF ch _ _ _ move] ok by (simp add: sys_ok_def)
  then have "cleared t" by (simp add: cleared_def draining_def t stage_histories)
  then show "sys_ok A view qview t \<and> cleared t" using sys_ok_step [OF ch qch _ step] ok by blast
qed

interpretation clearing: invariant_of "sys_init ref_apis" "sys_step ref_apis (\<lambda>v. v) (\<lambda>v. v) ty handle"
  "\<lambda>s. sys_ok ref_apis (\<lambda>v. v) (\<lambda>v. v) s \<and> cleared s"
  by (rule cleared_invariant [OF chan_refs(1,2)])

text \<open>A loop that has received all its mailbox accepted leaves at its next look.\<close>

lemma emptied_loop_leaves:
  assumes ch: "chan (on_mailbox A) view" and mail: "sys_mail view t"
    and th: "sy_threads t r = Some th" "at_pc th = DrainRecv" and e: "sy_handled t r = sy_accepted t r"
  shows "thread_next A ty handle stop inp th (world_of (sy_rt t)) = Some (th\<lparr>at_pc := LoopLeft\<rparr>, world_of (sy_rt t))"
proof -
  have m: "mail_ok view (rt_mailbox_capacity (sy_rt t)) (dom (sy_threads t)) (sy_accepted t) (sy_handled t)
      (rt_net (sy_rt t))"
    and rx: "al_rx (at_loop th) = r"
    using mail th(1) by (simp_all add: sys_mail_def)
  obtain c where c: "st_map (nt_store (rt_net (sy_rt t))) r = Some c" using mail_okD(7) [OF m, of r] th(1) by blast
  have "cv_queue (view c) = []" using mail_okD(6) [OF m c] th(1) e by (auto simp: box_ok_def dom_def)
  moreover have "cv_bound (view c) \<noteq> Some 0"
    using mail_okD(4) [OF m] c by (auto simp: all_buffered_def buffered_def)
  ultimately obtain e where "ch_try_recv (on_mailbox A) c = Inl e"
    using chan.try_recv_empty [OF ch, of c] by blast
  then show ?thesis using th(2) rx c by (simp add: thread_next_def)
qed

lemma handled_prefix:
  assumes mail: "sys_mail view t"
  shows "take (length (sy_handled t r)) (sy_accepted t r) = sy_handled t r"
proof -
  have m: "mail_ok view (rt_mailbox_capacity (sy_rt t)) (dom (sy_threads t)) (sy_accepted t) (sy_handled t)
      (rt_net (sy_rt t))"
    using mail by (simp add: sys_mail_def)
  show ?thesis
    using mail_okD(5) [OF m, of r] mail_okD(7) [OF m, of r]
    by (cases "st_map (nt_store (rt_net (sy_rt t))) r") (auto simp: box_ok_def split: if_splits)
qed

text \<open>
  C4: once \<open>shutdown\<close> has cleared the map of senders no mailbox accepts another message, so
  an actor's loop still handles at most the messages its mailbox holds at that moment, in
  their order, whatever its own and the other handlers send meanwhile. From the moment it
  has handled what the mailbox accepted, its next look at the mailbox ends the loop.
\<close>

theorem shutdown_drains_mailboxes:
  assumes ch: "chan (on_mailbox A) view" and qch: "chan (on_tasks A) qview"
    and s: "reachable (sys_init A) (sys_step A view qview ty handle) s"
    and "sy_shutdown s \<notin> {ShIdle, ShWait, ShDone}"
    and r: "r \<in> dom (sy_threads s)" and c: "st_map (nt_store (rt_net (sy_rt s))) r = Some c"
    and run: "(sys_step A view qview ty handle)\<^sup>*\<^sup>* s t"
  shows "sy_accepted t r = sy_accepted s r
    \<and> (\<exists>n \<le> length (cv_queue (view c)). sy_handled t r = sy_handled s r @ take n (cv_queue (view c)))
    \<and> (\<forall>th inp stop. sy_threads t r = Some th \<and> at_pc th = DrainRecv \<and> sy_handled t r = sy_accepted t r \<longrightarrow>
        thread_next A ty handle stop inp th (world_of (sy_rt t))
          = Some (th\<lparr>at_pc := LoopLeft\<rparr>, world_of (sy_rt t)))"
proof -
  have ok: "sys_ok A view qview s \<and> cleared s"
    by (rule invariant_of.always [OF cleared_invariant [OF ch qch] s])
  then have "unlisted r (rt_net (sy_rt s))" using assms(4) c by (auto simp: cleared_def draining_def unlisted_def)
  then have "sys_ok A view qview s \<and> drained s r s" using ok by (simp add: drained_def)
  note t = invariant_of.kept_by_run [OF drained_invariant [OF ch qch] run this]
  then obtain xs where xs: "sy_handled t r = sy_handled s r @ xs" and acc: "sy_accepted t r = sy_accepted s r"
    by (auto simp: drained_def)
  have "sy_accepted s r = sy_handled s r @ cv_queue (view c)"
    using mail_okD(6) [OF sys_ok_mail(1) [OF ch qch s] c] r by (simp add: box_ok_def)
  moreover have "take (length (sy_handled t r)) (sy_accepted t r) = sy_handled t r"
    using handled_prefix [of view t r] t by (simp add: sys_ok_def)
  ultimately have q: "take (length xs) (cv_queue (view c)) = xs" by (simp add: xs acc)
  then have "length xs \<le> length (cv_queue (view c))" by (metis length_take min.cobounded1)
  then show ?thesis using q xs acc emptied_loop_leaves [OF ch, of t r] t by (auto simp: sys_ok_def)
qed

theorem shutdown_drains_mailboxes_witness:
  "\<exists>(s :: demo_system) c. reachable (sys_init ref_apis) relay_step s \<and> sy_shutdown s = ShActors
    \<and> st_map (nt_store (rt_net (sy_rt s))) 0 = Some c \<and> cv_queue c = [Message get_message]
    \<and> (\<forall>t. relay_step\<^sup>*\<^sup>* s t \<longrightarrow>
        (\<exists>n \<le> 1. sy_handled t 0 = sy_handled s 0 @ take n [Message get_message]))"
proof -
  obtain s :: demo_system where s: "reachable (sys_init ref_apis) relay_step s"
    "sy_rt s = relay_rt [Message get_message] busy_sched" "sy_threads s = [0 \<mapsto> relay_loop LoopTop]"
    "sy_shutdown s = ShIdle"
    using relay_sends [OF relayed_top] by (auto simp: relayed_def)
  have "relay_move s None (s\<lparr>sy_rt := (sy_rt s)\<lparr>rt_stop := True\<rparr>, sy_shutdown := ShWait\<rparr>)"
    by (rule sys_move.shut) (simp add: s)
  from move_reaches [OF s(1) this] obtain t :: demo_system where t: "reachable (sys_init ref_apis) relay_step t"
    "sy_rt t = (sy_rt s)\<lparr>rt_stop := True\<rparr>" "sy_threads t = sy_threads s" "sy_shutdown t = ShWait"
    by auto
  have n: "rt_net (sy_rt t) = relay_net [Message get_message]" by (simp add: t s)
  let ?n = "clear_senders (on_mailbox ref_apis) (relay_net [Message get_message])"
  have "shutdown_next ref_apis t
      = Some (t\<lparr>sy_rt := set_net ?n (sy_rt t), sy_shutdown := ShActors\<rparr>)"
    using n t(3,4) s(3) by (simp add: shutdown_next_def unguarded_def relay_loop_def)
  from move_reaches [OF t(1) sys_move.shutting [OF this]] obtain u :: demo_system
    where u: "reachable (sys_init ref_apis) relay_step u" "sy_rt u = set_net ?n (sy_rt t)"
    "sy_threads u = sy_threads t" "sy_shutdown u = ShActors"
    by auto
  have c: "st_map (nt_store (rt_net (sy_rt u))) 0
      = Some ((demo_mailbox [Message get_message])\<lparr>cv_senders := 1\<rparr>)"
    by (simp add: u set_net_def rt_net_def clear_senders_def ref_apis_def ref_api_def demo_mailbox_def)
  have r: "0 \<in> dom (sy_threads u)" by (simp add: u t s)
  from shutdown_drains_mailboxes [OF chan_refs(1,2) u(1) _ r c] u(1,4) c show ?thesis
    by (intro exI [of _ u] exI [of _ "(demo_mailbox [Message get_message])\<lparr>cv_senders := 1\<rparr>"])
       (simp add: demo_mailbox_def)
qed

end
