(* ===== verification/Spec2Isabelle.thy ===== *)
theory Spec2Isabelle
  imports MailboxThreads Resource CrateTests SystemDrain
begin

text \<open>
  A verification development for Runact, an actor runtime in Rust.

  \<^bold>\<open>The program.\<close> A \<open>Runtime\<close> (\<open>src/runtime.rs\<close>) owns a work-stealing scheduler
  (\<open>src/scheduler/\<close>), a compute pool (\<open>src/compute/\<close>), a timer service (\<open>src/timer/\<close>), a map
  from actor ids to the senders of their mailboxes and a list of actors. \<open>Runtime::spawn\<close>
  creates a bounded channel, lists its sender and hands the scheduler a closure: the loop
  that receives envelopes from the channel and calls the actor's handler with an
  \<open>ActorContext\<close> (\<open>src/actor/context.rs\<close>). Through the context a handler sends to other
  actors, replies to a request, submits compute jobs and starts timers. Clients call the
  runtime from threads of their own; a request carries a reply channel. The crate also has
  a mailbox (\<open>src/mailbox/queue.rs\<close>), capabilities with a registry (\<open>src/resource/\<close>), a
  failure counting supervisor and a supervising actor (\<open>src/supervision/\<close>).

  \<^bold>\<open>Theories.\<close>
  \<^item> \<open>Prelude\<close>: machine types, results and panics (\<open>rust\<close>), clock readings, type-erased
    values, transition systems (\<open>reachable\<close>, the locale \<open>invariant_of\<close> that carries every
    invariant) and the locale \<open>id_source\<close> of the atomic counters. \<open>Fifo\<close>: the locales of
    queues, bounded queues and stealing. \<open>Channel\<close>: the operations of \<open>crossbeam_channel\<close> as
    a record, their documented behaviour as the locale \<open>chan\<close>, a reference instance, and
    the store of the channels in existence.
  \<^item> \<open>ActorTypes\<close>: ids and errors (\<open>src/actor/id.rs\<close>, \<open>src/actor/error.rs\<close>, \<open>src/error.rs\<close>).
  \<^item> \<open>Mailbox\<close>, \<open>MailboxThreads\<close>: \<open>Mailbox\<close> sequentially, and shared by threads that sleep
    on its condition variable.
  \<^item> \<open>RunQueue\<close>, \<open>Scheduler\<close>: \<open>RunQueue\<close>, \<open>Worker\<close>, \<open>ReductionCounter\<close> and \<open>Scheduler\<close>; a
    worker's loop is cut at each access to shared state (\<open>worker_step\<close>, \<open>sched_step\<close>).
  \<^item> \<open>TimerTypes\<close>, \<open>TimerService\<close>, \<open>TimerProps\<close>: the timer values; the list of timers, the
    scheduling functions and the delivery thread (\<open>ty_step\<close>, and \<open>timer_next\<close> as a function);
    what they guarantee.
  \<^item> \<open>ComputeTask\<close>, \<open>ComputePool\<close>, \<open>ComputeInvariants\<close>, \<open>ComputeProps\<close>: tasks and handles; the
    pool and its workers (\<open>worker_next\<close>, \<open>cp_step\<close>); the books kept of its tasks and result
    channels; what it guarantees.
  \<^item> \<open>Resource\<close>: \<open>Capability\<close> with the reference counts of \<open>Arc\<close>, and \<open>ResourceRegistry\<close>.
  \<^item> \<open>Supervision\<close>, \<open>SupervisorActor\<close>: \<open>RestartStrategy\<close>, \<open>ChildSpec\<close>, \<open>Supervisor\<close>; the
    supervising actor with its backoff, and the counter beside it.
  \<^item> \<open>Network\<close>, \<open>Context\<close>: the map of senders and the two sends through it; \<open>ActorContext\<close>.
  \<^item> \<open>ActorLoop\<close>, \<open>Actors\<close>: the loop of \<open>spawn\<close> in whole rounds (\<open>loop_step\<close>), and the two
    actors of the crate as its handlers. \<open>ActorThread\<close>: the same loop at the grain at which
    threads interleave (\<open>thread_next\<close>), with a handler as a tree of context operations.
  \<^item> \<open>Runtime\<close>, \<open>RuntimeProps\<close>: the operations of \<open>Runtime\<close> and what each does.
  \<^item> \<open>Conversation\<close>, \<open>CrateTests\<close>: a client that talks to the supervising actor through the
    runtime; the tests of \<open>src/supervision/supervisor_actor.rs\<close> and \<open>examples/counter.rs\<close>.
  \<^item> \<open>System\<close>, \<open>SystemMail\<close>, \<open>SystemInvariants\<close>, \<open>SystemParts\<close>, \<open>SystemProps\<close>,
    \<open>SystemShutdown\<close>, \<open>SystemDrain\<close>: the running program, all components with all their
    threads (\<open>sys_step\<close>); the account of its mailboxes; its tasks; the projections to its
    parts; what it guarantees; its shutdown, and the drain of the mailboxes in it.

  \<^bold>\<open>State.\<close> A struct is a record and an enum a datatype. A channel handle is a reference
  (\<open>chan_ref\<close>) into a store of channels, an \<open>Arc\<close> a reference into a heap with a count. The
  senders, the receivers and their clones are counted in the channel's state as observed
  by \<open>chan_view\<close>. Counters are 64-bit words that wrap, as in a release build. A
  \<open>Duration\<close> or an \<open>Instant\<close> is a number of nanoseconds with its bound written out; an
  overflowing sum panics. \<open>None\<close> of a blocking operation is a caller that waits.

  \<^bold>\<open>Results.\<close> Conservation: no task, compute job, mailbox message or resource handle is lost
  or duplicated, in any interleaving. Order: mailboxes are first in, first out, an actor is
  run by one worker at a time and handles its messages in order. Time: timers are never
  early and do not drift. Errors: what every send, reply, submission and timer call reports
  in each state. Refinement: the supervising actor implements the failure counter, rounds
  are runs of the fine-grained loop, the program's parts only take the steps of their own
  systems, and a client sees the actor's sequential behaviour. Progress: workers that can be
  joined end, waiting handles are answered, a stopping loop has only the messages its mailbox
  holds left to handle, and \<open>shutdown\<close> leaves no thread running; and
  where the code does not make progress, that it does not: actors that send in a cycle to
  full mailboxes wait for ever and keep \<open>shutdown\<close> from returning, queued actors starve
  behind actor loops, a mailbox receiver wakes no sender.

  \<^bold>\<open>Parameters.\<close> \<open>crossbeam_channel\<close> is not part of the repository: its operations are a
  parameter of every definition that uses one, and theorems that depend on its behaviour
  assume the laws of \<open>chan\<close>, which restate its documentation. Handlers of user actors are
  parameters (\<open>handler\<close>, \<open>behaviour\<close>), as are compute jobs (their \<open>outcome\<close>), clock readings,
  the iteration order of a \<open>HashMap\<close> and the answer of \<open>available_parallelism\<close>.

  \<^bold>\<open>Bounds and fuel.\<close> \<open>loop_run\<close> makes at most the given number of rounds; as many rounds as
  envelopes are queued handle all of them, and one more ends a stopping loop. The index
  loop of the timer scan is a recursion with a measure. Ids are distinct up to \<open>2^64\<close> calls.

  \<^bold>\<open>Atomicity.\<close> A critical section is one step. In \<open>loop_step\<close> a whole round is one step; in
  \<open>System\<close> each receive, send, test of a flag and context operation is one. There, the read
  guard that a handler's blocking send holds on the map of senders is kept until the send
  returns; the guards of the timer thread and of blocking clients are not, nor is a waiting
  writer's precedence over new readers, so the program has at least the runs the model's
  deadlocks need. \<open>spawn\<close> takes its two locks in one step. The worker reads its stop flag
  and takes a task in different steps.

  \<^bold>\<open>Not modelled.\<close> Trait declarations without code (\<open>Actor\<close>, \<open>ResourceHandle\<close>), re-exports,
  the serialisation of ids, tracing, the creation of threads, and channels of capacity zero
  (a runtime configured with one), whose sends are a rendezvous.
\<close>

end
